(* ===== verification/Prelude.thy ===== *)
theory Prelude
  imports Main "HOL-Library.Word" "HOL-Library.Sublist" "HOL-Library.Multiset"
begin

text \<open>
  Shared vocabulary of the development: the outcome type of C code that may have undefined
  behaviour, C strings as character lists with the parts of the C standard library the daemon
  calls (\<open>strncmp\<close>, \<open>strncpy\<close>, \<open>snprintf\<close>, \<open>strchr\<close>, \<open>isspace\<close>, \<open>tolower\<close>), decimal and
  hexadecimal formatting, and the generic lemmas on lists and options the components share.
\<close>

section \<open>Collections of rewrite rules\<close>

named_theorems cstr_simps \<open>evaluation of the C string functions\<close>
named_theorems idl_simps \<open>reading back what was written through the database library\<close>

section \<open>Machine integers\<close>

type_synonym u8 = "8 word"
type_synonym u16 = "16 word"
type_synonym u32 = "32 word"
type_synonym u64 = "64 word"

section \<open>Outcomes of C code\<close>

text \<open>
  A C operation either runs to its end or has no defined continuation: a null pointer is read,
  an access leaves its object, an assertion aborts, a string without terminator is read, or a loop
  does not end.
\<close>

datatype fault = Null_Deref | Out_Of_Bounds | Assertion | Unterminated | Diverges

definition bindE :: "('e + 'a) \<Rightarrow> ('a \<Rightarrow> 'e + 'b) \<Rightarrow> 'e + 'b" where
  "bindE x f = (case x of Inl e \<Rightarrow> Inl e | Inr a \<Rightarrow> f a)"

lemma bindE_Inl [simp]: "bindE (Inl e) f = Inl e"
  by (simp add: bindE_def)

lemma bindE_Inr [simp]: "bindE (Inr a) f = f a"
  by (simp add: bindE_def)

lemma bindE_cong [fundef_cong]:
  "x = y \<Longrightarrow> (\<And>a. y = Inr a \<Longrightarrow> f a = g a) \<Longrightarrow> bindE x f = bindE y g"
  by (cases y) (auto simp: bindE_def)

lemma bindE_eq_Inr: "bindE x f = Inr b \<longleftrightarrow> (\<exists>a. x = Inr a \<and> f a = Inr b)"
  by (cases x) auto

lemma bindE_assoc: "bindE (bindE x f) g = bindE x (\<lambda>a. bindE (f a) g)"
  by (cases x) auto

definition guardE :: "'e \<Rightarrow> bool \<Rightarrow> 'e + unit" where
  "guardE e b = (if b then Inr () else Inl e)"

lemma guardE_simps [simp]: "guardE e True = Inr ()" "guardE e False = Inl e"
  by (simp_all add: guardE_def)

lemma guardE_eq_Inr [simp]: "guardE e b = Inr u \<longleftrightarrow> b"
  by (simp add: guardE_def)

text \<open>A loop over a list whose body may fail.\<close>

fun foldE :: "('a \<Rightarrow> 's \<Rightarrow> 'e + 's) \<Rightarrow> 'a list \<Rightarrow> 's \<Rightarrow> 'e + 's" where
  "foldE f [] s = Inr s"
| "foldE f (x # xs) s = bindE (f x s) (foldE f xs)"

lemma foldE_append: "foldE f (xs @ ys) s = bindE (foldE f xs s) (foldE f ys)"
  by (induction xs arbitrary: s) (auto simp: bindE_def split: sum.split)

lemma foldE_Inr: "(\<And>x s. x \<in> set xs \<Longrightarrow> f x s = Inr (g x s)) \<Longrightarrow> foldE f xs s = Inr (fold g xs s)"
  by (induction xs arbitrary: s) auto

section \<open>Cutting a list at an element\<close>

lemma takeWhile_neq_append [simp]: "c \<notin> set a \<Longrightarrow> takeWhile (\<lambda>x. x \<noteq> c) (a @ c # b) = a"
  by (induction a) auto

lemma dropWhile_neq_append [simp]: "c \<notin> set a \<Longrightarrow> dropWhile (\<lambda>x. x \<noteq> c) (a @ c # b) = c # b"
  by (induction a) auto

lemma dropWhile_all_append: "\<forall>x \<in> set ws. P x \<Longrightarrow> dropWhile P (ws @ v) = dropWhile P v"
  by (induction ws) auto

section \<open>C strings\<close>

text \<open>
  A C string is the list of its characters without the terminator. A buffer that holds raw
  bytes is read as a string up to its first NUL.
\<close>

definition cstr :: "string \<Rightarrow> string" where
  "cstr buf = takeWhile (\<lambda>c. c \<noteq> CHR 0x00) buf"

text \<open>\<open>strncmp (a, b, n) == 0\<close> on strings without NUL: the first \<open>n\<close> characters agree.\<close>

definition strncmp0 :: "string \<Rightarrow> string \<Rightarrow> nat \<Rightarrow> bool" where
  "strncmp0 a b n \<longleftrightarrow> take n a = take n b"

lemma strncmp0_prefix: "strncmp0 s tag (length tag) \<longleftrightarrow> prefix tag s"
  by (auto simp: strncmp0_def prefix_def take_all_iff)
     (metis append_take_drop_id)

lemma strncmp0_prefix_left: "strncmp0 tag s (length tag) \<longleftrightarrow> prefix tag s"
  using strncmp0_prefix [of s tag] by (auto simp: strncmp0_def)

text \<open>The idiom \<open>strncmp (s, tag, strlen (tag)) == 0\<close>.\<close>

definition starts_with :: "string \<Rightarrow> string \<Rightarrow> bool" where
  "starts_with s tag \<longleftrightarrow> strncmp0 s tag (length tag)"

lemma starts_with_prefix [simp]: "starts_with s tag \<longleftrightarrow> prefix tag s"
  by (simp add: starts_with_def strncmp0_prefix)

text \<open>The characters \<open>strncpy\<close> and \<open>snprintf\<close> leave in a buffer of the given size.\<close>

definition snprintf_str :: "nat \<Rightarrow> string \<Rightarrow> string" where
  "snprintf_str sz s = take (sz - 1) s"

lemma snprintf_str_fits [simp]: "length s < sz \<Longrightarrow> snprintf_str sz s = s"
  by (simp add: snprintf_str_def)

lemma length_snprintf_str: "0 < sz \<Longrightarrow> length (snprintf_str sz s) < sz"
  by (auto simp: snprintf_str_def)

text \<open>\<open>strchr (s, c)\<close>: the text before the first \<open>c\<close> and the text after it.\<close>

definition strchr_split :: "char \<Rightarrow> string \<Rightarrow> (string \<times> string) option" where
  "strchr_split c s =
     (if c \<in> set s then Some (takeWhile (\<lambda>x. x \<noteq> c) s, tl (dropWhile (\<lambda>x. x \<noteq> c) s)) else None)"

lemma strchr_split_append [cstr_simps]:
  "c \<notin> set a \<Longrightarrow> strchr_split c (a @ c # b) = Some (a, b)"
  by (simp add: strchr_split_def)

lemma strchr_split_None [cstr_simps]: "c \<notin> set s \<Longrightarrow> strchr_split c s = None"
  by (simp add: strchr_split_def)

definition isspace :: "char \<Rightarrow> bool" where
  "isspace c \<longleftrightarrow> c = CHR 0x20 \<or> c \<in> {CHR 0x09, CHR 0x0A, CHR 0x0B, CHR 0x0C, CHR 0x0D}"

definition rstrip :: "string \<Rightarrow> string" where
  "rstrip s = rev (dropWhile isspace (rev s))"

lemma rstrip_append_spaces [cstr_simps]:
  "\<forall>c \<in> set ws. isspace c \<Longrightarrow> v = [] \<or> \<not> isspace (last v) \<Longrightarrow> rstrip (v @ ws) = v"
  by (cases v rule: rev_cases) (auto simp: rstrip_def dropWhile_all_append)

lemma length_rstrip: "length (rstrip s) \<le> length s"
  by (simp add: rstrip_def) (metis length_dropWhile_le length_rev)

definition tolower_c :: "char \<Rightarrow> char" where
  "tolower_c c = (if 65 \<le> (of_char c :: nat) \<and> (of_char c :: nat) \<le> 90
                  then char_of ((of_char c :: nat) + 32) else c)"

definition tolower_str :: "string \<Rightarrow> string" where
  "tolower_str s = map tolower_c s"

lemma tolower_c_idem [simp]: "tolower_c (tolower_c c) = tolower_c c"
  by (auto simp: tolower_c_def)

lemma tolower_str_idem [simp]: "tolower_str (tolower_str s) = tolower_str s"
  by (simp add: tolower_str_def)

lemma length_tolower_str [simp]: "length (tolower_str s) = length s"
  by (simp add: tolower_str_def)

section \<open>Formatting numbers\<close>

definition digit_char :: "nat \<Rightarrow> char" where
  "digit_char d = char_of (48 + d)"

fun dec_digits :: "nat \<Rightarrow> string" where
  "dec_digits n = (if n < 10 then [digit_char n] else dec_digits (n div 10) @ [digit_char (n mod 10)])"

declare dec_digits.simps [simp del]

text \<open>\<open>printf ("%d")\<close> of a C integer.\<close>

definition fmt_d :: "int \<Rightarrow> string" where
  "fmt_d i = (if i < 0 then CHR ''-'' # dec_digits (nat (- i)) else dec_digits (nat i))"

text \<open>The value of a string of decimal digits.\<close>

definition dec_value :: "string \<Rightarrow> nat" where
  "dec_value s = foldl (\<lambda>a c. 10 * a + (of_char c - 48)) 0 s"

lemma dec_value_snoc: "dec_value (s @ [c]) = 10 * dec_value s + (of_char c - 48)"
  by (simp add: dec_value_def)

lemma of_char_digit: "d < 10 \<Longrightarrow> (of_char (digit_char d) :: nat) = 48 + d"
  by (simp add: digit_char_def)

lemma dec_value_digits: "dec_value (dec_digits n) = n"
proof (induction n rule: dec_digits.induct)
  case (1 n)
  show ?case
  proof (cases "n < 10")
    case True
    then show ?thesis
      by (subst dec_digits.simps) (simp add: dec_value_def of_char_digit)
  next
    case False
    with "1.IH" show ?thesis
      by (subst dec_digits.simps) (simp add: dec_value_snoc of_char_digit)
  qed
qed

lemma dec_digits_inject [simp]: "dec_digits m = dec_digits n \<longleftrightarrow> m = n"
  by (metis dec_value_digits)

lemma dec_digits_range: "c \<in> set (dec_digits n) \<Longrightarrow> \<exists>d < 10. c = digit_char d"
proof (induction n rule: dec_digits.induct)
  case (1 n)
  then show ?case
    by (subst (asm) dec_digits.simps) (auto split: if_splits intro: exI [of _ "n mod 10"])
qed

lemma digit_char_neq [simp]:
  "d < 10 \<Longrightarrow> digit_char d \<noteq> CHR ''-''" "d < 10 \<Longrightarrow> digit_char d \<noteq> CHR '',''"
  "d < 10 \<Longrightarrow> digit_char d \<noteq> CHR 0x00"
  using of_char_digit [of d] by (auto dest: arg_cong [where f = "of_char :: char \<Rightarrow> nat"])

lemma dec_digits_nonempty [simp]: "dec_digits n \<noteq> []"
  by (subst dec_digits.simps) simp

lemma length_dec_digits: "n < 10 ^ k \<Longrightarrow> 0 < k \<Longrightarrow> length (dec_digits n) \<le> k"
proof (induction n arbitrary: k rule: dec_digits.induct)
  case (1 n)
  show ?case
  proof (cases "n < 10")
    case True
    with "1.prems" show ?thesis by (subst dec_digits.simps) simp
  next
    case False
    from "1.prems" obtain j where k: "k = Suc j" by (cases k) auto
    from False "1.prems" k have "0 < j" by (cases j) auto
    from "1.prems" k have "n div 10 < 10 ^ j" by (simp add: less_mult_imp_div_less)
    then have "length (dec_digits (n div 10)) \<le> j" using False \<open>0 < j\<close> by (intro "1.IH")
    with False k show ?thesis by (subst dec_digits.simps) simp
  qed
qed

lemma dec_digits_upper: "n < 10 ^ length (dec_digits n)"
proof (induction n rule: dec_digits.induct)
  case (1 n)
  show ?case
  proof (cases "n < 10")
    case True
    then show ?thesis by (subst dec_digits.simps) simp
  next
    case False
    with "1.IH" have "n div 10 < 10 ^ length (dec_digits (n div 10))" by simp
    then have "n < 10 * 10 ^ length (dec_digits (n div 10))" by (simp add: div_less_iff_less_mult mult.commute)
    with False show ?thesis by (subst dec_digits.simps) simp
  qed
qed

lemma fmt_d_inject [simp]: "fmt_d i = fmt_d j \<longleftrightarrow> i = j"
proof -
  have *: "CHR ''-'' # s \<noteq> dec_digits n" for s n
    using dec_digits_range [of "CHR ''-''" n]
    by (metis digit_char_neq(1) list.set_intros(1))
  show ?thesis
    using * by (auto simp: fmt_d_def dest: sym)
qed

lemma fmt_d_nonempty [simp]: "fmt_d i \<noteq> []"
  by (simp add: fmt_d_def)

text \<open>A 32-bit integer needs at most eleven characters, a 64-bit integer at most twenty.\<close>

lemma length_fmt_d: "\<bar>i\<bar> < 10 ^ k \<Longrightarrow> 0 < k \<Longrightarrow> length (fmt_d i) \<le> Suc k"
  using length_dec_digits [of "nat \<bar>i\<bar>" k] by (auto simp: fmt_d_def nat_less_iff)

lemma length_fmt_d32: "- (2 ^ 31) \<le> i \<Longrightarrow> i < 2 ^ 31 \<Longrightarrow> length (fmt_d i) \<le> 11"
  using length_fmt_d [of i 10] by auto

lemma length_fmt_d64: "- (2 ^ 63) \<le> i \<Longrightarrow> i < 2 ^ 63 \<Longrightarrow> length (fmt_d i) \<le> 20"
  using length_fmt_d [of i 19] by auto

text \<open>\<open>printf ("%02x")\<close> of a byte.\<close>

definition hex_char :: "nat \<Rightarrow> char" where
  "hex_char d = (if d < 10 then char_of (48 + d) else char_of (87 + d))"

definition fmt_02x :: "u8 \<Rightarrow> string" where
  "fmt_02x b = [hex_char (unat b div 16), hex_char (unat b mod 16)]"

lemma length_fmt_02x [simp]: "length (fmt_02x b) = 2"
  by (simp add: fmt_02x_def)

section \<open>Lists and options\<close>

lemma takeWhile_id: "\<forall>x \<in> set xs. P x \<Longrightarrow> takeWhile P xs = xs"
  by (simp add: takeWhile_eq_all_conv)

lemma cstr_id [cstr_simps]: "CHR 0x00 \<notin> set s \<Longrightarrow> cstr s = s"
  by (auto simp: cstr_def intro!: takeWhile_id)

lemma cstr_append_NUL [cstr_simps]: "CHR 0x00 \<notin> set s \<Longrightarrow> cstr (s @ CHR 0x00 # t) = s"
  by (simp add: cstr_def)

lemma list_all_map_of: "map_of xs k = Some v \<Longrightarrow> list_all P xs \<Longrightarrow> P (k, v)"
  by (auto simp: list_all_iff dest: map_of_SomeD)

lemma fold_map_filter:
  "fold (\<lambda>i s. case f i of None \<Rightarrow> s | Some x \<Rightarrow> g x s) is s = fold g (List.map_filter f is) s"
  by (induction "is" arbitrary: s) (auto simp: map_filter_simps split: option.split)

lemma find_Some_in: "List.find P xs = Some x \<Longrightarrow> x \<in> set xs \<and> P x"
  by (auto simp: find_Some_iff)

end
