(* ===== verification/Ovs_Lib.thy ===== *)
theory Ovs_Lib
  imports Prelude
begin

text \<open>
  The interface of the Open vSwitch libraries the daemon links against: string maps
  (\<open>smap.h\<close>) and the database replica (\<open>ovsdb-idl.h\<close> and the accessors generated from the
  schema). Their code is not in the repository, so every definition that calls them takes the
  library as an argument \<open>L\<close>; the locales \<open>smap_lib\<close> and \<open>ovs_idl\<close> state the documented
  behaviour the daemon relies on. The last section gives an in-memory replica that satisfies
  both, on which the definitions run.
\<close>

section \<open>Values, rows and the library\<close>

type_synonym row = nat

datatype ovs_table =
    T_System | T_Subsystem | T_Interface | T_Bridge | T_Port | T_VRF | T_Daemon | T_Package_Info
  | T_Q_Profile | T_Q_Profile_Entry | T_QoS | T_Queue | T_QoS_COS_Map_Entry | T_QoS_DSCP_Map_Entry
  | T_Fan | T_LED | T_Power_Supply | T_Temp_Sensor

text \<open>
  A column holds nothing (a null pointer, an empty optional), a scalar, a set of rows or of
  integers, a map from integers to rows, or a string map.
\<close>

datatype 'm val =
    VNone | VStr string | VInt int | VBool bool | VRef row
  | VRefs "row list" | VInts "int list" | VIntRefs "(int \<times> row) list" | VSmap 'm

record ('db, 'm) ovs_lib =
  smap_init :: 'm
  smap_add :: "string \<Rightarrow> string \<Rightarrow> 'm \<Rightarrow> 'm"
  smap_add_once :: "string \<Rightarrow> string \<Rightarrow> 'm \<Rightarrow> 'm"
  smap_replace :: "string \<Rightarrow> string \<Rightarrow> 'm \<Rightarrow> 'm"
  smap_get :: "'m \<Rightarrow> string \<Rightarrow> string option"
  smap_keys :: "'m \<Rightarrow> string list"
  idl_insert :: "ovs_table \<Rightarrow> 'db \<Rightarrow> row \<times> 'db"
  idl_set :: "row \<Rightarrow> string \<Rightarrow> 'm val \<Rightarrow> 'db \<Rightarrow> 'db"
  idl_get :: "row \<Rightarrow> string \<Rightarrow> 'db \<Rightarrow> 'm val"
  idl_rows :: "ovs_table \<Rightarrow> 'db \<Rightarrow> row list"

section \<open>Reading columns\<close>

definition get_str :: "('db, 'm) ovs_lib \<Rightarrow> row \<Rightarrow> string \<Rightarrow> 'db \<Rightarrow> string option" where
  "get_str L r c db = (case idl_get L r c db of VStr s \<Rightarrow> Some s | _ \<Rightarrow> None)"

definition get_int :: "('db, 'm) ovs_lib \<Rightarrow> row \<Rightarrow> string \<Rightarrow> 'db \<Rightarrow> int" where
  "get_int L r c db = (case idl_get L r c db of VInt i \<Rightarrow> i | _ \<Rightarrow> 0)"

definition get_bool :: "('db, 'm) ovs_lib \<Rightarrow> row \<Rightarrow> string \<Rightarrow> 'db \<Rightarrow> bool" where
  "get_bool L r c db = (case idl_get L r c db of VBool b \<Rightarrow> b | _ \<Rightarrow> False)"

definition get_refs :: "('db, 'm) ovs_lib \<Rightarrow> row \<Rightarrow> string \<Rightarrow> 'db \<Rightarrow> row list" where
  "get_refs L r c db = (case idl_get L r c db of VRefs rs \<Rightarrow> rs | _ \<Rightarrow> [])"

definition get_ints :: "('db, 'm) ovs_lib \<Rightarrow> row \<Rightarrow> string \<Rightarrow> 'db \<Rightarrow> int list" where
  "get_ints L r c db = (case idl_get L r c db of VInts is \<Rightarrow> is | _ \<Rightarrow> [])"

definition get_int_refs :: "('db, 'm) ovs_lib \<Rightarrow> row \<Rightarrow> string \<Rightarrow> 'db \<Rightarrow> (int \<times> row) list" where
  "get_int_refs L r c db = (case idl_get L r c db of VIntRefs kvs \<Rightarrow> kvs | _ \<Rightarrow> [])"

definition get_smap :: "('db, 'm) ovs_lib \<Rightarrow> row \<Rightarrow> string \<Rightarrow> 'db \<Rightarrow> 'm" where
  "get_smap L r c db = (case idl_get L r c db of VSmap m \<Rightarrow> m | _ \<Rightarrow> smap_init L)"

lemmas get_defs = get_str_def get_int_def get_bool_def get_refs_def get_ints_def
  get_int_refs_def get_smap_def

fun scalar :: "'m val \<Rightarrow> bool" where
  "scalar (VRefs _) = False"
| "scalar (VInts _) = False"
| "scalar (VIntRefs _) = False"
| "scalar (VSmap _) = False"
| "scalar _ = True"

section \<open>String maps\<close>

text \<open>
  \<open>smap_add\<close> does not look for the key, so adding a key twice leaves two pairs and which one
  \<open>smap_get\<close> then finds is not documented; \<open>smap_keys\<close> lists the key of every pair.
\<close>

locale smap_lib =
  fixes L :: "('db, 'm) ovs_lib"
  assumes keys_init: "smap_keys L (smap_init L) = []"
    and get_None_iff: "smap_get L m k = None \<longleftrightarrow> k \<notin> set (smap_keys L m)"
    and keys_add: "mset (smap_keys L (smap_add L k v m)) = add_mset k (mset (smap_keys L m))"
    and get_add_other: "k' \<noteq> k \<Longrightarrow> smap_get L (smap_add L k v m) k' = smap_get L m k'"
    and get_add_new: "k \<notin> set (smap_keys L m) \<Longrightarrow> smap_get L (smap_add L k v m) k = Some v"
    and keys_replace: "distinct (smap_keys L m) \<Longrightarrow>
          mset (smap_keys L (smap_replace L k v m)) =
            (if k \<in> set (smap_keys L m) then mset (smap_keys L m)
             else add_mset k (mset (smap_keys L m)))"
    and get_replace: "smap_get L (smap_replace L k v m) k' =
          (if k' = k then Some v else smap_get L m k')"
    and add_once: "smap_add_once L k v m =
          (if k \<in> set (smap_keys L m) then m else smap_add L k v m)"
begin

lemma get_init [simp]: "smap_get L (smap_init L) k = None"
  by (simp add: get_None_iff keys_init)

lemma set_keys_add [simp]: "set (smap_keys L (smap_add L k v m)) = insert k (set (smap_keys L m))"
  using arg_cong [OF keys_add, of set_mset k v m] by simp

lemma set_keys_replace [simp]:
  "set (smap_keys L (smap_replace L k v m)) = insert k (set (smap_keys L m))"
proof -
  have "k' \<in> set (smap_keys L (smap_replace L k v m)) \<longleftrightarrow> k' = k \<or> k' \<in> set (smap_keys L m)" for k'
    using get_None_iff [of "smap_replace L k v m" k'] get_None_iff [of m k']
    by (auto simp: get_replace split: if_splits)
  then show ?thesis by blast
qed

lemma distinct_keys_add:
  "k \<notin> set (smap_keys L m) \<Longrightarrow> distinct (smap_keys L m) \<Longrightarrow> distinct (smap_keys L (smap_add L k v m))"
  by (metis distinct.simps(2) keys_add mset.simps(2) mset_eq_imp_distinct_iff)

lemma distinct_keys_replace:
  "distinct (smap_keys L m) \<Longrightarrow> distinct (smap_keys L (smap_replace L k v m))"
  using keys_replace [of m k v]
  by (metis distinct.simps(2) mset.simps(2) mset_eq_imp_distinct_iff)

lemma get_add:
  "k \<notin> set (smap_keys L m) \<Longrightarrow>
   smap_get L (smap_add L k v m) k' = (if k' = k then Some v else smap_get L m k')"
  by (simp add: get_add_new get_add_other)

end

section \<open>The database replica\<close>

text \<open>
  Inside a transaction the replica shows its own writes: a row inserted is in the iteration of
  its table and of no other and is a new one, a column written reads back as written (a set or
  a map as the same set or map, in the replica's order), nothing else changes.
\<close>

locale ovs_idl = smap_lib L for L :: "('db, 'm) ovs_lib" +
  assumes get_set_other: "r' \<noteq> r \<or> c' \<noteq> c \<Longrightarrow> idl_get L r' c' (idl_set L r c v db) = idl_get L r' c' db"
    and get_set_scalar: "scalar v \<Longrightarrow> idl_get L r c (idl_set L r c v db) = v"
    and get_set_refs: "\<exists>rs'. idl_get L r c (idl_set L r c (VRefs rs) db) = VRefs rs' \<and>
          set rs' = set rs \<and> distinct rs'"
    and get_set_ints: "\<exists>is'. idl_get L r c (idl_set L r c (VInts is) db) = VInts is' \<and>
          set is' = set is \<and> distinct is'"
    and get_set_int_refs: "distinct (map fst kvs) \<Longrightarrow>
          \<exists>kvs'. idl_get L r c (idl_set L r c (VIntRefs kvs) db) = VIntRefs kvs' \<and>
            set kvs' = set kvs \<and> distinct (map fst kvs')"
    and get_set_smap: "distinct (smap_keys L m) \<Longrightarrow>
          \<exists>m'. idl_get L r c (idl_set L r c (VSmap m) db) = VSmap m' \<and>
            smap_get L m' = smap_get L m \<and> distinct (smap_keys L m')"
    and rows_set: "idl_rows L t (idl_set L r c v db) = idl_rows L t db"
    and insert_fresh: "idl_insert L t db = (r, db') \<Longrightarrow> r \<notin> set (idl_rows L t' db)"
    and insert_rows: "idl_insert L t db = (r, db') \<Longrightarrow>
          set (idl_rows L t' db') = (if t' = t then insert r (set (idl_rows L t' db))
                                     else set (idl_rows L t' db))"
    and insert_get: "idl_insert L t db = (r, db') \<Longrightarrow>
          idl_get L r' c db' = (if r' = r then VNone else idl_get L r' c db)"
begin

lemma get_other [idl_simps]:
  assumes "r' \<noteq> r \<or> c' \<noteq> c"
  shows "get_str L r' c' (idl_set L r c v db) = get_str L r' c' db"
    and "get_int L r' c' (idl_set L r c v db) = get_int L r' c' db"
    and "get_bool L r' c' (idl_set L r c v db) = get_bool L r' c' db"
    and "get_refs L r' c' (idl_set L r c v db) = get_refs L r' c' db"
    and "get_ints L r' c' (idl_set L r c v db) = get_ints L r' c' db"
    and "get_int_refs L r' c' (idl_set L r c v db) = get_int_refs L r' c' db"
    and "get_smap L r' c' (idl_set L r c v db) = get_smap L r' c' db"
  using assms by (simp_all add: get_defs get_set_other)

lemma get_same [idl_simps]:
  "get_str L r c (idl_set L r c (VStr s) db) = Some s"
  "get_int L r c (idl_set L r c (VInt i) db) = i"
  "get_bool L r c (idl_set L r c (VBool b) db) = b"
  by (simp_all add: get_defs get_set_scalar)

lemma idl_get_same [idl_simps]:
  "idl_get L r c (idl_set L r c (VStr s) db) = VStr s"
  "idl_get L r c (idl_set L r c (VInt i) db) = VInt i"
  "idl_get L r c (idl_set L r c (VBool b) db) = VBool b"
  "idl_get L r c (idl_set L r c (VRef x) db) = VRef x"
  by (simp_all add: get_set_scalar)

lemma get_refs_same [idl_simps]:
  "set (get_refs L r c (idl_set L r c (VRefs rs) db)) = set rs"
  "distinct (get_refs L r c (idl_set L r c (VRefs rs) db))"
proof -
  obtain rs' where "idl_get L r c (idl_set L r c (VRefs rs) db) = VRefs rs'" "set rs' = set rs"
    "distinct rs'" using get_set_refs by blast
  then show "set (get_refs L r c (idl_set L r c (VRefs rs) db)) = set rs"
    and "distinct (get_refs L r c (idl_set L r c (VRefs rs) db))" by (simp_all add: get_refs_def)
qed

lemma get_ints_same [idl_simps]:
  "set (get_ints L r c (idl_set L r c (VInts is) db)) = set is"
  "distinct (get_ints L r c (idl_set L r c (VInts is) db))"
proof -
  obtain is' where "idl_get L r c (idl_set L r c (VInts is) db) = VInts is'" "set is' = set is"
    "distinct is'" using get_set_ints by blast
  then show "set (get_ints L r c (idl_set L r c (VInts is) db)) = set is"
    and "distinct (get_ints L r c (idl_set L r c (VInts is) db))" by (simp_all add: get_ints_def)
qed

lemma get_int_refs_same [idl_simps]:
  assumes "distinct (map fst kvs)"
  shows "set (get_int_refs L r c (idl_set L r c (VIntRefs kvs) db)) = set kvs"
    and "distinct (map fst (get_int_refs L r c (idl_set L r c (VIntRefs kvs) db)))"
    and "map_of (get_int_refs L r c (idl_set L r c (VIntRefs kvs) db)) = map_of kvs"
proof -
  obtain kvs' where *: "idl_get L r c (idl_set L r c (VIntRefs kvs) db) = VIntRefs kvs'"
    "set kvs' = set kvs" "distinct (map fst kvs')"
    using get_set_int_refs [OF assms] by blast
  then show "set (get_int_refs L r c (idl_set L r c (VIntRefs kvs) db)) = set kvs"
    and "distinct (map fst (get_int_refs L r c (idl_set L r c (VIntRefs kvs) db)))"
    by (simp_all add: get_int_refs_def)
  from * assms show "map_of (get_int_refs L r c (idl_set L r c (VIntRefs kvs) db)) = map_of kvs"
    by (simp add: get_int_refs_def map_of_inject_set)
qed

lemma get_smap_same [idl_simps]:
  assumes "distinct (smap_keys L m)"
  shows "smap_get L (get_smap L r c (idl_set L r c (VSmap m) db)) = smap_get L m"
    and "distinct (smap_keys L (get_smap L r c (idl_set L r c (VSmap m) db)))"
proof -
  obtain m' where "idl_get L r c (idl_set L r c (VSmap m) db) = VSmap m'"
    "smap_get L m' = smap_get L m" "distinct (smap_keys L m')" using get_set_smap [OF assms] by blast
  then show "smap_get L (get_smap L r c (idl_set L r c (VSmap m) db)) = smap_get L m"
    and "distinct (smap_keys L (get_smap L r c (idl_set L r c (VSmap m) db)))"
    by (simp_all add: get_smap_def)
qed

lemma insert_readers [idl_simps]:
  assumes "idl_insert L t db = (r, db')"
  shows "get_str L r' c db' = (if r' = r then None else get_str L r' c db)"
    and "get_int L r' c db' = (if r' = r then 0 else get_int L r' c db)"
    and "get_bool L r' c db' = (if r' = r then False else get_bool L r' c db)"
    and "get_refs L r' c db' = (if r' = r then [] else get_refs L r' c db)"
    and "get_ints L r' c db' = (if r' = r then [] else get_ints L r' c db)"
    and "get_int_refs L r' c db' = (if r' = r then [] else get_int_refs L r' c db)"
    and "get_smap L r' c db' = (if r' = r then smap_init L else get_smap L r' c db)"
  using assms by (simp_all add: get_defs insert_get)

lemmas idl_rows_simps [idl_simps] = rows_set

end

section \<open>An in-memory replica\<close>

text \<open>
  String maps are association lists with the newest pair first; a table lists its rows newest
  first, a new row is numbered above every row in use, and the cells are a function of row and
  column.
\<close>

type_synonym mem_smap = "(string \<times> string) list"

record mem_db =
  mem_rows :: "ovs_table \<Rightarrow> row list"
  mem_cells :: "row \<Rightarrow> string \<Rightarrow> mem_smap val"

definition mem_init :: mem_db where
  "mem_init = \<lparr>mem_rows = (\<lambda>_. []), mem_cells = (\<lambda>_ _. VNone)\<rparr>"

definition mem_tables :: "ovs_table list" where
  "mem_tables = [T_System, T_Subsystem, T_Interface, T_Bridge, T_Port, T_VRF, T_Daemon,
     T_Package_Info, T_Q_Profile, T_Q_Profile_Entry, T_QoS, T_Queue, T_QoS_COS_Map_Entry,
     T_QoS_DSCP_Map_Entry, T_Fan, T_LED, T_Power_Supply, T_Temp_Sensor]"

definition mem_fresh :: "mem_db \<Rightarrow> row" where
  "mem_fresh db = Suc (fold max (concat (map (mem_rows db) mem_tables)) 0)"

definition mem_insert :: "ovs_table \<Rightarrow> mem_db \<Rightarrow> row \<times> mem_db" where
  "mem_insert t db =
     (let r = mem_fresh db
      in (r, \<lparr>mem_rows = (mem_rows db)(t := r # mem_rows db t),
             mem_cells = (mem_cells db)(r := (\<lambda>_. VNone))\<rparr>))"

definition mem_set :: "row \<Rightarrow> string \<Rightarrow> mem_smap val \<Rightarrow> mem_db \<Rightarrow> mem_db" where
  "mem_set r c v db =
     db\<lparr>mem_cells := (mem_cells db)(r := (mem_cells db r)(c :=
           (case v of VRefs rs \<Rightarrow> VRefs (remdups rs) | VInts is \<Rightarrow> VInts (remdups is) | _ \<Rightarrow> v)))\<rparr>"

definition mem_replace :: "string \<Rightarrow> string \<Rightarrow> mem_smap \<Rightarrow> mem_smap" where
  "mem_replace k v m = (k, v) # filter (\<lambda>p. fst p \<noteq> k) m"

definition mem_lib :: "(mem_db, mem_smap) ovs_lib" where
  "mem_lib = \<lparr>
     smap_init = [],
     smap_add = (\<lambda>k v m. (k, v) # m),
     smap_add_once = (\<lambda>k v m. if k \<in> set (map fst m) then m else (k, v) # m),
     smap_replace = mem_replace,
     smap_get = map_of,
     smap_keys = map fst,
     idl_insert = mem_insert,
     idl_set = mem_set,
     idl_get = (\<lambda>r c db. mem_cells db r c),
     idl_rows = (\<lambda>t db. mem_rows db t)\<rparr>"

lemma mem_lib_simps [simp]:
  "smap_init mem_lib = []" "smap_add mem_lib k v m = (k, v) # m"
  "smap_add_once mem_lib k v m = (if k \<in> set (map fst m) then m else (k, v) # m)"
  "smap_replace mem_lib = mem_replace" "smap_get mem_lib = map_of" "smap_keys mem_lib = map fst"
  "idl_insert mem_lib = mem_insert" "idl_set mem_lib = mem_set"
  "idl_get mem_lib r c db = mem_cells db r c" "idl_rows mem_lib t db = mem_rows db t"
  by (simp_all add: mem_lib_def)

lemma mset_keys_filter:
  "distinct (map fst m) \<Longrightarrow>
   add_mset k (mset (map fst (filter (\<lambda>p. fst p \<noteq> k) m))) =
     (if k \<in> set (map fst m) then mset (map fst m) else add_mset k (mset (map fst m)))"
proof (induction m)
  case (Cons p m)
  have "filter (\<lambda>p. fst p \<noteq> k) m = m" if "k \<notin> fst ` set m"
    using that by (auto simp: filter_id_conv image_iff)
  with Cons show ?case by (auto simp: add_mset_commute)
qed simp

lemma map_of_mem_replace: "map_of (mem_replace k v m) k' = (if k' = k then Some v else map_of m k')"
  by (induction m) (auto simp: mem_replace_def)

interpretation mem: smap_lib mem_lib
proof unfold_locales
  fix m :: mem_smap and k v
  show "distinct (smap_keys mem_lib m) \<Longrightarrow>
      mset (smap_keys mem_lib (smap_replace mem_lib k v m)) =
        (if k \<in> set (smap_keys mem_lib m) then mset (smap_keys mem_lib m)
         else add_mset k (mset (smap_keys mem_lib m)))"
    using mset_keys_filter [of m k] by (simp add: mem_replace_def)
qed (auto simp: map_of_eq_None_iff map_of_mem_replace)

lemma mem_fresh_notin: "mem_fresh db \<notin> set (mem_rows db t)"
proof
  assume "mem_fresh db \<in> set (mem_rows db t)"
  moreover have "t \<in> set mem_tables" by (cases t) (simp_all add: mem_tables_def)
  ultimately have "mem_fresh db \<in> set (concat (map (mem_rows db) mem_tables))" by auto
  then have "mem_fresh db \<le> Max (set (0 # concat (map (mem_rows db) mem_tables)))"
    by (intro Max_ge) auto
  also have "\<dots> = fold max (concat (map (mem_rows db) mem_tables)) 0"
    by (rule Max.set_eq_fold)
  finally show False by (simp add: mem_fresh_def)
qed

interpretation mem_db: ovs_idl mem_lib
  by unfold_locales
     (auto simp: mem_set_def mem_insert_def Let_def mem_fresh_notin elim!: scalar.elims
           split: val.splits)

end
