(* ===== verification/Fru.thy ===== *)
theory Fru
  imports Prelude
begin

text \<open>
  The OCP FRU EEPROM (\<open>src/sysd_fru.c\<close>, \<open>include/sysd_fru.h\<close>): an eleven byte header followed by
  type-length-value records, one of which carries a CRC-32 of everything before it. The model
  reads the image byte by byte, so that a record reaching past the end of the buffer, or past the
  end of the fixed arrays of the result, is a fault. The second half is an encoder for images, with
  which the reader is shown to invert every well-formed image.
\<close>

section \<open>Data\<close>

text \<open>
  \<open>fru_eeprom_t\<close>. A pointer that may be null is an option; the character arrays
  \<open>country_code[3]\<close> and \<open>manufacture_date[20]\<close> are given by the string they hold.
\<close>

record fru_eeprom =
  country_code :: string
  device_version :: u8
  diag_version :: "string option"
  label_revision :: "string option"
  base_mac_address :: "u8 list"
  manufacture_date :: string
  manufacturer :: "string option"
  num_macs :: u16
  onie_version :: "string option"
  part_number :: "string option"
  platform_name :: "string option"
  product_name :: "string option"
  serial_number :: "string option"
  service_tag :: "string option"
  vendor :: "string option"

text \<open>The structure as \<open>calloc\<close> leaves it.\<close>

definition fru_zero :: fru_eeprom where
  "fru_zero = \<lparr>country_code = [], device_version = 0, diag_version = None, label_revision = None,
     base_mac_address = replicate 6 0, manufacture_date = [], manufacturer = None, num_macs = 0,
     onie_version = None, part_number = None, platform_name = None, product_name = None,
     serial_number = None, service_tag = None, vendor = None\<rparr>"

abbreviation FRU_PRODUCT_NAME_TYPE :: u8 where "FRU_PRODUCT_NAME_TYPE \<equiv> 0x21"
abbreviation FRU_PART_NUMBER_TYPE :: u8 where "FRU_PART_NUMBER_TYPE \<equiv> 0x22"
abbreviation FRU_SERIAL_NUMBER_TYPE :: u8 where "FRU_SERIAL_NUMBER_TYPE \<equiv> 0x23"
abbreviation FRU_BASE_MAC_ADDRESS_TYPE :: u8 where "FRU_BASE_MAC_ADDRESS_TYPE \<equiv> 0x24"
abbreviation FRU_MANUFACTURE_DATE_TYPE :: u8 where "FRU_MANUFACTURE_DATE_TYPE \<equiv> 0x25"
abbreviation FRU_DEVICE_VERSION_TYPE :: u8 where "FRU_DEVICE_VERSION_TYPE \<equiv> 0x26"
abbreviation FRU_LABEL_REVISION_TYPE :: u8 where "FRU_LABEL_REVISION_TYPE \<equiv> 0x27"
abbreviation FRU_PLATFORM_NAME_TYPE :: u8 where "FRU_PLATFORM_NAME_TYPE \<equiv> 0x28"
abbreviation FRU_ONIE_VERSION_TYPE :: u8 where "FRU_ONIE_VERSION_TYPE \<equiv> 0x29"
abbreviation FRU_NUM_MAC_TYPE :: u8 where "FRU_NUM_MAC_TYPE \<equiv> 0x2a"
abbreviation FRU_MANUFACTURER_TYPE :: u8 where "FRU_MANUFACTURER_TYPE \<equiv> 0x2b"
abbreviation FRU_COUNTRY_CODE_TYPE :: u8 where "FRU_COUNTRY_CODE_TYPE \<equiv> 0x2c"
abbreviation FRU_VENDOR_TYPE :: u8 where "FRU_VENDOR_TYPE \<equiv> 0x2d"
abbreviation FRU_DIAG_VERSION_TYPE :: u8 where "FRU_DIAG_VERSION_TYPE \<equiv> 0x2e"
abbreviation FRU_SERVICE_TAG_TYPE :: u8 where "FRU_SERVICE_TAG_TYPE \<equiv> 0x2f"
abbreviation FRU_VENDOR_EXTENSION_TYPE :: u8 where "FRU_VENDOR_EXTENSION_TYPE \<equiv> 0xfd"
abbreviation FRU_CRC_TYPE :: u8 where "FRU_CRC_TYPE \<equiv> 0xfe"

abbreviation fru_header_size :: nat where "fru_header_size \<equiv> 11"

section \<open>Reading the image\<close>

definition rd :: "u8 list \<Rightarrow> nat \<Rightarrow> fault + u8" where
  "rd buf p = (case drop p buf of [] \<Rightarrow> Inl Out_Of_Bounds | b # _ \<Rightarrow> Inr b)"

definition bytes_str :: "u8 list \<Rightarrow> string" where
  "bytes_str bs = map (\<lambda>b. char_of (unat b)) (takeWhile (\<lambda>b. b \<noteq> 0) bs)"

text \<open>
  \<open>strncpy\<close> of at most \<open>n\<close> bytes from position \<open>p\<close>: it stops at a NUL, and otherwise reads
  \<open>n\<close> bytes, which must lie in the buffer.
\<close>

definition strncpy_from :: "u8 list \<Rightarrow> nat \<Rightarrow> nat \<Rightarrow> fault + string" where
  "strncpy_from buf p n =
     (let w = take n (drop p buf)
      in if length w = n \<or> 0 \<in> set w then Inr (bytes_str w) else Inl Out_Of_Bounds)"

text \<open>
  The string fields: \<open>SYSD_MALLOC (field, tlv_len + 1)\<close>, \<open>strncpy\<close> of \<open>tlv_len\<close> bytes and a
  terminator. The array fields: \<open>strncpy\<close> of \<open>tlv_len + 1\<close> bytes into an array of fixed size,
  the last of which the terminator overwrites.
\<close>

definition tlv_string :: "u8 list \<Rightarrow> nat \<Rightarrow> nat \<Rightarrow> fault + string" where
  "tlv_string buf p tlv_len = strncpy_from buf p tlv_len"

definition tlv_array :: "nat \<Rightarrow> u8 list \<Rightarrow> nat \<Rightarrow> nat \<Rightarrow> fault + string" where
  "tlv_array sz buf p tlv_len =
     (if sz < tlv_len + 1 then Inl Out_Of_Bounds
      else bindE (strncpy_from buf p (tlv_len + 1)) (\<lambda>s. Inr (take tlv_len s)))"

text \<open>
  \<open>calc_crc\<close> of \<open>sysd_util.c\<close> over zlib's \<open>crc32\<close>, which is an argument; its second argument
  is \<open>None\<close> for the call with \<open>Z_NULL\<close>.
\<close>

definition calc_crc :: "(u32 \<Rightarrow> u8 list option \<Rightarrow> u32) \<Rightarrow> u8 list \<Rightarrow> u32" where
  "calc_crc crc32 buf = crc32 (crc32 0 None) (Some buf)"

definition be32 :: "u8 \<Rightarrow> u8 \<Rightarrow> u8 \<Rightarrow> u8 \<Rightarrow> u32" where
  "be32 b0 b1 b2 b3 =
     or (or (or (push_bit 24 (ucast b0)) (push_bit 16 (ucast b1))) (push_bit 8 (ucast b2))) (ucast b3)"

definition be16 :: "u8 \<Rightarrow> u8 \<Rightarrow> u16" where
  "be16 b0 b1 = or (push_bit 8 (ucast b0)) (ucast b1)"

text \<open>The bytes the checksum covers: the header and the records, less the checksum itself.\<close>

definition crc_input :: "u8 list \<Rightarrow> nat \<Rightarrow> nat \<Rightarrow> fault + u8 list" where
  "crc_input bp len tlv_len =
     (let crc_len = int len + int fru_header_size - int tlv_len
      in if crc_len < 0 \<or> int (length bp) < crc_len then Inl Out_Of_Bounds
         else Inr (take (nat crc_len) bp))"

text \<open>
  One round of the \<open>switch\<close>: \<open>p\<close> is the position of the record's value. The flag is false when
  the function returns false from inside the loop.
\<close>

definition process_tlv ::
  "(u32 \<Rightarrow> u8 list option \<Rightarrow> u32) \<Rightarrow> u8 list \<Rightarrow> nat \<Rightarrow> u8 \<Rightarrow> nat \<Rightarrow> nat \<Rightarrow> fru_eeprom \<Rightarrow>
   fault + (bool \<times> fru_eeprom)" where
  "process_tlv crc32 bp len code p tlv_len fru =
     (if code = FRU_PRODUCT_NAME_TYPE then
        bindE (tlv_string bp p tlv_len) (\<lambda>s. Inr (True, fru\<lparr>product_name := Some s\<rparr>))
      else if code = FRU_PART_NUMBER_TYPE then
        bindE (tlv_string bp p tlv_len) (\<lambda>s. Inr (True, fru\<lparr>part_number := Some s\<rparr>))
      else if code = FRU_SERIAL_NUMBER_TYPE then
        bindE (tlv_string bp p tlv_len) (\<lambda>s. Inr (True, fru\<lparr>serial_number := Some s\<rparr>))
      else if code = FRU_NUM_MAC_TYPE then
        bindE (rd bp p) (\<lambda>b0. bindE (rd bp (p + 1)) (\<lambda>b1. Inr (True, fru\<lparr>num_macs := be16 b0 b1\<rparr>)))
      else if code = FRU_BASE_MAC_ADDRESS_TYPE then
        (if length bp < p + 6 then Inl Out_Of_Bounds
         else Inr (True, fru\<lparr>base_mac_address := take 6 (drop p bp)\<rparr>))
      else if code = FRU_MANUFACTURE_DATE_TYPE then
        bindE (tlv_array 20 bp p tlv_len) (\<lambda>s. Inr (True, fru\<lparr>manufacture_date := s\<rparr>))
      else if code = FRU_DEVICE_VERSION_TYPE then
        bindE (rd bp p) (\<lambda>b. Inr (True, fru\<lparr>device_version := b\<rparr>))
      else if code = FRU_LABEL_REVISION_TYPE then
        bindE (tlv_string bp p tlv_len) (\<lambda>s. Inr (True, fru\<lparr>label_revision := Some s\<rparr>))
      else if code = FRU_PLATFORM_NAME_TYPE then
        bindE (tlv_string bp p tlv_len) (\<lambda>s. Inr (True, fru\<lparr>platform_name := Some s\<rparr>))
      else if code = FRU_ONIE_VERSION_TYPE then
        bindE (tlv_string bp p tlv_len) (\<lambda>s. Inr (True, fru\<lparr>onie_version := Some s\<rparr>))
      else if code = FRU_MANUFACTURER_TYPE then
        bindE (tlv_string bp p tlv_len) (\<lambda>s. Inr (True, fru\<lparr>manufacturer := Some s\<rparr>))
      else if code = FRU_COUNTRY_CODE_TYPE then
        bindE (tlv_array 3 bp p tlv_len) (\<lambda>s. Inr (True, fru\<lparr>country_code := s\<rparr>))
      else if code = FRU_VENDOR_TYPE then
        bindE (tlv_string bp p tlv_len) (\<lambda>s. Inr (True, fru\<lparr>vendor := Some s\<rparr>))
      else if code = FRU_DIAG_VERSION_TYPE then
        bindE (tlv_string bp p tlv_len) (\<lambda>s. Inr (True, fru\<lparr>diag_version := Some s\<rparr>))
      else if code = FRU_SERVICE_TAG_TYPE then
        bindE (tlv_string bp p tlv_len) (\<lambda>s. Inr (True, fru\<lparr>service_tag := Some s\<rparr>))
      else if code = FRU_VENDOR_EXTENSION_TYPE then Inr (True, fru)
      else if code = FRU_CRC_TYPE then
        bindE (crc_input bp len tlv_len) (\<lambda>covered.
        bindE (rd bp p) (\<lambda>b0. bindE (rd bp (p + 1)) (\<lambda>b1.
        bindE (rd bp (p + 2)) (\<lambda>b2. bindE (rd bp (p + 3)) (\<lambda>b3.
          if calc_crc crc32 covered \<noteq> be32 b0 b1 b2 b3 then Inr (False, fru)
          else Inr (True, fru))))))
      else Inr (False, fru))"

text \<open>
  The loop of \<open>sysd_process_eeprom\<close>. \<open>idx\<close> counts from the end of the header; every round
  advances by at least the two bytes of code and length.
\<close>

function fru_loop ::
  "(u32 \<Rightarrow> u8 list option \<Rightarrow> u32) \<Rightarrow> u8 list \<Rightarrow> nat \<Rightarrow> nat \<Rightarrow> fru_eeprom \<Rightarrow>
   fault + (bool \<times> fru_eeprom)" where
  "fru_loop crc32 bp len idx fru =
     (if idx < len then
        bindE (rd bp (fru_header_size + idx)) (\<lambda>code.
        bindE (rd bp (fru_header_size + idx + 1)) (\<lambda>l.
        bindE (process_tlv crc32 bp len code (fru_header_size + idx + 2) (unat l) fru) (\<lambda>(ok, fru').
          if ok then fru_loop crc32 bp len (idx + unat l + 2) fru' else Inr (False, fru'))))
      else Inr (True, fru))"
  by pat_completeness auto
termination
  by (relation "measure (\<lambda>(crc32, bp, len, idx, fru). len - idx)") auto

declare fru_loop.simps [simp del]

definition sysd_process_eeprom ::
  "(u32 \<Rightarrow> u8 list option \<Rightarrow> u32) \<Rightarrow> u8 list \<Rightarrow> fru_eeprom \<Rightarrow> nat \<Rightarrow> fault + (bool \<times> fru_eeprom)"
  where
  "sysd_process_eeprom crc32 buf fru len = fru_loop crc32 buf len 0 fru"

section \<open>Reading at a known suffix\<close>

text \<open>
  The reader is followed along the suffix of the image at its position.
\<close>

lemma rd_at: "drop p buf = b # rest \<Longrightarrow> rd buf p = Inr b"
  by (simp add: rd_def)

lemma drop_step: "drop p buf = b # rest \<Longrightarrow> drop (Suc p) buf = rest"
  by (metis drop_Suc list.sel(3) tl_drop)

lemma drop_steps: "drop p buf = xs @ rest \<Longrightarrow> drop (p + length xs) buf = rest"
  by (metis append_eq_conv_conj drop_drop add.commute)

lemma rd_eq_Inr: "rd buf p = Inr b \<longleftrightarrow> p < length buf \<and> b = buf ! p"
proof (cases "p < length buf")
  case True
  then show ?thesis using Cons_nth_drop_Suc [OF True] by (auto simp: rd_def split: list.splits)
qed (simp add: rd_def)

lemma rd_in_bounds: "p < length buf \<Longrightarrow> rd buf p = Inr (buf ! p)"
  by (simp add: rd_eq_Inr)

lemma strncpy_from_at: "drop p buf = v @ rest \<Longrightarrow> strncpy_from buf p (length v) = Inr (bytes_str v)"
  by (simp add: strncpy_from_def)

lemma length_bytes_str: "length (bytes_str bs) \<le> length bs"
  by (simp add: bytes_str_def length_takeWhile_le)

lemma take_bytes_str: "take n (bytes_str (take (Suc n) bs)) = bytes_str (take n bs)"
proof -
  have "take n (takeWhile P (take (Suc n) bs)) = takeWhile P (take n bs)" for P :: "u8 \<Rightarrow> bool"
    by (induction n arbitrary: bs) (auto simp: take_Suc split: list.splits, case_tac bs, auto)
  then show ?thesis by (simp add: bytes_str_def take_map)
qed

lemma tlv_array_at:
  assumes "drop p buf = v @ b # rest" and "length v < sz"
  shows "tlv_array sz buf p (length v) = Inr (bytes_str v)"
proof -
  have "strncpy_from buf p (length v + 1) = Inr (bytes_str (v @ [b]))"
    using strncpy_from_at [of p buf "v @ [b]" rest] assms(1) by simp
  moreover have "take (length v) (bytes_str (v @ [b])) = bytes_str v"
    using take_bytes_str [of "length v" "v @ [b]"] by simp
  ultimately show ?thesis using assms(2) by (simp add: tlv_array_def)
qed

section \<open>Images\<close>

datatype tlv = Tlv u8 "u8 list"

fun enc_tlv :: "tlv \<Rightarrow> u8 list" where
  "enc_tlv (Tlv c v) = c # of_nat (length v) # v"

definition enc_tlvs :: "tlv list \<Rightarrow> u8 list" where
  "enc_tlvs ts = concat (map enc_tlv ts)"

definition string_codes :: "u8 list" where
  "string_codes = [0x21, 0x22, 0x23, 0x27, 0x28, 0x29, 0x2b, 0x2d, 0x2e, 0x2f]"

text \<open>What each kind of record requires of its value.\<close>

fun wf_tlv :: "tlv \<Rightarrow> bool" where
  "wf_tlv (Tlv c v) \<longleftrightarrow> length v \<le> 255 \<and>
     (c \<in> set string_codes \<or> c = FRU_VENDOR_EXTENSION_TYPE \<or>
      c = FRU_NUM_MAC_TYPE \<and> 2 \<le> length v \<or> c = FRU_BASE_MAC_ADDRESS_TYPE \<and> 6 \<le> length v \<or>
      c = FRU_DEVICE_VERSION_TYPE \<and> 1 \<le> length v \<or> c = FRU_MANUFACTURE_DATE_TYPE \<and> length v \<le> 19 \<or>
      c = FRU_COUNTRY_CODE_TYPE \<and> length v \<le> 2)"

text \<open>What each kind of record contributes to the structure.\<close>

fun apply_tlv :: "tlv \<Rightarrow> fru_eeprom \<Rightarrow> fru_eeprom" where
  "apply_tlv (Tlv c v) fru =
     (if c = 0x21 then fru\<lparr>product_name := Some (bytes_str v)\<rparr>
      else if c = 0x22 then fru\<lparr>part_number := Some (bytes_str v)\<rparr>
      else if c = 0x23 then fru\<lparr>serial_number := Some (bytes_str v)\<rparr>
      else if c = 0x24 then fru\<lparr>base_mac_address := take 6 v\<rparr>
      else if c = 0x25 then fru\<lparr>manufacture_date := bytes_str v\<rparr>
      else if c = 0x26 then fru\<lparr>device_version := hd v\<rparr>
      else if c = 0x27 then fru\<lparr>label_revision := Some (bytes_str v)\<rparr>
      else if c = 0x28 then fru\<lparr>platform_name := Some (bytes_str v)\<rparr>
      else if c = 0x29 then fru\<lparr>onie_version := Some (bytes_str v)\<rparr>
      else if c = 0x2a then fru\<lparr>num_macs := be16 (v ! 0) (v ! 1)\<rparr>
      else if c = 0x2b then fru\<lparr>manufacturer := Some (bytes_str v)\<rparr>
      else if c = 0x2c then fru\<lparr>country_code := bytes_str v\<rparr>
      else if c = 0x2d then fru\<lparr>vendor := Some (bytes_str v)\<rparr>
      else if c = 0x2e then fru\<lparr>diag_version := Some (bytes_str v)\<rparr>
      else if c = 0x2f then fru\<lparr>service_tag := Some (bytes_str v)\<rparr>
      else fru)"

definition crc_bytes :: "u32 \<Rightarrow> u8 list" where
  "crc_bytes x = [ucast (drop_bit 24 x), ucast (drop_bit 16 x), ucast (drop_bit 8 x), ucast x]"

definition enc_crc :: "u32 \<Rightarrow> u8 list" where
  "enc_crc x = FRU_CRC_TYPE # 4 # crc_bytes x"

lemma length_enc_crc [simp]: "length (enc_crc x) = 6"
  by (simp add: enc_crc_def crc_bytes_def)

lemma length_crc_bytes [simp]: "length (crc_bytes x) = 4"
  by (simp add: crc_bytes_def)

lemma be32_crc_bytes:
  "be32 (ucast (drop_bit 24 x)) (ucast (drop_bit 16 x)) (ucast (drop_bit 8 x)) (ucast x) = x"
proof (rule bit_word_eqI)
  fix n assume "n < LENGTH(32)"
  then consider "n < 8" | "8 \<le> n" "n < 16" | "16 \<le> n" "n < 24" | "24 \<le> n" "n < 32" by fastforce
  then show "bit (be32 (ucast (drop_bit 24 x)) (ucast (drop_bit 16 x)) (ucast (drop_bit 8 x)) (ucast x)) n
      = bit x n"
    by cases (auto simp: be32_def bit_simps)
qed

lemma unat_length_byte: "length v \<le> 255 \<Longrightarrow> unat (of_nat (length v) :: u8) = length v"
  by (simp add: unat_of_nat)

lemma process_wf_tlv:
  assumes wf: "wf_tlv (Tlv c v)" and at: "drop p bp = v @ b # rest"
  shows "process_tlv crc32 bp len c p (length v) fru = Inr (True, apply_tlv (Tlv c v) fru)"
proof -
  have str: "tlv_string bp p (length v) = Inr (bytes_str v)"
    using strncpy_from_at [OF at] by (simp add: tlv_string_def)
  have arr: "length v < sz \<Longrightarrow> tlv_array sz bp p (length v) = Inr (bytes_str v)" for sz
    by (rule tlv_array_at [OF at])
  have len: "length bp = p + length v + 1 + length rest"
    using arg_cong [OF at, of length] by simp
  have byte: "i < length v \<Longrightarrow> rd bp (p + i) = Inr (v ! i)" for i
    using at len by (subst rd_in_bounds) (auto simp: nth_append simp flip: nth_drop)
  have mac: "6 \<le> length v \<Longrightarrow> take 6 (drop p bp) = take 6 v"
    by (simp add: at)
  have hd: "v \<noteq> [] \<Longrightarrow> hd v = v ! 0" by (cases v) auto
  consider "c \<in> set string_codes" | "c = FRU_VENDOR_EXTENSION_TYPE"
    | "c = FRU_NUM_MAC_TYPE" "2 \<le> length v" | "c = FRU_BASE_MAC_ADDRESS_TYPE" "6 \<le> length v"
    | "c = FRU_DEVICE_VERSION_TYPE" "1 \<le> length v" | "c = FRU_MANUFACTURE_DATE_TYPE" "length v \<le> 19"
    | "c = FRU_COUNTRY_CODE_TYPE" "length v \<le> 2"
    using wf by auto
  then show ?thesis
  proof cases
    case 1
    then have "c = 0x21 \<or> c = 0x22 \<or> c = 0x23 \<or> c = 0x27 \<or> c = 0x28 \<or> c = 0x29 \<or> c = 0x2b \<or>
        c = 0x2d \<or> c = 0x2e \<or> c = 0x2f" by (simp add: string_codes_def)
    then show ?thesis by (elim disjE) (simp_all add: process_tlv_def str)
  next
    case 2
    then show ?thesis by (simp add: process_tlv_def)
  next
    case 3
    then have "0 < length v" "1 < length v" by auto
    then have "rd bp p = Inr (v ! 0)" "rd bp (p + 1) = Inr (v ! 1)"
      using byte [of 0] byte [of 1] by auto
    with 3 show ?thesis by (simp add: process_tlv_def)
  next
    case 4
    then show ?thesis using mac len by (simp add: process_tlv_def)
  next
    case 5
    then have "rd bp p = Inr (hd v)" using byte [of 0] hd by (cases v) auto
    with 5 show ?thesis by (simp add: process_tlv_def)
  next
    case 6
    then show ?thesis using arr [of 20] by (simp add: process_tlv_def)
  next
    case 7
    then show ?thesis using arr [of 3] by (simp add: process_tlv_def)
  qed
qed

text \<open>One record of a well-formed image is one round of the loop.\<close>

lemma fru_loop_record:
  assumes at: "drop (fru_header_size + idx) bp = c # of_nat (length v) # v @ rest"
    and idx: "idx < len" and l: "length v \<le> 255"
    and step: "process_tlv crc32 bp len c (fru_header_size + idx + 2) (length v) fru = Inr (ok, fru')"
  shows "fru_loop crc32 bp len idx fru =
           (if ok then fru_loop crc32 bp len (idx + length v + 2) fru' else Inr (False, fru'))"
proof -
  have "rd bp (fru_header_size + idx) = Inr c" using at by (rule rd_at)
  moreover have "rd bp (fru_header_size + idx + 1) = Inr (of_nat (length v))"
    using drop_step [OF at] by (simp add: rd_at)
  ultimately show ?thesis
    using idx step unat_length_byte [OF l] by (subst fru_loop.simps) simp
qed

lemma fru_loop_wf_tlvs:
  "list_all wf_tlv ts \<Longrightarrow> drop (fru_header_size + idx) bp = enc_tlvs ts @ b # rest \<Longrightarrow>
   idx + length (enc_tlvs ts) \<le> len \<Longrightarrow>
   fru_loop crc32 bp len idx fru =
     fru_loop crc32 bp len (idx + length (enc_tlvs ts)) (fold apply_tlv ts fru)"
proof (induction ts arbitrary: idx fru)
  case Nil
  then show ?case by (simp add: enc_tlvs_def)
next
  case (Cons t ts)
  obtain c v where t: "t = Tlv c v" by (cases t)
  define rest' where "rest' = enc_tlvs ts @ b # rest"
  have at: "drop (fru_header_size + idx) bp = c # of_nat (length v) # v @ rest'"
    using Cons.prems(2) by (simp add: t enc_tlvs_def rest'_def)
  have at2: "drop (fru_header_size + idx + 2) bp = v @ rest'"
    using drop_steps [of "fru_header_size + idx" bp "[c, of_nat (length v)]"] at by simp
  obtain b' rest'' where rest': "rest' = b' # rest''"
    by (cases rest') (auto simp: rest'_def)
  have wf: "wf_tlv (Tlv c v)" using Cons.prems(1) t by simp
  have idx: "idx < len" using Cons.prems(3) by (simp add: t enc_tlvs_def)
  have "fru_loop crc32 bp len idx fru =
      fru_loop crc32 bp len (idx + length v + 2) (apply_tlv t fru)"
    using fru_loop_record [OF at idx _ process_wf_tlv [OF wf at2 [unfolded rest']]] wf
    by (simp add: t)
  also have "\<dots> = fru_loop crc32 bp len (idx + length v + 2 + length (enc_tlvs ts))
      (fold apply_tlv ts (apply_tlv t fru))"
  proof (rule Cons.IH)
    show "list_all wf_tlv ts" using Cons.prems(1) by simp
    show "drop (fru_header_size + (idx + length v + 2)) bp = enc_tlvs ts @ b # rest"
      using drop_steps [OF at2] by (simp add: rest'_def ac_simps)
    show "idx + length v + 2 + length (enc_tlvs ts) \<le> len"
      using Cons.prems(3) by (simp add: t enc_tlvs_def)
  qed
  finally show ?case by (simp add: t enc_tlvs_def ac_simps)
qed

section \<open>The checksum record\<close>

lemma process_crc:
  assumes at: "drop p bp = crc_bytes x @ rest" and cov: "crc_input bp len 4 = Inr covered"
  shows "process_tlv crc32 bp len FRU_CRC_TYPE p 4 fru = Inr (x = calc_crc crc32 covered, fru)"
proof -
  note d0 = at [unfolded crc_bytes_def append.simps]
  note d1 = drop_step [OF d0]
  note d2 = drop_step [OF d1]
  note d3 = drop_step [OF d2]
  have r0: "rd bp p = Inr (ucast (drop_bit 24 x))" by (rule rd_at [OF d0])
  have r1: "rd bp (Suc p) = Inr (ucast (drop_bit 16 x))" by (rule rd_at [OF d1])
  have r2: "rd bp (Suc (Suc p)) = Inr (ucast (drop_bit 8 x))" by (rule rd_at [OF d2])
  have r3: "rd bp (p + 3) = Inr (ucast x)" using rd_at [OF d3] by (simp add: numeral_3_eq_3)
  show ?thesis
    by (auto simp: process_tlv_def cov r0 r1 r2 r3 be32_crc_bytes)
qed

lemma fru_loop_end: "len \<le> idx \<Longrightarrow> fru_loop crc32 bp len idx fru = Inr (True, fru)"
  by (simp add: fru_loop.simps)

lemma process_image:
  assumes hdr: "length hdr = fru_header_size" and wf: "list_all wf_tlv ts"
  shows "sysd_process_eeprom crc32 (hdr @ enc_tlvs ts @ enc_crc c @ tail) fru (length (enc_tlvs ts) + 6) =
           Inr (c = calc_crc crc32 (hdr @ enc_tlvs ts @ [FRU_CRC_TYPE, 4]), fold apply_tlv ts fru)"
proof -
  let ?bp = "hdr @ enc_tlvs ts @ enc_crc c @ tail" and ?n = "length (enc_tlvs ts)"
  let ?fru = "fold apply_tlv ts fru"
  have at: "drop (fru_header_size + ?n) ?bp = enc_crc c @ tail"
    using hdr by simp
  then have at4: "drop (fru_header_size + ?n + 2) ?bp = crc_bytes c @ tail"
    using drop_steps [of "fru_header_size + ?n" ?bp "[FRU_CRC_TYPE, 4]"] by (simp add: enc_crc_def)
  have cov: "crc_input ?bp (?n + 6) 4 = Inr (hdr @ enc_tlvs ts @ [FRU_CRC_TYPE, 4])"
    using hdr by (simp add: crc_input_def enc_crc_def crc_bytes_def nat_add_distrib)
  have "sysd_process_eeprom crc32 ?bp fru (?n + 6) = fru_loop crc32 ?bp (?n + 6) ?n ?fru"
    using fru_loop_wf_tlvs [OF wf, of 0 ?bp FRU_CRC_TYPE "4 # crc_bytes c @ tail" "?n + 6"] hdr
    by (simp add: sysd_process_eeprom_def enc_crc_def)
  also have "\<dots> = Inr (c = calc_crc crc32 (hdr @ enc_tlvs ts @ [FRU_CRC_TYPE, 4]), ?fru)"
  proof -
    have "drop (fru_header_size + ?n) ?bp = FRU_CRC_TYPE # of_nat (length (crc_bytes c)) # crc_bytes c @ tail"
      using at by (simp add: enc_crc_def)
    from fru_loop_record [OF this, of "?n + 6"] process_crc [OF at4 cov] show ?thesis
      by (simp add: fru_loop_end)
  qed
  finally show ?thesis .
qed

section \<open>What acceptance means for an arbitrary image\<close>

text \<open>The records the loop meets: code, position and length of each value.\<close>

function tlv_chain :: "u8 list \<Rightarrow> nat \<Rightarrow> nat \<Rightarrow> (u8 \<times> nat \<times> nat) list" where
  "tlv_chain bp len idx =
     (if idx < len \<and> fru_header_size + idx + 1 < length bp then
        (bp ! (fru_header_size + idx), fru_header_size + idx + 2, unat (bp ! (fru_header_size + idx + 1)))
        # tlv_chain bp len (idx + unat (bp ! (fru_header_size + idx + 1)) + 2)
      else [])"
  by pat_completeness auto
termination
  by (relation "measure (\<lambda>(bp, len, idx). len - idx)") auto

declare tlv_chain.simps [simp del]

definition legal_codes :: "u8 list" where
  "legal_codes = string_codes @ [0x24, 0x25, 0x26, 0x2a, 0x2c, FRU_VENDOR_EXTENSION_TYPE, FRU_CRC_TYPE]"

fun crc_verified :: "(u32 \<Rightarrow> u8 list option \<Rightarrow> u32) \<Rightarrow> u8 list \<Rightarrow> nat \<Rightarrow> u8 \<times> nat \<times> nat \<Rightarrow> bool" where
  "crc_verified crc32 bp len (code, p, l) \<longleftrightarrow>
     calc_crc crc32 (take (len + fru_header_size - l) bp) =
       be32 (bp ! p) (bp ! (p + 1)) (bp ! (p + 2)) (bp ! (p + 3))"

lemma process_tlv_accepts:
  assumes "process_tlv crc32 bp len code p l fru = Inr (True, fru')"
  shows "code \<in> set legal_codes \<and>
    (code = FRU_CRC_TYPE \<longrightarrow> l \<le> len + fru_header_size \<and> p + 3 < length bp \<and>
       crc_verified crc32 bp len (code, p, l))"
proof (cases "code = FRU_CRC_TYPE")
  case True
  with assms show ?thesis
    by (auto simp: process_tlv_def bindE_eq_Inr crc_input_def Let_def rd_eq_Inr legal_codes_def
          nat_add_distrib nat_diff_distrib' split: if_splits)
next
  case False
  have "code \<in> set legal_codes"
    using assms unfolding legal_codes_def string_codes_def process_tlv_def
    by (simp split: if_splits)
  with False show ?thesis by simp
qed

lemma fru_loop_accepts:
  "fru_loop crc32 bp len idx fru = Inr (True, fru') \<Longrightarrow> (code, p, l) \<in> set (tlv_chain bp len idx) \<Longrightarrow>
   code \<in> set legal_codes \<and> (code = FRU_CRC_TYPE \<longrightarrow> l \<le> len + fru_header_size \<and> p + 3 < length bp \<and>
       crc_verified crc32 bp len (code, p, l))"
proof (induction crc32 bp len idx fru rule: fru_loop.induct)
  case (1 crc32 bp len idx fru)
  show ?case
  proof (cases "idx < len \<and> fru_header_size + idx + 1 < length bp")
    case True
    let ?c = "bp ! (fru_header_size + idx)" and ?l = "unat (bp ! (fru_header_size + idx + 1))"
    from "1.prems"(1) True obtain fru1 where
      step: "process_tlv crc32 bp len ?c (fru_header_size + idx + 2) ?l fru = Inr (True, fru1)"
      and rest: "fru_loop crc32 bp len (idx + ?l + 2) fru1 = Inr (True, fru')"
      by (subst (asm) fru_loop.simps)
         (auto simp: bindE_eq_Inr rd_in_bounds split: if_splits)
    from "1.prems"(2) True
    consider "(code, p, l) = (?c, fru_header_size + idx + 2, ?l)"
      | "(code, p, l) \<in> set (tlv_chain bp len (idx + ?l + 2))"
      by (subst (asm) tlv_chain.simps) auto
    then show ?thesis
    proof cases
      case 1
      then show ?thesis using process_tlv_accepts [OF step] by simp
    next
      case 2
      have r: "rd bp (fru_header_size + idx) = Inr ?c" "rd bp (fru_header_size + idx + 1) = Inr (bp ! (fru_header_size + idx + 1))"
        using True by (simp_all add: rd_in_bounds)
      show ?thesis
        using "1.IH" [OF _ r step] True rest 2 by simp
    qed
  next
    case False
    with "1.prems"(2) show ?thesis by (subst (asm) tlv_chain.simps) simp
  qed
qed

section \<open>When the image is read within its bounds\<close>

text \<open>The bytes of the value a record reads.\<close>

definition tlv_need :: "u8 \<Rightarrow> nat \<Rightarrow> nat" where
  "tlv_need code l =
     (if code = FRU_NUM_MAC_TYPE then 2 else if code = FRU_BASE_MAC_ADDRESS_TYPE then 6
      else if code = FRU_DEVICE_VERSION_TYPE then 1 else if code = FRU_CRC_TYPE then 4
      else if code = FRU_MANUFACTURE_DATE_TYPE \<or> code = FRU_COUNTRY_CODE_TYPE then l + 1
      else if code \<in> set string_codes then l else 0)"

fun tlv_fits :: "u8 list \<Rightarrow> nat \<Rightarrow> u8 \<times> nat \<times> nat \<Rightarrow> bool" where
  "tlv_fits bp len (code, p, l) \<longleftrightarrow> p + tlv_need code l \<le> length bp \<and>
     (code = FRU_MANUFACTURE_DATE_TYPE \<longrightarrow> l \<le> 19) \<and> (code = FRU_COUNTRY_CODE_TYPE \<longrightarrow> l \<le> 2) \<and>
     (code = FRU_CRC_TYPE \<longrightarrow> l \<le> len + fru_header_size)"

lemma strncpy_from_fits: "p + n \<le> length bp \<Longrightarrow> strncpy_from bp p n = Inr (bytes_str (take n (drop p bp)))"
  by (simp add: strncpy_from_def)

lemma process_tlv_fits:
  assumes "tlv_fits bp len (code, p, l)" and "len + fru_header_size \<le> length bp"
  shows "\<not> isl (process_tlv crc32 bp len code p l fru)"
proof -
  have arr: "tlv_array sz bp p l = Inr (take l (bytes_str (take (l + 1) (drop p bp))))"
    if "p + (l + 1) \<le> length bp" "l < sz" for sz
    using strncpy_from_fits [OF that(1)] that(2) by (simp add: tlv_array_def)
  have str: "tlv_string bp p l = Inr (bytes_str (take l (drop p bp)))" if "p + l \<le> length bp"
    using strncpy_from_fits [OF that] by (simp add: tlv_string_def)
  consider "code \<in> set string_codes" | "code = FRU_NUM_MAC_TYPE" | "code = FRU_BASE_MAC_ADDRESS_TYPE"
    | "code = FRU_DEVICE_VERSION_TYPE" | "code = FRU_MANUFACTURE_DATE_TYPE"
    | "code = FRU_COUNTRY_CODE_TYPE" | "code = FRU_CRC_TYPE"
    | "code \<notin> set string_codes" "code \<noteq> FRU_NUM_MAC_TYPE" "code \<noteq> FRU_BASE_MAC_ADDRESS_TYPE"
      "code \<noteq> FRU_DEVICE_VERSION_TYPE" "code \<noteq> FRU_MANUFACTURE_DATE_TYPE"
      "code \<noteq> FRU_COUNTRY_CODE_TYPE" "code \<noteq> FRU_CRC_TYPE" by blast
  then show ?thesis
  proof cases
    case 1
    then have codes: "code = 0x21 \<or> code = 0x22 \<or> code = 0x23 \<or> code = 0x27 \<or> code = 0x28 \<or>
        code = 0x29 \<or> code = 0x2b \<or> code = 0x2d \<or> code = 0x2e \<or> code = 0x2f"
      by (simp add: string_codes_def)
    then have "tlv_need code l = l"
      by (elim disjE) (simp_all add: tlv_need_def string_codes_def)
    with assms have "p + l \<le> length bp" by simp
    with codes show ?thesis by (elim disjE) (simp_all add: process_tlv_def str)
  next
    case 8
    then show ?thesis by (simp add: process_tlv_def string_codes_def)
  qed (use assms in \<open>auto simp: process_tlv_def tlv_need_def rd_in_bounds arr crc_input_def\<close>)
qed

lemma fru_loop_fits:
  "length bp = len + fru_header_size + 1 \<Longrightarrow> list_all (tlv_fits bp len) (tlv_chain bp len idx) \<Longrightarrow>
   \<not> isl (fru_loop crc32 bp len idx fru)"
proof (induction crc32 bp len idx fru rule: fru_loop.induct)
  case (1 crc32' bp len idx fru)
  show ?case
  proof (cases "idx < len")
    case True
    let ?c = "bp ! (fru_header_size + idx)" and ?l = "unat (bp ! (fru_header_size + idx + 1))"
    have r: "rd bp (fru_header_size + idx) = Inr ?c" "rd bp (fru_header_size + idx + 1) = Inr (bp ! (fru_header_size + idx + 1))"
      using True "1.prems"(1) by (simp_all add: rd_in_bounds)
    have fits: "tlv_fits bp len (?c, fru_header_size + idx + 2, ?l)"
      and rest: "list_all (tlv_fits bp len) (tlv_chain bp len (idx + ?l + 2))"
      using True "1.prems" tlv_chain.simps [of bp len idx] by simp_all
    obtain ok fru1 where
      step: "process_tlv crc32' bp len ?c (fru_header_size + idx + 2) ?l fru = Inr (ok, fru1)"
      using process_tlv_fits [OF fits, of crc32' fru] "1.prems"(1)
      by (cases "process_tlv crc32' bp len ?c (fru_header_size + idx + 2) ?l fru") auto
    have "fru_loop crc32' bp len idx fru =
        (if ok then fru_loop crc32' bp len (idx + ?l + 2) fru1 else Inr (False, fru1))"
      using True r step by (subst fru_loop.simps) simp
    moreover have "ok \<Longrightarrow> \<not> isl (fru_loop crc32' bp len (idx + ?l + 2) fru1)"
      using "1.IH" [OF True r step refl] "1.prems"(1) rest by simp
    ultimately show ?thesis by (cases ok) simp_all
  next
    case False
    then show ?thesis by (simp add: fru_loop_end)
  qed
qed

section \<open>Properties\<close>

text \<open>
  Concrete data for the witnesses: an additive checksum in the place of zlib's, a header and three
  records.
\<close>

definition sum_crc :: "u32 \<Rightarrow> u8 list option \<Rightarrow> u32" where
  "sum_crc c b = (case b of None \<Rightarrow> 0 | Some bs \<Rightarrow> foldl (\<lambda>a x. a + ucast x) c bs)"

definition ex_header :: "u8 list" where
  "ex_header = [84, 108, 118, 73, 110, 102, 111, 0, 1, 0, 27]"

definition ex_tlvs :: "tlv list" where
  "ex_tlvs = [Tlv 0x21 [79, 80, 83], Tlv 0x2a [0, 74], Tlv 0x2c [85, 83], Tlv 0x24 [112, 114, 207, 0, 0, 1]]"

definition ex_crc :: u32 where
  "ex_crc = calc_crc sum_crc (ex_header @ enc_tlvs ex_tlvs @ [FRU_CRC_TYPE, 4])"

definition ex_image :: "u8 list" where
  "ex_image = ex_header @ enc_tlvs ex_tlvs @ enc_crc ex_crc @ [0]"

text \<open>
  Claim C7. Reading inverts encoding: for every sequence of well-formed records (each value within
  the 255 bytes a length can say, the country code and the date within their arrays, MAC address,
  MAC count and device version long enough) between an eleven byte header and a checksum record,
  the reader consumes exactly the records, stores each value in the field its code names, and
  returns true exactly when the checksum stored big-endian is the one computed over everything
  before it. A wrong checksum is refused.
\<close>

theorem eeprom_image_roundtrip:
  assumes "length hdr = 11" and "list_all wf_tlv ts"
  shows "sysd_process_eeprom crc32 (hdr @ enc_tlvs ts @ enc_crc c @ tail) fru (length (enc_tlvs ts) + 6) =
           Inr (c = calc_crc crc32 (hdr @ enc_tlvs ts @ [FRU_CRC_TYPE, 4]), fold apply_tlv ts fru)"
  using assms by (rule process_image)

theorem eeprom_image_roundtrip_witness:
  "length ex_header = 11 \<and> list_all wf_tlv ex_tlvs \<and>
   sysd_process_eeprom sum_crc (ex_header @ enc_tlvs ex_tlvs @ enc_crc 5 @ [0]) fru_zero 27 =
     Inr (False, fru_zero\<lparr>product_name := Some ''OPS'', num_macs := 74, country_code := ''US'',
                     base_mac_address := [112, 114, 207, 0, 0, 1]\<rparr>) \<and>
   sysd_process_eeprom sum_crc ex_image fru_zero 27 =
     Inr (True, fru_zero\<lparr>product_name := Some ''OPS'', num_macs := 74, country_code := ''US'',
                    base_mac_address := [112, 114, 207, 0, 0, 1]\<rparr>)"
proof -
  have h: "length ex_header = 11" "list_all wf_tlv ex_tlvs" by code_simp+
  have n: "length (enc_tlvs ex_tlvs) + 6 = 27" by code_simp
  have f: "fold apply_tlv ex_tlvs fru_zero =
      fru_zero\<lparr>product_name := Some ''OPS'', num_macs := 74, country_code := ''US'',
               base_mac_address := [112, 114, 207, 0, 0, 1]\<rparr>" by code_simp
  have c: "5 \<noteq> calc_crc sum_crc (ex_header @ enc_tlvs ex_tlvs @ [FRU_CRC_TYPE, 4])" by code_simp
  show ?thesis
    using eeprom_image_roundtrip [OF h, of sum_crc 5 "[0]" fru_zero]
      eeprom_image_roundtrip [OF h, of sum_crc ex_crc "[0]" fru_zero] c
    unfolding n f by (simp add: h ex_image_def ex_crc_def)
qed

text \<open>
  Claim C24. What acceptance means for an arbitrary image: if the reader returns true, then every
  record it met has a known code, and every checksum record it met lies within the image and equals
  the checksum of the bytes before it.
\<close>

theorem eeprom_accepts_only_verified:
  assumes "sysd_process_eeprom crc32 buf fru len = Inr (True, fru')"
  shows "list_all (\<lambda>(code, p, l). code \<in> set legal_codes \<and>
           (code = FRU_CRC_TYPE \<longrightarrow> p + 3 < length buf \<and> crc_verified crc32 buf len (code, p, l)))
         (tlv_chain buf len 0)"
  using fru_loop_accepts [OF assms [unfolded sysd_process_eeprom_def]] by (fastforce simp: list_all_iff)

theorem eeprom_accepts_only_verified_witness:
  "sysd_process_eeprom sum_crc ex_image fru_zero 27 = Inr (True, fold apply_tlv ex_tlvs fru_zero) \<and>
   tlv_chain ex_image 27 0 =
     [(0x21, 13, 3), (0x2a, 18, 2), (0x2c, 22, 2), (0x24, 26, 6), (0xfe, 34, 4)] \<and>
   crc_verified sum_crc ex_image 27 (FRU_CRC_TYPE, 34, 4)"
proof -
  have a: "sysd_process_eeprom sum_crc ex_image fru_zero 27 = Inr (True, fold apply_tlv ex_tlvs fru_zero)"
    by code_simp
  have ch: "tlv_chain ex_image 27 0 =
     [(0x21, 13, 3), (0x2a, 18, 2), (0x2c, 22, 2), (0x24, 26, 6), (0xfe, 34, 4)]" by code_simp
  show ?thesis using a ch eeprom_accepts_only_verified [OF a] by (simp add: ch)
qed

text \<open>
  Claim C25. The reader stays inside its buffer and inside the arrays of the result whenever the
  buffer is the one the caller allocates (header, announced length and one spare byte) and every
  record it meets fits: its value lies in the buffer, a country code has at most 2 and a date at
  most 19 characters, and a checksum record is no longer than the image.
\<close>

theorem eeprom_in_bounds:
  assumes "length buf = len + 12" and "list_all (tlv_fits buf len) (tlv_chain buf len 0)"
  shows "\<exists>ok fru'. sysd_process_eeprom crc32 buf fru len = Inr (ok, fru')"
  using fru_loop_fits [of buf len 0 crc32 fru] assms
  by (cases "fru_loop crc32 buf len 0 fru") (auto simp: sysd_process_eeprom_def)

theorem eeprom_in_bounds_witness:
  "length ex_image = 27 + 12 \<and> list_all (tlv_fits ex_image 27) (tlv_chain ex_image 27 0) \<and>
   (\<exists>ok fru'. sysd_process_eeprom sum_crc ex_image fru_zero 27 = Inr (ok, fru'))"
proof -
  have l: "length ex_image = 27 + 12" by code_simp
  have f: "list_all (tlv_fits ex_image 27) (tlv_chain ex_image 27 0)" by code_simp
  show ?thesis using eeprom_in_bounds [OF l f] l f by blast
qed

text \<open>
  A length byte is trusted where the destination is a fixed array: after any well-formed
  records, a country code record longer than 2 bytes or a date record longer than 19 bytes makes the
  reader write past \<open>country_code[3]\<close> or \<open>manufacture_date[20]\<close>, whatever follows and
  before any checksum is looked at.
\<close>

lemma eeprom_array_overflow:
  assumes "length hdr = 11" and "list_all wf_tlv ts" and "length v \<le> 255"
    and "length (enc_tlvs ts) < len"
    and "code = FRU_COUNTRY_CODE_TYPE \<and> 2 < length v \<or> code = FRU_MANUFACTURE_DATE_TYPE \<and> 19 < length v"
  shows "sysd_process_eeprom crc32 (hdr @ enc_tlvs ts @ enc_tlv (Tlv code v) @ tail) fru len = Inl Out_Of_Bounds"
proof -
  let ?bp = "hdr @ enc_tlvs ts @ enc_tlv (Tlv code v) @ tail" and ?n = "length (enc_tlvs ts)"
  have at: "drop (fru_header_size + ?n) ?bp = code # of_nat (length v) # v @ tail"
    using assms(1) by simp
  have r: "rd ?bp (fru_header_size + ?n) = Inr code" "rd ?bp (fru_header_size + ?n + 1) = Inr (of_nat (length v))"
    using rd_at [OF at] rd_at [OF drop_step [OF at]] by simp_all
  have "sysd_process_eeprom crc32 ?bp fru len = fru_loop crc32 ?bp len ?n (fold apply_tlv ts fru)"
    using fru_loop_wf_tlvs [OF assms(2), of 0 ?bp code "of_nat (length v) # v @ tail" len] assms(1,4)
    by (simp add: sysd_process_eeprom_def)
  also have "\<dots> = Inl Out_Of_Bounds"
    using r assms(3,4,5) unat_length_byte [OF assms(3)]
    by (subst fru_loop.simps) (auto simp: process_tlv_def tlv_array_def)
  finally show ?thesis .
qed

end
