(* ===== verification/Cfg_Yaml.thy ===== *)
theory Cfg_Yaml
  imports Fru
begin

text \<open>
  The access layer to the hardware description (\<open>src/sysd_cfg_yaml.c\<close>) over the config-yaml
  library, which is not in the repository: its answers for the base subsystem are the fields of a
  record \<open>Y\<close>. Modelled are the start-up sequence of parsers with its error paths, the copy of
  \<open>fru.yaml\<close> into the FRU structure, byte by byte where the code writes integers over an array of
  bytes, the EEPROM access and the status LED.
\<close>

section \<open>What the library delivers\<close>

text \<open>The members the daemon reads of \<open>YamlPort\<close> and \<open>YamlPortInfo\<close>; arrays that end in a null pointer are lists.\<close>

record yaml_port =
  yp_name :: string
  yp_pluggable :: bool
  yp_connector :: string
  yp_max_speed :: int
  yp_speeds :: "int list"
  yp_device :: int
  yp_device_port :: int
  yp_capabilities :: "string list"
  yp_subports :: "string list"
  yp_parent_port :: "string option"

record yaml_port_info =
  number_ports :: int
  max_port_speed :: int
  max_transmission_unit :: int
  max_lag_count :: int
  max_lag_member_count :: int
  l3_port_requires_internal_vlan :: int

record yaml_fru_info =
  yf_country_code :: "string option"
  yf_diag_version :: "string option"
  yf_label_revision :: "string option"
  yf_base_mac_address :: "string option"
  yf_manufacture_date :: "string option"
  yf_manufacturer :: "string option"
  yf_num_macs :: int
  yf_onie_version :: "string option"
  yf_part_number :: "string option"
  yf_platform_name :: "string option"
  yf_product_name :: "string option"
  yf_serial_number :: "string option"
  yf_service_tag :: "string option"
  yf_vendor :: "string option"

record yaml_qos_info =
  yq_trust :: "string option"
  yq_default_name :: string
  yq_factory_default_name :: string

record yaml_map_entry =
  ym_code_point :: int
  ym_local_priority :: int
  ym_color :: string
  ym_description :: string

record yaml_queue_entry =
  yq_queue :: int
  yq_local_priority :: int
  yq_description :: "string option"

record yaml_sched_entry =
  ys_queue :: int
  ys_algorithm :: string
  ys_weight :: int

record yaml_acl_info =
  ya_max_acls :: int
  ya_max_aces :: int
  ya_max_aces_per_acl :: int

record yaml_led =
  led_reg :: "nat option"
  led_on :: int
  led_flashing :: int

record yaml_lib =
  y_add_subsystem :: "string \<Rightarrow> int"
  y_parse_devices :: int
  y_parse_ports :: int
  y_parse_fru :: int
  y_parse_qos :: int
  y_parse_acl :: int
  y_init_devices :: int
  y_find_device :: "string \<Rightarrow> bool"
  y_port_count :: int
  y_port :: "nat \<Rightarrow> yaml_port option"
  y_port_info :: "yaml_port_info option"
  y_fru_info :: "yaml_fru_info option"
  y_qos_info :: "yaml_qos_info option"
  y_cos_count :: int
  y_cos_entry :: "nat \<Rightarrow> yaml_map_entry option"
  y_dscp_count :: int
  y_dscp_entry :: "nat \<Rightarrow> yaml_map_entry option"
  y_sched_count :: int
  y_sched_entry :: "nat \<Rightarrow> yaml_sched_entry option"
  y_queue_count :: int
  y_queue_entry :: "nat \<Rightarrow> yaml_queue_entry option"
  y_acl_info :: "yaml_acl_info option"
  y_led :: "yaml_led option"
  y_i2c_data :: "nat \<Rightarrow> nat \<Rightarrow> u8 list option"

section \<open>Start-up\<close>

text \<open>
  \<open>sysd_cfg_yaml_open\<close> and \<open>sysd_cfg_yaml_init\<close>: the flag \<open>fru_yaml\<close> and the device handle are the
  file's statics. \<open>not_found\<close> is the library's \<open>FRU_YAML_NOT_FOUND\<close>.
\<close>

record cfg_state =
  fru_yaml :: bool
  fru_dev :: bool

definition cfg_init :: cfg_state where
  "cfg_init = \<lparr>fru_yaml = True, fru_dev = False\<rparr>"

definition sysd_cfg_yaml_open :: "yaml_lib \<Rightarrow> string \<Rightarrow> bool" where
  "sysd_cfg_yaml_open Y hw_desc_dir \<longleftrightarrow> y_add_subsystem Y hw_desc_dir = 0"

definition sysd_cfg_yaml_init :: "yaml_lib \<Rightarrow> int \<Rightarrow> string \<Rightarrow> cfg_state \<Rightarrow> bool \<times> cfg_state" where
  "sysd_cfg_yaml_init Y not_found hw_desc_dir st =
     (if \<not> sysd_cfg_yaml_open Y hw_desc_dir then (False, st)
      else if y_parse_devices Y < 0 then (False, st)
      else if y_parse_ports Y < 0 then (False, st)
      else if y_parse_fru Y \<noteq> not_found \<and> y_parse_fru Y < 0 then (False, st)
      else let st1 = (if y_parse_fru Y = not_found then st\<lparr>fru_yaml := False\<rparr> else st)
           in if y_init_devices Y < 0 then (False, st1)
              else if \<not> y_find_device Y ''fru_eeprom'' then (False, st1\<lparr>fru_dev := False\<rparr>)
              else (True, st1\<lparr>fru_dev := True\<rparr>))"

text \<open>\<open>sysd_cfg_yaml_fru_read\<close>: \<open>len\<close> bytes from offset 0 of the EEPROM.\<close>

definition sysd_cfg_yaml_fru_read :: "yaml_lib \<Rightarrow> nat \<Rightarrow> u8 list option" where
  "sysd_cfg_yaml_fru_read Y len = y_i2c_data Y 0 len"

text \<open>\<open>sysd_cfg_yaml_set_system_status_led\<close>: the register and the value written, if any.\<close>

definition sysd_cfg_yaml_set_system_status_led :: "yaml_lib \<Rightarrow> bool \<Rightarrow> (nat \<times> int) option" where
  "sysd_cfg_yaml_set_system_status_led Y good =
     (case y_led Y of
        None \<Rightarrow> None
      | Some led \<Rightarrow>
          (case led_reg led of None \<Rightarrow> None
           | Some r \<Rightarrow> Some (r, if good then led_on led else led_flashing led)))"

section \<open>The accessors\<close>

text \<open>
  Each accessor asks the library for the base subsystem and passes the answer on; the index is the
  loop counter of the callers.
\<close>

abbreviation sysd_cfg_yaml_get_port_count :: "yaml_lib \<Rightarrow> int" where
  "sysd_cfg_yaml_get_port_count Y \<equiv> y_port_count Y"

abbreviation sysd_cfg_yaml_get_port_info :: "yaml_lib \<Rightarrow> nat \<Rightarrow> yaml_port option" where
  "sysd_cfg_yaml_get_port_info Y \<equiv> y_port Y"

abbreviation sysd_cfg_yaml_get_port_subsys_info :: "yaml_lib \<Rightarrow> yaml_port_info option" where
  "sysd_cfg_yaml_get_port_subsys_info Y \<equiv> y_port_info Y"

abbreviation sysd_cfg_yaml_get_qos_info :: "yaml_lib \<Rightarrow> yaml_qos_info option" where
  "sysd_cfg_yaml_get_qos_info Y \<equiv> y_qos_info Y"

abbreviation sysd_cfg_yaml_get_cos_map_entry_count :: "yaml_lib \<Rightarrow> int" where
  "sysd_cfg_yaml_get_cos_map_entry_count Y \<equiv> y_cos_count Y"

abbreviation sysd_cfg_yaml_get_cos_map_entry :: "yaml_lib \<Rightarrow> nat \<Rightarrow> yaml_map_entry option" where
  "sysd_cfg_yaml_get_cos_map_entry Y \<equiv> y_cos_entry Y"

abbreviation sysd_cfg_yaml_get_dscp_map_entry_count :: "yaml_lib \<Rightarrow> int" where
  "sysd_cfg_yaml_get_dscp_map_entry_count Y \<equiv> y_dscp_count Y"

abbreviation sysd_cfg_yaml_get_dscp_map_entry :: "yaml_lib \<Rightarrow> nat \<Rightarrow> yaml_map_entry option" where
  "sysd_cfg_yaml_get_dscp_map_entry Y \<equiv> y_dscp_entry Y"

abbreviation sysd_cfg_yaml_get_schedule_profile_entry_count :: "yaml_lib \<Rightarrow> int" where
  "sysd_cfg_yaml_get_schedule_profile_entry_count Y \<equiv> y_sched_count Y"

abbreviation sysd_cfg_yaml_get_schedule_profile_entry :: "yaml_lib \<Rightarrow> nat \<Rightarrow> yaml_sched_entry option" where
  "sysd_cfg_yaml_get_schedule_profile_entry Y \<equiv> y_sched_entry Y"

abbreviation sysd_cfg_yaml_get_queue_profile_entry_count :: "yaml_lib \<Rightarrow> int" where
  "sysd_cfg_yaml_get_queue_profile_entry_count Y \<equiv> y_queue_count Y"

abbreviation sysd_cfg_yaml_get_queue_profile_entry :: "yaml_lib \<Rightarrow> nat \<Rightarrow> yaml_queue_entry option" where
  "sysd_cfg_yaml_get_queue_profile_entry Y \<equiv> y_queue_entry Y"

abbreviation sysd_cfg_yaml_get_acl_info :: "yaml_lib \<Rightarrow> yaml_acl_info option" where
  "sysd_cfg_yaml_get_acl_info Y \<equiv> y_acl_info Y"

section \<open>Scanning a MAC address\<close>

text \<open>
  \<open>sscanf ("%x:%x:%x:%x:%x:%x")\<close>. One \<open>%x\<close> skips white space, takes a sign, an optional \<open>0x\<close> and the
  digits that follow; the value saturates at 64 bits and is cut to an \<open>unsigned int\<close>.
\<close>

definition hex_digit :: "char \<Rightarrow> nat option" where
  "hex_digit c =
     (let k = (of_char c :: nat)
      in if 48 \<le> k \<and> k \<le> 57 then Some (k - 48)
         else if 97 \<le> k \<and> k \<le> 102 then Some (k - 87)
         else if 65 \<le> k \<and> k \<le> 70 then Some (k - 55) else None)"

fun hex_run :: "string \<Rightarrow> nat \<Rightarrow> nat \<times> string" where
  "hex_run [] v = (v, [])"
| "hex_run (c # cs) v = (case hex_digit c of None \<Rightarrow> (v, c # cs) | Some d \<Rightarrow> hex_run cs (16 * v + d))"

definition scan_x :: "string \<Rightarrow> (u32 \<times> string) option" where
  "scan_x s =
     (let s1 = dropWhile isspace s;
          neg = (s1 \<noteq> [] \<and> hd s1 = CHR ''-'');
          s2 = (if s1 \<noteq> [] \<and> hd s1 \<in> {CHR ''-'', CHR ''+''} then tl s1 else s1);
          s3 = (if prefix ''0x'' s2 \<or> prefix ''0X'' s2 then drop 2 s2 else s2)
      in if s3 = [] \<or> hex_digit (hd s3) = None then None
         else let (v, rest) = hex_run s3 0;
                  w = (of_nat (min v (2 ^ 64 - 1)) :: u64)
              in Some (ucast (if neg then - w else w), rest))"

fun scan_fields :: "nat \<Rightarrow> string \<Rightarrow> u32 list" where
  "scan_fields 0 s = []"
| "scan_fields (Suc n) s =
     (case scan_x s of
        None \<Rightarrow> []
      | Some (v, rest) \<Rightarrow>
          v # (case rest of [] \<Rightarrow> [] | c # cs \<Rightarrow> if c = CHR '':'' then scan_fields n cs else []))"

text \<open>
  Each value is stored as a little-endian 32-bit integer at its byte of \<open>base_mac_address\<close>, so the
  stores overlap, and the last three bytes of the sixth land in the following member,
  \<open>manufacture_date\<close>; the memory is those nine bytes.
\<close>

definition store32 :: "u8 list \<Rightarrow> nat \<Rightarrow> u32 \<Rightarrow> u8 list" where
  "store32 mem i v =
     mem[i := ucast v, i + 1 := ucast (drop_bit 8 v), i + 2 := ucast (drop_bit 16 v),
         i + 3 := ucast (drop_bit 24 v)]"

fun store_fields :: "nat \<Rightarrow> u32 list \<Rightarrow> u8 list \<Rightarrow> u8 list" where
  "store_fields i [] mem = mem"
| "store_fields i (v # vs) mem = store_fields (i + 1) vs (store32 mem i v)"

section \<open>The FRU from its YAML file\<close>

definition the_str :: "string option \<Rightarrow> fault + string" where
  "the_str p = (case p of None \<Rightarrow> Inl Null_Deref | Some s \<Rightarrow> Inr s)"

text \<open>
  \<open>sysd_cfg_yaml_get_fru_info\<close>: \<open>rnd\<close> are the three values of \<open>rand ()\<close>. The value is the return
  code. The three bytes after the address are read from and written to the date, which the code
  then overwrites.
\<close>

definition sysd_cfg_yaml_get_fru_info ::
  "yaml_lib \<Rightarrow> u32 \<times> u32 \<times> u32 \<Rightarrow> fru_eeprom \<Rightarrow> fault + (int \<times> fru_eeprom)" where
  "sysd_cfg_yaml_get_fru_info Y rnd fru =
     (case y_fru_info Y of
        None \<Rightarrow> Inr (-1, fru)
      | Some info \<Rightarrow>
          bindE (the_str (yf_country_code info)) (\<lambda>cc.
          bindE (the_str (yf_base_mac_address info)) (\<lambda>mac.
          bindE (the_str (yf_manufacture_date info)) (\<lambda>date.
            let mem = store_fields 0 (scan_fields 6 mac) (base_mac_address fru @ [0, 0, 0]);
                mem' = (case rnd of (r3, r4, r5) \<Rightarrow> (take 6 mem)[3 := ucast r3, 4 := ucast r4, 5 := ucast r5])
            in Inr (0, fru\<lparr>country_code := take 2 cc,
                 diag_version := yf_diag_version info,
                 label_revision := yf_label_revision info,
                 base_mac_address := mem',
                 manufacture_date := take 19 date,
                 manufacturer := yf_manufacturer info,
                 num_macs := word_of_int (yf_num_macs info),
                 onie_version := yf_onie_version info,
                 part_number := yf_part_number info,
                 platform_name := yf_platform_name info,
                 product_name := yf_product_name info,
                 serial_number := yf_serial_number info,
                 service_tag := yf_service_tag info,
                 vendor := yf_vendor info\<rparr>)))))"

text \<open>
  \<open>sysd_read_fru_eeprom\<close> of \<open>src/sysd_fru.c\<close>. The result of \<open>sysd_cfg_yaml_get_fru_info\<close> is kept in a
  \<open>bool\<close>, which is never below zero. From the EEPROM the code reads the header, then the whole image
  into a zeroed buffer of the length the header gives plus twelve.
\<close>

definition sysd_read_fru_eeprom ::
  "yaml_lib \<Rightarrow> (u32 \<Rightarrow> u8 list option \<Rightarrow> u32) \<Rightarrow> u32 \<times> u32 \<times> u32 \<Rightarrow> bool \<Rightarrow> cfg_state \<Rightarrow> fru_eeprom \<Rightarrow>
   fault + (int \<times> fru_eeprom)" where
  "sysd_read_fru_eeprom Y crc32 rnd alloc_ok st fru =
     (if fru_yaml st
      then bindE (sysd_cfg_yaml_get_fru_info Y rnd fru)
             (\<lambda>(r, fru'). let rc = (if r \<noteq> 0 then 1 else 0 :: int)
                          in Inr (if rc < 0 then -1 else 0, fru'))
      else case sysd_cfg_yaml_fru_read Y fru_header_size of
        None \<Rightarrow> Inr (-1, fru)
      | Some hdr \<Rightarrow>
          bindE (rd hdr 8) (\<lambda>version. bindE (rd hdr 9) (\<lambda>l0. bindE (rd hdr 10) (\<lambda>l1.
            if version > 1 then Inr (-1, fru)
            else let total_len = unat (be16 l0 l1); len = total_len + fru_header_size + 1
                 in if \<not> alloc_ok then Inr (-1, fru)
                    else case sysd_cfg_yaml_fru_read Y len of
                      None \<Rightarrow> Inr (-1, fru)
                    | Some bytes \<Rightarrow>
                        bindE (sysd_process_eeprom crc32 (take len (bytes @ replicate len 0)) fru total_len)
                          (\<lambda>(ok, fru'). Inr (if ok then 0 else -1, fru'))))))"

section \<open>The MAC address survives the overlapping stores\<close>

lemma of_char_hex: "d < 16 \<Longrightarrow> (of_char (hex_char d) :: nat) = (if d < 10 then 48 + d else 87 + d)"
  by (simp add: hex_char_def)

lemma hex_digit_hex_char: "d < 16 \<Longrightarrow> hex_digit (hex_char d) = Some d"
  by (simp add: hex_digit_def of_char_hex Let_def)

lemma hex_char_neq:
  assumes "d < 16" "(of_char c :: nat) < 48 \<or> 57 < (of_char c :: nat) \<and> (of_char c :: nat) < 97 \<or> 102 < (of_char c :: nat)"
  shows "hex_char d \<noteq> c"
  using assms of_char_hex [OF assms(1)] by (auto split: if_splits)

lemma hex_char_plain:
  assumes "d < 16"
  shows "\<not> isspace (hex_char d)" "hex_char d \<noteq> CHR ''-''" "hex_char d \<noteq> CHR ''+''"
    "hex_char d \<noteq> CHR ''x''" "hex_char d \<noteq> CHR ''X''" "hex_char d \<noteq> CHR '':''"
  using hex_char_neq [OF assms] by (simp_all add: isspace_def)

lemma scan_x_byte:
  assumes "rest = [] \<or> hd rest = CHR '':''"
  shows "scan_x (fmt_02x b @ rest) = Some (ucast b, rest)"
proof -
  let ?h = "unat b div 16" and ?l = "unat b mod 16"
  have "unat b < 256" using unsigned_less [of b, where ?'a = nat] by simp
  then have lt: "?h < 16" "?l < 16" by (simp_all add: less_mult_imp_div_less)
  have val: "16 * ?h + ?l = unat b" by simp
  have "hex_run rest v = (v, rest)" for v
    using assms by (cases rest) (auto simp: hex_digit_def)
  then have run: "hex_run (hex_char ?h # hex_char ?l # rest) 0 = (unat b, rest)"
    using lt val by (simp add: hex_digit_hex_char)
  have "min (unat b) (2 ^ 64 - 1) = unat b" using \<open>unat b < 256\<close> by simp
  moreover have "ucast (of_nat (unat b) :: u64) = (ucast b :: u32)"
    by (rule bit_word_eqI) (auto simp: bit_simps)
  ultimately show ?thesis
    using lt run hex_char_plain [OF lt(1)] hex_char_plain [OF lt(2)]
    by (simp add: scan_x_def fmt_02x_def Let_def hex_digit_hex_char)
qed

definition mac_text :: "u8 list \<Rightarrow> string" where
  "mac_text bs = (case bs of [] \<Rightarrow> [] | b # bs' \<Rightarrow> fmt_02x b @ concat (map (\<lambda>c. CHR '':'' # fmt_02x c) bs'))"

lemma scan_fields_mac: "scan_fields (length bs) (mac_text bs) = map ucast bs"
proof (induction bs)
  case (Cons b bs)
  show ?case
  proof (cases bs)
    case Nil
    then show ?thesis using scan_x_byte [of "[]" b] by (simp add: mac_text_def)
  next
    case (Cons c cs)
    then have t: "mac_text (b # bs) = fmt_02x b @ CHR '':'' # mac_text bs" by (simp add: mac_text_def)
    show ?thesis unfolding t using scan_x_byte [of "CHR '':'' # mac_text bs" b] Cons.IH by simp
  qed
qed (simp add: mac_text_def)

lemma store_six:
  assumes "length mac = 6"
  shows "take 6 (store_fields 0 (map ucast [b0, b1, b2, b3, b4, b5]) (mac @ [0, 0, 0])) = [b0, b1, b2, b3, b4, b5]"
proof -
  obtain m0 m1 m2 m3 m4 m5 where "mac = [m0, m1, m2, m3, m4, m5]"
    using assms by (auto simp: numeral_eq_Suc length_Suc_conv)
  moreover have "ucast (ucast b :: u32) = (b :: u8)" for b
    by (rule bit_word_eqI) (auto simp: bit_simps)
  ultimately show ?thesis by (simp add: store32_def numeral_eq_Suc)
qed

text \<open>The FRU structure \<open>fru.yaml\<close> describes, with the last three bytes of the address given.\<close>

definition yaml_fru :: "yaml_fru_info \<Rightarrow> string \<Rightarrow> string \<Rightarrow> u8 list \<Rightarrow> u8 \<Rightarrow> fru_eeprom" where
  "yaml_fru info cc date mac dv =
     \<lparr>country_code = take 2 cc, device_version = dv, diag_version = yf_diag_version info,
      label_revision = yf_label_revision info, base_mac_address = mac,
      manufacture_date = take 19 date, manufacturer = yf_manufacturer info,
      num_macs = word_of_int (yf_num_macs info), onie_version = yf_onie_version info,
      part_number = yf_part_number info, platform_name = yf_platform_name info,
      product_name = yf_product_name info, serial_number = yf_serial_number info,
      service_tag = yf_service_tag info, vendor = yf_vendor info\<rparr>"

text \<open>
  Claim C37. With \<open>fru.yaml\<close> in use and an address of six colon-separated bytes, the FRU gets the
  first three bytes of that address, in spite of the overlapping four-byte stores, then three
  random ones, the country code and date cut to their arrays and every other member as given; only
  the device version keeps its old value. The result is 0.
\<close>

theorem fru_yaml_read:
  assumes "fru_yaml st" "y_fru_info Y = Some info"
    and "yf_country_code info = Some cc" "yf_manufacture_date info = Some date"
    and "yf_base_mac_address info = Some (mac_text [b0, b1, b2, b3, b4, b5])"
    and "length (base_mac_address fru) = 6"
  shows "sysd_read_fru_eeprom Y crc32 (r3, r4, r5) alloc_ok st fru =
           Inr (0, yaml_fru info cc date [b0, b1, b2, ucast r3, ucast r4, ucast r5] (device_version fru))"
proof -
  have "scan_fields 6 (mac_text [b0, b1, b2, b3, b4, b5]) = map ucast [b0, b1, b2, b3, b4, b5]"
    using scan_fields_mac [of "[b0, b1, b2, b3, b4, b5]"] by (simp add: numeral_eq_Suc)
  then show ?thesis
    using assms store_six [OF assms(6), of b0 b1 b2 b3 b4 b5]
    by (simp add: sysd_read_fru_eeprom_def sysd_cfg_yaml_get_fru_info_def the_str_def yaml_fru_def
          Let_def)
qed

text \<open>A library instance for the witnesses: one port, a FRU file, an EEPROM.\<close>

definition ex_fru_info :: yaml_fru_info where
  "ex_fru_info = \<lparr>yf_country_code = Some ''USA'', yf_diag_version = Some ''1.0'', yf_label_revision = None,
     yf_base_mac_address = Some ''70:72:cf:0a:0b:0c'', yf_manufacture_date = Some ''06/05/2015 08:00:00'',
     yf_manufacturer = Some ''OpenSwitch'', yf_num_macs = 74, yf_onie_version = None,
     yf_part_number = None, yf_platform_name = None, yf_product_name = Some ''OPS'',
     yf_serial_number = Some ''SN1'', yf_service_tag = None, yf_vendor = None\<rparr>"

definition ex_yaml :: yaml_lib where
  "ex_yaml = \<lparr>y_add_subsystem = (\<lambda>_. 0), y_parse_devices = 0, y_parse_ports = 0, y_parse_fru = 0,
     y_parse_qos = 0, y_parse_acl = 0, y_init_devices = 0, y_find_device = (\<lambda>_. True),
     y_port_count = 1,
     y_port = (\<lambda>i. if i = 0 then Some \<lparr>yp_name = ''1'', yp_pluggable = True, yp_connector = ''SFP_PLUS'',
        yp_max_speed = 10000, yp_speeds = [1000, 10000], yp_device = 0, yp_device_port = 1,
        yp_capabilities = [''enet_10G''], yp_subports = [], yp_parent_port = None\<rparr> else None),
     y_port_info = Some \<lparr>number_ports = 1, max_port_speed = 10000, max_transmission_unit = 9192,
        max_lag_count = 8, max_lag_member_count = 8, l3_port_requires_internal_vlan = 1\<rparr>,
     y_fru_info = Some ex_fru_info,
     y_qos_info = Some \<lparr>yq_trust = Some ''none'', yq_default_name = ''default'',
        yq_factory_default_name = ''factory-default''\<rparr>,
     y_cos_count = 2,
     y_cos_entry = (\<lambda>i. if i < 2 then Some \<lparr>ym_code_point = int i, ym_local_priority = 1 - int i,
        ym_color = ''green'', ym_description = ''Best_Effort''\<rparr> else None),
     y_dscp_count = 1,
     y_dscp_entry = (\<lambda>i. if i < 1 then Some \<lparr>ym_code_point = int i, ym_local_priority = 0,
        ym_color = ''green'', ym_description = ''CS0''\<rparr> else None),
     y_sched_count = 2,
     y_sched_entry = (\<lambda>i. if i < 2 then Some \<lparr>ys_queue = int i,
        ys_algorithm = (if i = 0 then ''strict'' else ''dwrr''), ys_weight = 5\<rparr> else None),
     y_queue_count = 3,
     y_queue_entry = (\<lambda>i. if i < 3 then Some \<lparr>yq_queue = int i div 2, yq_local_priority = int i,
        yq_description = (if i = 0 then Some ''Scavenger'' else None)\<rparr> else None),
     y_acl_info = Some \<lparr>ya_max_acls = 512, ya_max_aces = 4096, ya_max_aces_per_acl = 1024\<rparr>,
     y_led = Some \<lparr>led_reg = Some 3, led_on = 1, led_flashing = 2\<rparr>,
     y_i2c_data = (\<lambda>off n. Some (take n (drop off ex_image)))\<rparr>"

theorem fru_yaml_read_witness:
  "sysd_read_fru_eeprom ex_yaml sum_crc (7, 8, 9) True cfg_init fru_zero =
     Inr (0, yaml_fru ex_fru_info ''USA'' ''06/05/2015 08:00:00'' [0x70, 0x72, 0xcf, 7, 8, 9] 0)"
proof -
  have m: "mac_text [0x70, 0x72, 0xcf, 0x0a, 0x0b, 0x0c] = ''70:72:cf:0a:0b:0c''" by code_simp
  show ?thesis
    using fru_yaml_read [of cfg_init ex_yaml ex_fru_info "''USA''" "''06/05/2015 08:00:00''"
      "0x70" "0x72" "0xcf" "0x0a" "0x0b" "0x0c" fru_zero sum_crc 7 8 9 True]
    unfolding m by (simp add: cfg_init_def ex_yaml_def ex_fru_info_def fru_zero_def)
qed

text \<open>
  With \<open>fru.yaml\<close> in use but no FRU information from the library, the copy returns -1 and
  the caller still returns 0 with the structure unchanged: the error is lost in the \<open>bool\<close> that
  holds it.
\<close>

lemma fru_yaml_error_lost:
  assumes "fru_yaml st" "y_fru_info Y = None"
  shows "sysd_cfg_yaml_get_fru_info Y rnd fru = Inr (-1, fru) \<and>
         sysd_read_fru_eeprom Y crc32 rnd alloc_ok st fru = Inr (0, fru)"
  using assms by (simp add: sysd_read_fru_eeprom_def sysd_cfg_yaml_get_fru_info_def)

text \<open>
  Claim C36. Without \<open>fru.yaml\<close>, reading a device that holds a well-formed image of a supported
  version whose header states its length gives the fields of the image and 0, or -1 when the
  checksum is wrong; the structure holds the image's values in both cases.
\<close>

theorem fru_device_read:
  assumes "\<not> fru_yaml st" "length hdr = 11" "list_all wf_tlv ts"
    and "hdr ! 8 \<le> 1" "unat (be16 (hdr ! 9) (hdr ! 10)) = length (enc_tlvs ts) + 6"
    and "\<And>n. y_i2c_data Y 0 n = Some (take n (hdr @ enc_tlvs ts @ enc_crc c @ rest))"
  shows "sysd_read_fru_eeprom Y crc32 rnd True st fru =
    Inr (if c = calc_crc crc32 (hdr @ enc_tlvs ts @ [FRU_CRC_TYPE, 4]) then 0 else -1, fold apply_tlv ts fru)"
proof -
  let ?img = "hdr @ enc_tlvs ts @ enc_crc c @ rest"
  let ?n = "length (enc_tlvs ts) + 6 + fru_header_size + 1"
  have "take fru_header_size ?img = hdr" using assms(2) by simp
  then have hdr: "sysd_cfg_yaml_fru_read Y fru_header_size = Some hdr"
    by (simp only: sysd_cfg_yaml_fru_read_def assms(6))
  have "take ?n (take ?n ?img @ replicate ?n 0) =
      hdr @ enc_tlvs ts @ enc_crc c @ take 1 (take 1 rest @ replicate ?n 0)"
    using assms(2) by simp
  then have buf: "\<exists>tail. take ?n (take ?n ?img @ replicate ?n 0) = hdr @ enc_tlvs ts @ enc_crc c @ tail"
    by blast
  have "rd hdr 8 = Inr (hdr ! 8)" "rd hdr 9 = Inr (hdr ! 9)" "rd hdr 10 = Inr (hdr ! 10)"
    using assms(2) by (simp_all add: rd_in_bounds)
  moreover have "\<not> hdr ! 8 > 1" using assms(4) by simp
  moreover have "sysd_cfg_yaml_fru_read Y ?n = Some (take ?n ?img)"
    by (simp only: sysd_cfg_yaml_fru_read_def assms(6))
  ultimately show ?thesis
    using hdr buf process_image [OF assms(2,3)]
    by (auto simp: sysd_read_fru_eeprom_def assms(1,5) Let_def)
qed

theorem fru_device_read_witness:
  "sysd_read_fru_eeprom ex_yaml sum_crc (0, 0, 0) True \<lparr>fru_yaml = False, fru_dev = True\<rparr> fru_zero =
     Inr (0, fold apply_tlv ex_tlvs fru_zero)"
proof -
  have "length ex_header = 11" "list_all wf_tlv ex_tlvs" "ex_header ! 8 \<le> 1"
    "unat (be16 (ex_header ! 9) (ex_header ! 10)) = length (enc_tlvs ex_tlvs) + 6"
    by code_simp+
  moreover have "\<And>n. y_i2c_data ex_yaml 0 n = Some (take n (ex_header @ enc_tlvs ex_tlvs @ enc_crc ex_crc @ [0]))"
    by (simp add: ex_yaml_def ex_image_def)
  ultimately show ?thesis
    using fru_device_read [of "\<lparr>fru_yaml = False, fru_dev = True\<rparr>" ex_header ex_tlvs ex_yaml ex_crc "[0]"
      sum_crc "(0, 0, 0)" fru_zero] by (simp add: ex_crc_def)
qed

end
