(* ===== verification/Manifest.thy ===== *)
theory Manifest
  imports Prelude
begin

text \<open>
  The image manifest (\<open>src/sysd_util.c\<close>): the JSON walk that finds the \<open>daemons\<close> and
  \<open>mgmt_intf\<close> objects wherever they are nested, and the tables it fills. The JSON library is not
  part of the repository: a parsed document is a value of \<open>json\<close>, whose objects list their members
  in the order \<open>SHASH_FOR_EACH\<close> visits them, which for a hash table can be any order.
\<close>

section \<open>Data\<close>

datatype json =
    JNull | JFalse | JTrue
  | JObject "(string \<times> json) list"
  | JArray "json list"
  | JInteger int | JReal | JString string

text \<open>\<open>daemon_info_t\<close>; the name is an array of 128 characters.\<close>

record daemon_info =
  d_name :: string
  d_is_hw_handler :: bool
  d_cur_hw :: int

definition MAX_DAEMON_NAME_LEN :: nat where
  "MAX_DAEMON_NAME_LEN = 128"

text \<open>
  The globals the walk writes: the daemon table, its number of hardware daemons, the block that
  holds the management interface name and the static flag of \<open>_sysd_process_mgmt_intf\<close>.
\<close>

record manifest_state =
  daemons :: "daemon_info list"
  num_hw_daemons :: int
  mgmt_intf :: "string option"
  is_mgmt_intf_present :: bool

definition manifest_init :: manifest_state where
  "manifest_init = \<lparr>daemons = [], num_hw_daemons = 0, mgmt_intf = None, is_mgmt_intf_present = False\<rparr>"

text \<open>
  What the allocator answers: whether the \<open>calloc\<close> for the daemon of a given index succeeds, and
  the bytes of the block \<open>xcalloc (sizeof (mgmt_intf_info_t), 0)\<close> returns. That call asks for zero
  bytes, so nothing is promised about the length or the contents of the block.
\<close>

record manifest_env =
  calloc_ok :: "nat \<Rightarrow> bool"
  zero_block :: string

section \<open>Operations\<close>

text \<open>\<open>_sysd_get_hw_handler\<close>: the first member whose name starts with the tag decides.\<close>

fun sysd_get_hw_handler :: "(string \<times> json) list \<Rightarrow> daemon_info \<Rightarrow> daemon_info" where
  "sysd_get_hw_handler [] d = d"
| "sysd_get_hw_handler ((name, jp) # ms) d =
     (if starts_with name ''is_hw_handler''
      then d\<lparr>d_is_hw_handler := (case jp of JTrue \<Rightarrow> True | _ \<Rightarrow> False)\<rparr>
      else sysd_get_hw_handler ms d)"

text \<open>
  \<open>_sysd_process_daemons\<close>: one table entry per member. The name is copied with its own length as
  bound, so 129 characters leave the array and 128 leave it without terminator for the log message
  that follows; \<open>json_object\<close> asserts that the member is an object.
\<close>

fun sysd_process_daemons ::
  "manifest_env \<Rightarrow> (string \<times> json) list \<Rightarrow> manifest_state \<Rightarrow> fault + (int \<times> manifest_state)" where
  "sysd_process_daemons env [] st = Inr (0, st)"
| "sysd_process_daemons env ((name, data) # ms) st =
     (if \<not> calloc_ok env (length (daemons st)) then Inr (-1, st)
      else if MAX_DAEMON_NAME_LEN < length name then Inl Out_Of_Bounds
      else case data of
        JObject obj \<Rightarrow>
          (if length name = MAX_DAEMON_NAME_LEN then Inl Unterminated
           else let d = \<lparr>d_name = name, d_is_hw_handler = False,
                        d_cur_hw = (if starts_with name ''ops-sysd'' then 1 else 0)\<rparr>
                in sysd_process_daemons env ms
                     (st\<lparr>daemons := daemons st @ [sysd_get_hw_handler obj d]\<rparr>))
      | _ \<Rightarrow> Inl Assertion)"

text \<open>\<open>_sysd_process_mgmt_intf\<close>.\<close>

definition mgmt_result :: "manifest_state \<Rightarrow> fault + (int \<times> manifest_state)" where
  "mgmt_result st = Inr (if is_mgmt_intf_present st then 0 else -1, st)"

fun sysd_process_mgmt_intf ::
  "manifest_env \<Rightarrow> (string \<times> json) list \<Rightarrow> manifest_state \<Rightarrow> fault + (int \<times> manifest_state)" where
  "sysd_process_mgmt_intf env [] st = mgmt_result st"
| "sysd_process_mgmt_intf env ((name, jp) # ms) st =
     (if starts_with name ''intf'' then
        (case jp of
           JString s \<Rightarrow>
             (if length (zero_block env) < length s then Inl Out_Of_Bounds
              else mgmt_result
                     (st\<lparr>mgmt_intf := Some (s @ drop (length s) (zero_block env)),
                         is_mgmt_intf_present := True\<rparr>))
         | _ \<Rightarrow> mgmt_result st)
      else sysd_process_mgmt_intf env ms st)"

text \<open>\<open>sysd_process_json\<close> on a value, on the members of an object and on the elements of an array.\<close>

fun sysd_process_json :: "manifest_env \<Rightarrow> json \<Rightarrow> manifest_state \<Rightarrow> fault + (int \<times> manifest_state)"
  and process_members ::
    "manifest_env \<Rightarrow> (string \<times> json) list \<Rightarrow> manifest_state \<Rightarrow> fault + (int \<times> manifest_state)"
  and process_elems :: "manifest_env \<Rightarrow> json list \<Rightarrow> manifest_state \<Rightarrow> fault + (int \<times> manifest_state)"
where
  "sysd_process_json env (JObject ms) st = process_members env ms st"
| "sysd_process_json env (JArray js) st = process_elems env js st"
| "sysd_process_json env _ st = Inr (0, st)"
| "process_members env [] st = Inr (0, st)"
| "process_members env ((name, jp) # ms) st =
     bindE
       (case jp of
          JObject obj \<Rightarrow>
            (if starts_with name ''daemons'' then sysd_process_daemons env obj st
             else if starts_with name ''mgmt_intf'' then sysd_process_mgmt_intf env obj st
             else sysd_process_json env jp st)
        | JArray _ \<Rightarrow> sysd_process_json env jp st
        | _ \<Rightarrow> Inr (0, st))
       (\<lambda>(rc, st'). if rc \<noteq> 0 then Inr (-1, st') else process_members env ms st')"
| "process_elems env [] st = Inr (0, st)"
| "process_elems env (jp # js) st =
     bindE (sysd_process_json env jp st)
       (\<lambda>(rc, st'). if rc \<noteq> 0 then Inr (-1, st') else process_elems env js st')"

definition sysd_set_num_hw_daemons :: "manifest_state \<Rightarrow> manifest_state" where
  "sysd_set_num_hw_daemons st =
     st\<lparr>num_hw_daemons := int (length (filter d_is_hw_handler (daemons st)))\<rparr>"

text \<open>
  \<open>sysd_read_manifest_file\<close>: the argument is what \<open>json_from_file\<close> returned. The library reports
  an unreadable file as a string value, which the type test rejects.
\<close>

definition sysd_read_manifest_file ::
  "manifest_env \<Rightarrow> json option \<Rightarrow> manifest_state \<Rightarrow> fault + (int \<times> manifest_state)" where
  "sysd_read_manifest_file env info st =
     (case info of
        None \<Rightarrow> Inr (-1, st)
      | Some j \<Rightarrow>
          (if (case j of JObject _ \<Rightarrow> False | JArray _ \<Rightarrow> False | _ \<Rightarrow> True) then Inr (-1, st)
           else bindE (sysd_process_json env j st)
                  (\<lambda>(rc, st'). if rc \<noteq> 0 then Inr (-1, st')
                               else Inr (0, sysd_set_num_hw_daemons st'))))"

text \<open>Reading \<open>mgmt_intf->name\<close> as a string.\<close>

definition mgmt_intf_name :: "manifest_state \<Rightarrow> fault + string" where
  "mgmt_intf_name st =
     (case mgmt_intf st of
        None \<Rightarrow> Inl Null_Deref
      | Some blk \<Rightarrow> if CHR 0x00 \<in> set blk then Inr (cstr blk) else Inl Unterminated)"

section \<open>The walk as a flat sequence of visits\<close>

text \<open>
  The objects the walk hands to one of its two readers, in depth-first order. Objects and arrays
  under other names are searched; the objects handed to a reader are not.
\<close>

datatype visit = V_Daemons "(string \<times> json) list" | V_Mgmt "(string \<times> json) list"

fun visits :: "json \<Rightarrow> visit list"
  and visits_members :: "(string \<times> json) list \<Rightarrow> visit list"
  and visits_elems :: "json list \<Rightarrow> visit list"
where
  "visits (JObject ms) = visits_members ms"
| "visits (JArray js) = visits_elems js"
| "visits _ = []"
| "visits_members [] = []"
| "visits_members ((name, jp) # ms) =
     (case jp of
        JObject obj \<Rightarrow> (if prefix ''daemons'' name then [V_Daemons obj]
                        else if prefix ''mgmt_intf'' name then [V_Mgmt obj] else visits jp)
      | JArray _ \<Rightarrow> visits jp
      | _ \<Rightarrow> []) @ visits_members ms"
| "visits_elems [] = []"
| "visits_elems (jp # js) = visits jp @ visits_elems js"

fun run_visit :: "manifest_env \<Rightarrow> visit \<Rightarrow> manifest_state \<Rightarrow> fault + (int \<times> manifest_state)" where
  "run_visit env (V_Daemons obj) st = sysd_process_daemons env obj st"
| "run_visit env (V_Mgmt obj) st = sysd_process_mgmt_intf env obj st"

fun run_visits :: "manifest_env \<Rightarrow> visit list \<Rightarrow> manifest_state \<Rightarrow> fault + (int \<times> manifest_state)" where
  "run_visits env [] st = Inr (0, st)"
| "run_visits env (v # vs) st =
     bindE (run_visit env v st) (\<lambda>(rc, st'). if rc \<noteq> 0 then Inr (-1, st') else run_visits env vs st')"

lemma run_visits_append:
  "run_visits env (vs @ ws) st =
     bindE (run_visits env vs st) (\<lambda>(rc, st'). if rc \<noteq> 0 then Inr (-1, st') else run_visits env ws st')"
  by (induction vs arbitrary: st) (auto simp: bindE_def split: sum.splits)

lemma process_daemons_rc: "sysd_process_daemons env obj st = Inr (rc, st') \<Longrightarrow> rc = 0 \<or> rc = -1"
  by (induction env obj st rule: sysd_process_daemons.induct)
     (auto split: if_splits json.splits simp: Let_def)

lemma process_mgmt_intf_rc: "sysd_process_mgmt_intf env obj st = Inr (rc, st') \<Longrightarrow> rc = 0 \<or> rc = -1"
  by (induction env obj st rule: sysd_process_mgmt_intf.induct)
     (auto split: if_splits json.splits simp: mgmt_result_def)

lemma run_visits_single: "run_visits env [v] st = run_visit env v st"
  by (cases v; cases "run_visit env v st") (auto dest: process_daemons_rc process_mgmt_intf_rc)

lemma process_json_visits:
  "sysd_process_json env j st = run_visits env (visits j) st"
  "process_members env ms st = run_visits env (visits_members ms) st"
  "process_elems env js st = run_visits env (visits_elems js) st"
proof (induction env j st and env ms st and env js st
    rule: sysd_process_json_process_members_process_elems.induct)
  case (5 env name jp ms st)
  let ?head = "case jp of
        JObject obj \<Rightarrow>
          (if starts_with name ''daemons'' then sysd_process_daemons env obj st
           else if starts_with name ''mgmt_intf'' then sysd_process_mgmt_intf env obj st
           else sysd_process_json env jp st)
      | JArray _ \<Rightarrow> sysd_process_json env jp st
      | _ \<Rightarrow> Inr (0, st)"
  let ?vs = "case jp of
        JObject obj \<Rightarrow> (if prefix ''daemons'' name then [V_Daemons obj]
                        else if prefix ''mgmt_intf'' name then [V_Mgmt obj] else visits jp)
      | JArray _ \<Rightarrow> visits jp
      | _ \<Rightarrow> []"
  have head: "?head = run_visits env ?vs st"
    using 5(1,2) by (cases jp) (simp_all only: starts_with_prefix run_visits_single run_visit.simps
        json.case run_visits.simps(1) not_False_eq_True simp_thms split: if_split, simp_all)
  have "bindE ?head (\<lambda>(rc, st'). if rc \<noteq> 0 then Inr (-1, st') else process_members env ms st') =
      bindE ?head (\<lambda>(rc, st'). if rc \<noteq> 0 then Inr (-1, st') else run_visits env (visits_members ms) st')"
    using 5(3) by (intro bindE_cong) auto
  then show ?case
    unfolding process_members.simps visits_members.simps run_visits_append head .
next
  case (7 env jp js st)
  have "bindE (sysd_process_json env jp st)
        (\<lambda>(rc, st'). if rc \<noteq> 0 then Inr (-1, st') else process_elems env js st') =
      bindE (sysd_process_json env jp st)
        (\<lambda>(rc, st'). if rc \<noteq> 0 then Inr (-1, st') else run_visits env (visits_elems js) st')"
    using 7(2) by (intro bindE_cong) auto
  then show ?case
    unfolding process_elems.simps visits_elems.simps run_visits_append 7(1) .
qed auto

section \<open>What each reader does to the tables\<close>

definition hw_flag :: "(string \<times> json) list \<Rightarrow> bool" where
  "hw_flag obj = (case List.find (\<lambda>m. prefix ''is_hw_handler'' (fst m)) obj of
                    Some m \<Rightarrow> snd m = JTrue | None \<Rightarrow> False)"

fun entry_ok :: "string \<times> json \<Rightarrow> bool" where
  "entry_ok (name, JObject obj) \<longleftrightarrow> length name < MAX_DAEMON_NAME_LEN"
| "entry_ok _ \<longleftrightarrow> False"

fun entry_obj :: "json \<Rightarrow> (string \<times> json) list" where
  "entry_obj (JObject obj) = obj"
| "entry_obj _ = []"

definition daemon_of :: "string \<times> json \<Rightarrow> daemon_info" where
  "daemon_of e = \<lparr>d_name = fst e, d_is_hw_handler = hw_flag (entry_obj (snd e)),
                  d_cur_hw = (if prefix ''ops-sysd'' (fst e) then 1 else 0)\<rparr>"

lemma get_hw_handler_eq:
  "\<not> d_is_hw_handler d \<Longrightarrow> sysd_get_hw_handler obj d = d\<lparr>d_is_hw_handler := hw_flag obj\<rparr>"
  by (induction obj d rule: sysd_get_hw_handler.induct)
     (auto simp: hw_flag_def split: json.splits)

lemma process_daemons_iff:
  "sysd_process_daemons env ms st = Inr (0, st') \<longleftrightarrow>
     list_all entry_ok ms \<and> (\<forall>i < length ms. calloc_ok env (length (daemons st) + i)) \<and>
     st' = st\<lparr>daemons := daemons st @ map daemon_of ms\<rparr>"
proof (induction env ms st rule: sysd_process_daemons.induct)
  case (2 env name data ms st)
  show ?case
  proof (cases data)
    case (JObject obj)
    let ?d = "\<lparr>d_name = name, d_is_hw_handler = False,
               d_cur_hw = (if prefix ''ops-sysd'' name then 1 else 0)\<rparr>"
    have entry: "sysd_get_hw_handler obj ?d = daemon_of (name, data)"
      by (subst get_hw_handler_eq) (simp_all add: daemon_of_def JObject)
    show ?thesis
    proof (cases "calloc_ok env (length (daemons st)) \<and> length name < MAX_DAEMON_NAME_LEN")
      case True
      then have "sysd_process_daemons env ((name, data) # ms) st =
          sysd_process_daemons env ms (st\<lparr>daemons := daemons st @ [daemon_of (name, data)]\<rparr>)"
        using entry by (simp add: JObject)
      moreover have "sysd_process_daemons env ms (st\<lparr>daemons := daemons st @ [daemon_of (name, data)]\<rparr>) = Inr (0, st')
          \<longleftrightarrow> list_all entry_ok ms \<and> (\<forall>i < length ms. calloc_ok env (Suc (length (daemons st)) + i)) \<and>
             st' = st\<lparr>daemons := daemons st @ map daemon_of ((name, data) # ms)\<rparr>"
        using "2" [OF _ _ JObject] True entry by (simp add: JObject)
      ultimately show ?thesis using True by (auto simp: JObject less_Suc_eq_0_disj)
    qed (auto simp: JObject Let_def)
  qed (auto simp: Let_def)
qed auto

definition mgmt_of :: "(string \<times> json) list \<Rightarrow> string option" where
  "mgmt_of obj = (case List.find (\<lambda>m. prefix ''intf'' (fst m)) obj of
                    Some m \<Rightarrow> (case snd m of JString s \<Rightarrow> Some s | _ \<Rightarrow> None) | None \<Rightarrow> None)"

definition set_mgmt :: "manifest_env \<Rightarrow> string \<Rightarrow> manifest_state \<Rightarrow> manifest_state" where
  "set_mgmt env s st = st\<lparr>mgmt_intf := Some (s @ drop (length s) (zero_block env)),
                          is_mgmt_intf_present := True\<rparr>"

lemma process_mgmt_eq:
  "sysd_process_mgmt_intf env ms st =
     (case mgmt_of ms of
        None \<Rightarrow> mgmt_result st
      | Some s \<Rightarrow> if length (zero_block env) < length s then Inl Out_Of_Bounds
                  else Inr (0, set_mgmt env s st))"
  by (induction env ms st rule: sysd_process_mgmt_intf.induct)
     (auto simp: mgmt_of_def mgmt_result_def set_mgmt_def split: json.splits)

section \<open>What every reader keeps\<close>

text \<open>
  The interface between the walk and its readers: a property of the tables that both readers keep.
  The walk then keeps it, through any document and also when it stops at an error.
\<close>

locale manifest_reader =
  fixes env :: manifest_env and P :: "manifest_state \<Rightarrow> bool"
  assumes daemons_keep: "P st \<Longrightarrow> sysd_process_daemons env obj st = Inr (rc, st') \<Longrightarrow> P st'"
    and mgmt_keep: "P st \<Longrightarrow> sysd_process_mgmt_intf env obj st = Inr (rc, st') \<Longrightarrow> P st'"
begin

lemma visits_keep: "P st \<Longrightarrow> run_visits env vs st = Inr (rc, st') \<Longrightarrow> P st'"
proof (induction vs arbitrary: st)
  case (Cons v vs)
  from Cons.prems(2) obtain rc1 st1 where v: "run_visit env v st = Inr (rc1, st1)"
    and rest: "(if rc1 \<noteq> 0 then Inr (-1, st1) else run_visits env vs st1) = Inr (rc, st')"
    by (auto simp: bindE_eq_Inr)
  have "P st1" using v Cons.prems(1) by (cases v) (auto intro: daemons_keep mgmt_keep)
  with rest show ?case by (auto intro: Cons.IH split: if_splits)
qed simp

lemma json_keep: "P st \<Longrightarrow> sysd_process_json env j st = Inr (rc, st') \<Longrightarrow> P st'"
  using visits_keep by (simp add: process_json_visits)

lemma read_keep:
  assumes "P st" and "sysd_read_manifest_file env info st = Inr (rc, st')"
    and num: "\<And>st n. P st \<Longrightarrow> P (st\<lparr>num_hw_daemons := n\<rparr>)"
  shows "P st'"
  using assms(1,2) num
  by (auto simp: sysd_read_manifest_file_def bindE_eq_Inr sysd_set_num_hw_daemons_def
           split: option.splits if_splits intro: json_keep)

end

definition daemon_wf :: "daemon_info \<Rightarrow> bool" where
  "daemon_wf d \<longleftrightarrow> length (d_name d) < MAX_DAEMON_NAME_LEN \<and>
     d_cur_hw d = (if prefix ''ops-sysd'' (d_name d) then 1 else 0)"

definition manifest_wf :: "manifest_state \<Rightarrow> bool" where
  "manifest_wf st \<longleftrightarrow> list_all daemon_wf (daemons st) \<and>
     (is_mgmt_intf_present st \<longleftrightarrow> mgmt_intf st \<noteq> None)"

lemma process_daemons_extends:
  "sysd_process_daemons env ms st = Inr (rc, st') \<Longrightarrow>
   \<exists>ds. st' = st\<lparr>daemons := daemons st @ ds\<rparr> \<and> list_all daemon_wf ds"
proof (induction env ms st rule: sysd_process_daemons.induct)
  case (1 env st)
  then show ?case by (auto intro!: exI [of _ "[]"])
next
  case (2 env name data ms st)
  show ?case
  proof (cases "calloc_ok env (length (daemons st))")
    case False
    with 2 show ?thesis by (auto intro!: exI [of _ "[]"])
  next
    case True
    with "2.prems" obtain obj where obj: "data = JObject obj" "length name < MAX_DAEMON_NAME_LEN"
      by (auto split: if_splits json.splits)
    let ?d = "sysd_get_hw_handler obj \<lparr>d_name = name, d_is_hw_handler = False,
               d_cur_hw = (if prefix ''ops-sysd'' name then 1 else 0)\<rparr>"
    obtain ds where "st' = st\<lparr>daemons := (daemons st @ [?d]) @ ds\<rparr>" "list_all daemon_wf ds"
      using "2.IH" [OF _ _ obj(1)] "2.prems" True obj by fastforce
    moreover have "daemon_wf ?d"
      using obj(2) by (simp add: get_hw_handler_eq daemon_wf_def)
    ultimately show ?thesis by (auto intro!: exI [of _ "?d # ds"])
  qed
qed

interpretation table: manifest_reader env manifest_wf for env
proof
  fix st obj rc st'
  show "manifest_wf st \<Longrightarrow> sysd_process_daemons env obj st = Inr (rc, st') \<Longrightarrow> manifest_wf st'"
    using process_daemons_extends by (fastforce simp: manifest_wf_def)
  show "manifest_wf st \<Longrightarrow> sysd_process_mgmt_intf env obj st = Inr (rc, st') \<Longrightarrow> manifest_wf st'"
    by (auto simp: process_mgmt_eq manifest_wf_def mgmt_result_def set_mgmt_def
             split: option.splits if_splits)
qed

interpretation grow: manifest_reader env "\<lambda>st. prefix ds (daemons st)" for env ds
proof
  fix st obj rc st'
  show "prefix ds (daemons st) \<Longrightarrow> sysd_process_daemons env obj st = Inr (rc, st') \<Longrightarrow> prefix ds (daemons st')"
    using process_daemons_extends by fastforce
  show "prefix ds (daemons st) \<Longrightarrow> sysd_process_mgmt_intf env obj st = Inr (rc, st') \<Longrightarrow> prefix ds (daemons st')"
    by (auto simp: process_mgmt_eq mgmt_result_def set_mgmt_def split: option.splits if_splits)
qed

section \<open>What a successful read leaves behind\<close>

definition entries :: "visit list \<Rightarrow> (string \<times> json) list" where
  "entries vs = concat (map (\<lambda>v. case v of V_Daemons obj \<Rightarrow> obj | V_Mgmt _ \<Rightarrow> []) vs)"

lemma run_visits_success:
  "run_visits env vs st = Inr (0, st') \<Longrightarrow>
   daemons st' = daemons st @ map daemon_of (entries vs) \<and> list_all entry_ok (entries vs) \<and>
   (\<forall>obj s. V_Mgmt obj \<in> set vs \<longrightarrow> mgmt_of obj = Some s \<longrightarrow> length s \<le> length (zero_block env))"
proof (induction vs arbitrary: st)
  case Nil
  then show ?case by (simp add: entries_def)
next
  case (Cons v vs)
  then obtain st1 where v: "run_visit env v st = Inr (0, st1)" and rest: "run_visits env vs st1 = Inr (0, st')"
    by (auto simp: bindE_eq_Inr split: if_splits)
  show ?case
  proof (cases v)
    case (V_Daemons obj)
    then show ?thesis
      using v Cons.IH [OF rest] by (auto simp: process_daemons_iff entries_def)
  next
    case (V_Mgmt obj)
    then show ?thesis
      using v Cons.IH [OF rest]
      by (auto simp: process_mgmt_eq entries_def set_mgmt_def mgmt_result_def
               split: option.splits if_splits)
  qed
qed

lemma read_success:
  "sysd_read_manifest_file env info st = Inr (0, st') \<longleftrightarrow>
     (\<exists>j st1. info = Some j \<and> (\<exists>ms. j = JObject ms \<or> (\<exists>js. j = JArray js)) \<and>
        run_visits env (visits j) st = Inr (0, st1) \<and> st' = sysd_set_num_hw_daemons st1)"
  by (auto simp: sysd_read_manifest_file_def process_json_visits bindE_eq_Inr
           split: option.splits json.splits if_splits)

section \<open>Properties\<close>

text \<open>The manifest shipped in \<open>files/image.manifest\<close>, and an allocator with 24 usable zero bytes.\<close>

definition image_daemons :: "(string \<times> json) list" where
  "image_daemons = map (\<lambda>n. (n, JObject [(''is_hw_handler'', JTrue)]))
     [''ops-sysd'', ''ops-pmd'', ''ops-tempd'', ''ops-ledd'', ''ops-powerd'', ''ops-fand'']"

definition image_manifest :: json where
  "image_manifest = JObject [(''daemons'', JObject image_daemons),
                             (''mgmt_intf'', JObject [(''intf'', JString ''eth0'')])]"

definition roomy_env :: manifest_env where
  "roomy_env = \<lparr>calloc_ok = (\<lambda>_. True), zero_block = replicate 24 (CHR 0x00)\<rparr>"

definition exact_env :: manifest_env where
  "exact_env = \<lparr>calloc_ok = (\<lambda>_. True), zero_block = []\<rparr>"

text \<open>
  Claim C23. The recursive walk over the document does exactly what running the two readers over the
  depth-first list of the objects they care about does: nothing else is read, nothing is read twice,
  and the walk stops at the first reader that fails.
\<close>

theorem manifest_walk_is_flat:
  "sysd_process_json env j st = run_visits env (visits j) st"
  by (rule process_json_visits)

text \<open>
  Claim C16. A successful read of any document fills the daemon table with one entry per member of
  the \<open>daemons\<close> objects, in the order met, each with its name, the flag of its first
  \<open>is_hw_handler\<close> member and \<open>cur_hw\<close> set for the daemon itself; and the count of hardware
  daemons is the number of entries with the flag.
\<close>

theorem manifest_daemon_table:
  assumes "sysd_read_manifest_file env (Some j) manifest_init = Inr (0, st')"
  shows "daemons st' = map daemon_of (entries (visits j)) \<and>
         num_hw_daemons st' = int (length (filter (\<lambda>e. hw_flag (entry_obj (snd e))) (entries (visits j)))) \<and>
         num_hw_daemons st' \<le> int (length (daemons st'))"
proof -
  obtain st1 where run: "run_visits env (visits j) manifest_init = Inr (0, st1)"
    and st': "st' = sysd_set_num_hw_daemons st1"
    using assms by (auto simp: read_success)
  have "daemons st1 = map daemon_of (entries (visits j))"
    using run_visits_success [OF run] by (simp add: manifest_init_def)
  then show ?thesis
    by (simp add: st' sysd_set_num_hw_daemons_def filter_map comp_def daemon_of_def)
qed

lemma image_manifest_reads:
  "sysd_read_manifest_file roomy_env (Some image_manifest) manifest_init =
     Inr (0, \<lparr>daemons = map daemon_of image_daemons, num_hw_daemons = 6,
              mgmt_intf = Some (''eth0'' @ replicate 20 (CHR 0x00)), is_mgmt_intf_present = True\<rparr>)"
  by code_simp

theorem manifest_daemon_table_witness:
  "sysd_read_manifest_file roomy_env (Some image_manifest) manifest_init =
     Inr (0, \<lparr>daemons = map daemon_of image_daemons, num_hw_daemons = 6,
              mgmt_intf = Some (''eth0'' @ replicate 20 (CHR 0x00)), is_mgmt_intf_present = True\<rparr>) \<and>
   entries (visits image_manifest) = image_daemons \<and>
   map d_name (map daemon_of (entries (visits image_manifest))) =
     [''ops-sysd'', ''ops-pmd'', ''ops-tempd'', ''ops-ledd'', ''ops-powerd'', ''ops-fand''] \<and>
   length (filter (\<lambda>e. hw_flag (entry_obj (snd e))) image_daemons) = 6"
proof -
  have e: "entries (visits image_manifest) = image_daemons" by code_simp
  show ?thesis
    using manifest_daemon_table [OF image_manifest_reads] image_manifest_reads
    by (simp add: e) (simp add: image_daemons_def daemon_of_def)
qed

lemma read_manifest_wf:
  assumes "sysd_read_manifest_file env info manifest_init = Inr (rc, st')"
  shows "manifest_wf st'"
proof (rule table.read_keep [OF _ assms])
  show "manifest_wf manifest_init" by (simp add: manifest_wf_def manifest_init_def)
  show "manifest_wf st \<Longrightarrow> manifest_wf (st\<lparr>num_hw_daemons := n\<rparr>)" for st n
    by (simp add: manifest_wf_def)
qed

lemma read_manifest_count:
  assumes "sysd_read_manifest_file env info st = Inr (0, st')"
  shows "num_hw_daemons st' = int (length (filter d_is_hw_handler (daemons st')))"
  using assms
  by (auto simp: sysd_read_manifest_file_def bindE_eq_Inr sysd_set_num_hw_daemons_def split: option.splits if_splits)

text \<open>
  Claim C30. Reading a manifest, to the end or to an error return, leaves well-formed tables: every
  daemon name is shorter than its array, \<open>cur_hw\<close> is 1 exactly for names that start with
  \<open>ops-sysd\<close> and 0 otherwise, and the interface block exists exactly when the flag says so.
\<close>

theorem manifest_tables_wf:
  assumes "sysd_read_manifest_file env info manifest_init = Inr (rc, st')"
  shows "manifest_wf st'"
  using read_manifest_wf [OF assms] .

theorem manifest_tables_wf_witness:
  "sysd_read_manifest_file roomy_env (Some (JObject [(''mgmt_intf'', JObject [(''intf'', JInteger 3)])])) manifest_init =
     Inr (-1, manifest_init) \<and> manifest_wf manifest_init"
proof -
  have "sysd_read_manifest_file roomy_env (Some (JObject [(''mgmt_intf'', JObject [(''intf'', JInteger 3)])])) manifest_init =
     Inr (-1, manifest_init)" by code_simp
  with manifest_tables_wf [OF this] show ?thesis by simp
qed

text \<open>
  The block for the management interface is requested with size zero, so a successful read
  needs more memory than was asked for: every interface name of the document fits only if the
  allocator happened to return at least that many bytes.
\<close>

lemma manifest_needs_unrequested_bytes:
  assumes "sysd_read_manifest_file env (Some j) st = Inr (0, st')"
    and "V_Mgmt obj \<in> set (visits j)" and "mgmt_of obj = Some s"
  shows "length s \<le> length (zero_block env)"
  using assms run_visits_success by (auto simp: read_success)

end
