(* ===== verification/Manifest_Order.thy ===== *)
theory Manifest_Order
  imports Manifest
begin

text \<open>
  The members of a JSON object are visited in the order of a hash table, which nothing fixes. The relation
  \<open>reordered\<close> permutes the members of objects at any depth; what the two readers of the manifest see of a
  document does not depend on that order, so an unambiguous manifest is read the same in all orders.
\<close>

section \<open>Documents in another order\<close>

text \<open>
  The JSON library keeps the members of an object in a hash table, so a document may be visited in any
  order of the members of each of its objects, at every depth; arrays keep their order.
\<close>

inductive reordered :: "json \<Rightarrow> json \<Rightarrow> bool" where
  reordered_refl: "reordered j j"
| reordered_perm: "mset ms = mset ms' \<Longrightarrow> reordered (JObject ms) (JObject ms')"
| reordered_members: "list_all2 (rel_prod (=) reordered) ms ms' \<Longrightarrow> reordered (JObject ms) (JObject ms')"
| reordered_elems: "list_all2 reordered js js' \<Longrightarrow> reordered (JArray js) (JArray js')"
| reordered_trans: "reordered j1 j2 \<Longrightarrow> reordered j2 j3 \<Longrightarrow> reordered j1 j3"
  monos list.rel_mono prod.rel_mono

text \<open>
  The readers look for the first member whose name starts with a tag, and a later interface section
  overwrites an earlier one. A document is unambiguous when there is nothing to choose: no daemon
  and no interface section has two members that start with the tag, and there is one interface section at most.
\<close>

definition tagged :: "string \<Rightarrow> (string \<times> 'a) list \<Rightarrow> nat" where
  "tagged tag ms = length (filter (\<lambda>m. prefix tag (fst m)) ms)"

definition mgmt_sections :: "visit list \<Rightarrow> (string \<times> json) list list" where
  "mgmt_sections vs = concat (map (\<lambda>v. case v of V_Mgmt obj \<Rightarrow> [obj] | V_Daemons _ \<Rightarrow> []) vs)"

definition unambiguous :: "json \<Rightarrow> bool" where
  "unambiguous j \<longleftrightarrow>
     list_all (\<lambda>e. tagged ''is_hw_handler'' (entry_obj (snd e)) \<le> 1) (entries (visits j)) \<and>
     list_all (\<lambda>obj. tagged ''intf'' obj \<le> 1) (mgmt_sections (visits j)) \<and>
     length (mgmt_sections (visits j)) \<le> 1"

text \<open>What the readers see of a document, without the order: of a daemon its members with their flags, of an
  interface section its members with their strings.\<close>

fun str_of :: "json \<Rightarrow> string option" where
  "str_of (JString s) = Some s"
| "str_of _ = None"

fun daemon_view :: "json \<Rightarrow> (string \<times> bool) multiset option" where
  "daemon_view (JObject obj) = Some (mset (map (map_prod id (\<lambda>j. j = JTrue)) obj))"
| "daemon_view _ = None"

abbreviation section_view :: "(string \<times> json) list \<Rightarrow> (string \<times> string option) multiset" where
  "section_view obj \<equiv> mset (map (map_prod id str_of) obj)"

abbreviation daemons_view :: "(string \<times> json) list \<Rightarrow> (string \<times> (string \<times> bool) multiset option) multiset" where
  "daemons_view obj \<equiv> mset (map (map_prod id daemon_view) obj)"

definition daemons_seen :: "visit list \<Rightarrow> (string \<times> (string \<times> bool) multiset option) multiset" where
  "daemons_seen vs = daemons_view (entries vs)"

definition sections_seen :: "visit list \<Rightarrow> (string \<times> string option) multiset multiset" where
  "sections_seen vs = mset (map section_view (mgmt_sections vs))"

definition same_seen :: "visit list \<Rightarrow> visit list \<Rightarrow> bool" where
  "same_seen vs ws \<longleftrightarrow> daemons_seen vs = daemons_seen ws \<and> sections_seen vs = sections_seen ws"

fun members_view :: "json \<Rightarrow> ((string \<times> (string \<times> bool) multiset option) multiset \<times> (string \<times> string option) multiset) option" where
  "members_view (JObject obj) = Some (daemons_view obj, section_view obj)"
| "members_view _ = None"

definition same_doc :: "json \<Rightarrow> json \<Rightarrow> bool" where
  "same_doc j j' \<longleftrightarrow> (j = JTrue \<longleftrightarrow> j' = JTrue) \<and> str_of j = str_of j' \<and> daemon_view j = daemon_view j' \<and>
     members_view j = members_view j' \<and> (\<forall>js. j = JArray js \<longrightarrow> (\<exists>js'. j' = JArray js')) \<and>
     (\<forall>js. j' = JArray js \<longrightarrow> (\<exists>js'. j = JArray js')) \<and> same_seen (visits j) (visits j')"

fun member_visits :: "string \<times> json \<Rightarrow> visit list" where
  "member_visits (name, jp) =
     (case jp of
        JObject obj \<Rightarrow> (if prefix ''daemons'' name then [V_Daemons obj]
                        else if prefix ''mgmt_intf'' name then [V_Mgmt obj] else visits jp)
      | JArray _ \<Rightarrow> visits jp
      | _ \<Rightarrow> [])"

lemma visits_concat: "visits_members ms = concat (map member_visits ms)" "visits_elems js = concat (map visits js)"
  by (induction ms, auto) (induction js, auto)

lemma entries_simps [simp]:
  "entries [] = []" "entries (vs @ ws) = entries vs @ entries ws" "entries (V_Daemons obj # vs) = obj @ entries vs"
  "entries (V_Mgmt obj # vs) = entries vs"
  by (simp_all add: entries_def)

lemma mgmt_sections_simps [simp]:
  "mgmt_sections [] = []" "mgmt_sections (vs @ ws) = mgmt_sections vs @ mgmt_sections ws"
  "mgmt_sections (V_Daemons obj # vs) = mgmt_sections vs" "mgmt_sections (V_Mgmt obj # vs) = obj # mgmt_sections vs"
  by (simp_all add: mgmt_sections_def)

text \<open>What is seen of a document is the sum over its parts.\<close>

lemma seen_append [simp]:
  "daemons_seen (vs @ ws) = daemons_seen vs + daemons_seen ws" "sections_seen (vs @ ws) = sections_seen vs + sections_seen ws"
  by (simp_all add: daemons_seen_def sections_seen_def)

lemma seen_concat:
  "daemons_seen (concat (map f xs)) = \<Sum>\<^sub># (mset (map (daemons_seen \<circ> f) xs))"
  "sections_seen (concat (map f xs)) = \<Sum>\<^sub># (mset (map (sections_seen \<circ> f) xs))"
  by (induction xs) (simp_all, simp_all add: daemons_seen_def sections_seen_def)

lemma same_seen_concat:
  assumes "mset (map (daemons_seen \<circ> f) xs) = mset (map (daemons_seen \<circ> f) ys)"
    and "mset (map (sections_seen \<circ> f) xs) = mset (map (sections_seen \<circ> f) ys)"
  shows "same_seen (concat (map f xs)) (concat (map f ys))"
  unfolding same_seen_def seen_concat using assms by (simp only:)

lemma mset_map_perm: "mset xs = mset ys \<Longrightarrow> mset (map f xs) = mset (map f ys)"
  by simp

lemma list_all2_map_eq: "list_all2 R xs ys \<Longrightarrow> (\<And>x y. R x y \<Longrightarrow> f x = f y) \<Longrightarrow> map f xs = map f ys"
  by (induction rule: list_all2_induct) auto

lemma member_same_doc: "same_doc jp jp' \<Longrightarrow> same_seen (member_visits (name, jp)) (member_visits (name, jp'))"
  by (cases jp; cases jp') (auto simp: same_doc_def same_seen_def daemons_seen_def sections_seen_def)

lemma reordered_same_doc: "reordered j j' \<Longrightarrow> same_doc j j'"
proof (induction rule: reordered.induct)
  case (reordered_perm ms ms')
  note perm = mset_map_perm [OF reordered_perm]
  have "same_seen (visits (JObject ms)) (visits (JObject ms'))"
    unfolding visits.simps visits_concat by (intro same_seen_concat perm)
  then show ?case unfolding same_doc_def by (simp add: perm del: mset_map)
next
  case (reordered_members ms ms')
  have eq: "map f ms = map f ms'" if "\<And>n jp jp'. same_doc jp jp' \<Longrightarrow> f (n, jp) = f (n, jp')" for f :: "string \<times> json \<Rightarrow> 'x"
    by (rule list_all2_map_eq [OF reordered_members]) (use that in auto)
  have "same_seen (visits (JObject ms)) (visits (JObject ms'))"
    unfolding visits.simps visits_concat
    by (intro same_seen_concat arg_cong [of _ _ mset] eq; use member_same_doc in \<open>simp add: same_seen_def\<close>)
  moreover have "map (map_prod id (\<lambda>j. j = JTrue)) ms = map (map_prod id (\<lambda>j. j = JTrue)) ms'"
    "map (map_prod id daemon_view) ms = map (map_prod id daemon_view) ms'" "map (map_prod id str_of) ms = map (map_prod id str_of) ms'"
    by (rule eq; simp add: same_doc_def)+
  ultimately show ?case unfolding same_doc_def by (simp del: mset_map)
next
  case (reordered_elems js js')
  have eq: "map f js = map f js'" if "\<And>jp jp'. same_doc jp jp' \<Longrightarrow> f jp = f jp'" for f :: "json \<Rightarrow> 'x"
    by (rule list_all2_map_eq [OF reordered_elems]) (use that in auto)
  have "same_seen (visits (JArray js)) (visits (JArray js'))"
    unfolding visits.simps visits_concat
    by (intro same_seen_concat arg_cong [of _ _ mset] eq) (simp_all add: same_doc_def same_seen_def)
  then show ?case by (simp add: same_doc_def)
next
  case (reordered_trans j1 j2 j3)
  then show ?case unfolding same_doc_def same_seen_def by metis
qed (simp add: same_doc_def same_seen_def)

text \<open>What the readers make of a document is a function of what is seen, when it is unambiguous.\<close>

lemma find_unique: "length (filter P xs) \<le> 1 \<Longrightarrow> List.find P xs = Some x \<longleftrightarrow> x \<in> set xs \<and> P x"
proof (induction xs)
  case (Cons y ys)
  show ?case
  proof (cases "P y")
    case True
    with Cons.prems have "filter P ys = []" by simp
    with True show ?thesis by (auto simp: filter_empty_conv)
  qed (use Cons in auto)
qed simp

lemma tagged_view: "tagged tag ms = size (filter_mset (\<lambda>m. prefix tag (fst m)) (mset (map (map_prod id f) ms)))"
  by (induction ms) (auto simp: tagged_def)

lemma hw_flag_unique:
  assumes "tagged ''is_hw_handler'' obj \<le> 1"
  shows "hw_flag obj \<longleftrightarrow> (\<exists>m \<in># mset (map (map_prod id (\<lambda>j. j = JTrue)) obj). prefix ''is_hw_handler'' (fst m) \<and> snd m)"
proof -
  have "hw_flag obj \<longleftrightarrow> (\<exists>m. List.find (\<lambda>m. prefix ''is_hw_handler'' (fst m)) obj = Some m \<and> snd m = JTrue)"
    by (simp add: hw_flag_def split: option.split)
  then show ?thesis
    unfolding find_unique [OF assms [unfolded tagged_def]] by force
qed

lemma mgmt_of_unique:
  assumes "tagged ''intf'' obj \<le> 1"
  shows "mgmt_of obj = Some s \<longleftrightarrow> (\<exists>m \<in># section_view obj. prefix ''intf'' (fst m) \<and> snd m = Some s)"
proof -
  have str: "(case j of JString s \<Rightarrow> Some s | _ \<Rightarrow> None) = str_of j" for j by (cases j) simp_all
  have "mgmt_of obj = Some s \<longleftrightarrow> (\<exists>m. List.find (\<lambda>m. prefix ''intf'' (fst m)) obj = Some m \<and> str_of (snd m) = Some s)"
    by (simp add: mgmt_of_def str split: option.split)
  then show ?thesis
    unfolding find_unique [OF assms [unfolded tagged_def]] by force
qed

fun view_ok :: "string \<times> (string \<times> bool) multiset option \<Rightarrow> bool" where
  "view_ok (name, v) \<longleftrightarrow> v \<noteq> None \<and> length name < MAX_DAEMON_NAME_LEN"

fun view_tags :: "string \<times> (string \<times> bool) multiset option \<Rightarrow> nat" where
  "view_tags (name, None) = 0"
| "view_tags (name, Some b) = size (filter_mset (\<lambda>m. prefix ''is_hw_handler'' (fst m)) b)"

fun view_daemon :: "string \<times> (string \<times> bool) multiset option \<Rightarrow> daemon_info" where
  "view_daemon (name, v) = \<lparr>d_name = name,
     d_is_hw_handler = (case v of None \<Rightarrow> False | Some b \<Rightarrow> \<exists>m \<in># b. prefix ''is_hw_handler'' (fst m) \<and> snd m),
     d_cur_hw = (if prefix ''ops-sysd'' name then 1 else 0)\<rparr>"

lemma entry_views:
  "entry_ok e \<longleftrightarrow> view_ok (map_prod id daemon_view e)"
  "tagged ''is_hw_handler'' (entry_obj (snd e)) = view_tags (map_prod id daemon_view e)"
  "tagged ''is_hw_handler'' (entry_obj (snd e)) \<le> 1 \<Longrightarrow> daemon_of e = view_daemon (map_prod id daemon_view e)"
proof -
  obtain n d where e: "e = (n, d)" by (cases e)
  have all: "(entry_ok e \<longleftrightarrow> view_ok (map_prod id daemon_view e)) \<and>
    tagged ''is_hw_handler'' (entry_obj (snd e)) = view_tags (map_prod id daemon_view e) \<and>
    (tagged ''is_hw_handler'' (entry_obj (snd e)) \<le> 1 \<longrightarrow> daemon_of e = view_daemon (map_prod id daemon_view e))"
  proof (cases "\<exists>obj. d = JObject obj")
    case True
    then obtain obj where "d = JObject obj" by blast
    with tagged_view [of "''is_hw_handler''" obj "\<lambda>j. j = JTrue"] hw_flag_unique [of obj] show ?thesis
      by (simp add: e daemon_of_def)
  next
    case False
    then show ?thesis by (cases d) (simp_all add: e tagged_def daemon_of_def hw_flag_def)
  qed
  then show "entry_ok e \<longleftrightarrow> view_ok (map_prod id daemon_view e)"
    and "tagged ''is_hw_handler'' (entry_obj (snd e)) = view_tags (map_prod id daemon_view e)"
    and "tagged ''is_hw_handler'' (entry_obj (snd e)) \<le> 1 \<Longrightarrow> daemon_of e = view_daemon (map_prod id daemon_view e)" by blast+
qed

lemma list_all_mset: "mset (map f xs) = mset (map f ys) \<Longrightarrow> list_all (P \<circ> f) xs \<longleftrightarrow> list_all (P \<circ> f) ys"
proof -
  assume "mset (map f xs) = mset (map f ys)"
  then have "f ` set xs = f ` set ys" by (metis set_map set_mset_mset)
  then have "(\<forall>y \<in> f ` set xs. P y) = (\<forall>y \<in> f ` set ys. P y)" by simp
  then show ?thesis by (simp add: list_all_iff)
qed

lemma entries_seen:
  assumes "daemons_seen vs = daemons_seen ws"
  shows "length (entries vs) = length (entries ws)"
    and "list_all entry_ok (entries vs) \<longleftrightarrow> list_all entry_ok (entries ws)"
    and "list_all (\<lambda>e. tagged ''is_hw_handler'' (entry_obj (snd e)) \<le> 1) (entries vs) \<longleftrightarrow>
      list_all (\<lambda>e. tagged ''is_hw_handler'' (entry_obj (snd e)) \<le> 1) (entries ws)"
    and "list_all (\<lambda>e. tagged ''is_hw_handler'' (entry_obj (snd e)) \<le> 1) (entries vs) \<Longrightarrow>
      mset (map daemon_of (entries vs)) = mset (map daemon_of (entries ws))"
proof -
  note views = assms [unfolded daemons_seen_def]
  show "length (entries vs) = length (entries ws)" using arg_cong [OF views, of size] by simp
  show "list_all entry_ok (entries vs) \<longleftrightarrow> list_all entry_ok (entries ws)"
    using list_all_mset [OF views, of view_ok] unfolding comp_def entry_views(1) [symmetric] .
  show tags: "list_all (\<lambda>e. tagged ''is_hw_handler'' (entry_obj (snd e)) \<le> 1) (entries vs) \<longleftrightarrow>
      list_all (\<lambda>e. tagged ''is_hw_handler'' (entry_obj (snd e)) \<le> 1) (entries ws)"
    using list_all_mset [OF views, of "\<lambda>v. view_tags v \<le> 1"] unfolding comp_def entry_views(2) [symmetric] .
  have daemon: "map daemon_of es = map view_daemon (map (map_prod id daemon_view) es)"
    if "list_all (\<lambda>e. tagged ''is_hw_handler'' (entry_obj (snd e)) \<le> 1) es" for es
    using that by (auto simp: list_all_iff entry_views(3))
  show "mset (map daemon_of (entries vs)) = mset (map daemon_of (entries ws))"
    if "list_all (\<lambda>e. tagged ''is_hw_handler'' (entry_obj (snd e)) \<le> 1) (entries vs)"
    unfolding daemon [OF that] daemon [OF that [unfolded tags]] by (rule mset_map_perm [OF views])
qed

lemma sections_match:
  assumes "sections_seen vs = sections_seen ws" "length (mgmt_sections vs) \<le> 1"
    and "list_all (\<lambda>obj. tagged ''intf'' obj \<le> 1) (mgmt_sections vs)"
  shows "map mgmt_of (mgmt_sections vs) = map mgmt_of (mgmt_sections ws) \<and> length (mgmt_sections ws) \<le> 1"
proof (cases "mgmt_sections vs")
  case Nil
  with assms(1) show ?thesis by (simp add: sections_seen_def)
next
  case (Cons obj rest)
  with assms(2) have vs: "mgmt_sections vs = [obj]" by simp
  have "length (mgmt_sections ws) = length (mgmt_sections vs)"
    using arg_cong [OF assms(1), of size] by (simp add: sections_seen_def)
  then obtain obj' where ws: "mgmt_sections ws = [obj']" by (auto simp: vs length_Suc_conv)
  have eq: "section_view obj = section_view obj'" using assms(1) by (simp add: sections_seen_def vs ws)
  have one: "tagged ''intf'' obj \<le> 1" using assms(3) by (simp add: vs)
  then have one': "tagged ''intf'' obj' \<le> 1"
    unfolding tagged_view [where f = str_of] eq .
  have "mgmt_of obj = Some s \<longleftrightarrow> mgmt_of obj' = Some s" for s
    unfolding mgmt_of_unique [OF one] mgmt_of_unique [OF one'] eq ..
  then have "mgmt_of obj = mgmt_of obj'" by (metis not_Some_eq)
  with vs ws show ?thesis by simp
qed

definition read_state :: "manifest_env \<Rightarrow> visit list \<Rightarrow> manifest_state \<Rightarrow> manifest_state" where
  "read_state env vs st =
     (let st1 = st\<lparr>daemons := daemons st @ map daemon_of (entries vs)\<rparr>
      in case mgmt_sections vs of [] \<Rightarrow> st1 | obj # _ \<Rightarrow> set_mgmt env (the (mgmt_of obj)) st1)"

lemma all_less_add: "(\<forall>i < a + b. Q i) \<longleftrightarrow> (\<forall>i < a. Q i) \<and> (\<forall>i < b. Q (a + i))" for a b :: nat
proof (intro iffI conjI)
  assume h: "(\<forall>i < a. Q i) \<and> (\<forall>i < b. Q (a + i))"
  show "\<forall>i < a + b. Q i"
  proof (intro allI impI)
    fix i assume "i < a + b"
    with h show "Q i" by (cases "i < a") (auto dest: spec [of _ "i - a"])
  qed
qed auto

lemma run_visits_iff:
  assumes "length (mgmt_sections vs) \<le> 1" "mgmt_sections vs = [] \<or> \<not> is_mgmt_intf_present st"
  shows "run_visits env vs st = Inr (0, st') \<longleftrightarrow>
    list_all entry_ok (entries vs) \<and> (\<forall>i < length (entries vs). calloc_ok env (length (daemons st) + i)) \<and>
    list_all (\<lambda>m. m \<noteq> None \<and> length (the m) \<le> length (zero_block env)) (map mgmt_of (mgmt_sections vs)) \<and>
    st' = read_state env vs st"
  using assms
proof (induction vs arbitrary: st)
  case Nil
  then show ?case by (auto simp: read_state_def)
next
  case (Cons v vs)
  show ?case
  proof (cases v)
    case (V_Daemons obj)
    let ?st = "st\<lparr>daemons := daemons st @ map daemon_of obj\<rparr>"
    have "run_visits env (v # vs) st = Inr (0, st') \<longleftrightarrow>
        sysd_process_daemons env obj st = Inr (0, ?st) \<and> run_visits env vs ?st = Inr (0, st')"
      by (auto simp: V_Daemons bindE_eq_Inr process_daemons_iff split: if_splits)
    moreover have "run_visits env vs ?st = Inr (0, st') \<longleftrightarrow>
      list_all entry_ok (entries vs) \<and> (\<forall>i < length (entries vs). calloc_ok env (length (daemons ?st) + i)) \<and>
      list_all (\<lambda>m. m \<noteq> None \<and> length (the m) \<le> length (zero_block env)) (map mgmt_of (mgmt_sections vs)) \<and>
      st' = read_state env vs ?st"
      using Cons.prems by (intro Cons.IH) (simp_all add: V_Daemons)
    moreover have "read_state env vs ?st = read_state env (v # vs) st"
      by (simp add: read_state_def V_Daemons)
    ultimately show ?thesis
      by (simp add: V_Daemons process_daemons_iff add.assoc all_less_add [of "length obj"]) blast
  next
    case (V_Mgmt obj)
    then have vs: "mgmt_sections vs = []" and no: "\<not> is_mgmt_intf_present st" using Cons.prems by simp_all
    show ?thesis
    proof (cases "mgmt_of obj")
      case None
      with no show ?thesis by (simp add: V_Mgmt process_mgmt_eq mgmt_result_def del: sysd_process_mgmt_intf.simps)
    next
      case (Some s)
      have "read_state env vs (set_mgmt env s st) = read_state env (v # vs) st"
        by (simp add: read_state_def V_Mgmt vs Some set_mgmt_def)
      moreover have "daemons (set_mgmt env s st) = daemons st" by (simp add: set_mgmt_def)
      ultimately show ?thesis
        using Cons.IH [of "set_mgmt env s st"]
        by (simp add: V_Mgmt process_mgmt_eq Some vs del: sysd_process_mgmt_intf.simps)
    qed
  qed
qed

lemma list_all_sections:
  assumes "sections_seen vs = sections_seen ws"
  shows "list_all (\<lambda>obj. tagged ''intf'' obj \<le> 1) (mgmt_sections vs) \<longleftrightarrow> list_all (\<lambda>obj. tagged ''intf'' obj \<le> 1) (mgmt_sections ws)"
  using list_all_mset [OF assms [unfolded sections_seen_def], of "\<lambda>b. size (filter_mset (\<lambda>m. prefix ''intf'' (fst m)) b) \<le> 1"]
  unfolding comp_def tagged_view [of _ _ str_of, symmetric] .

lemma reordered_sym: "reordered j j' \<Longrightarrow> reordered j' j"
proof (induction rule: reordered.induct)
  case (reordered_members ms ms')
  then have "list_all2 (rel_prod (=) reordered) ms' ms"
    by (subst list.rel_flip [symmetric]) (auto elim!: list_all2_mono)
  then show ?case by (rule reordered.reordered_members)
next
  case (reordered_elems js js')
  then have "list_all2 reordered js' js"
    by (subst list.rel_flip [symmetric]) (auto elim!: list_all2_mono)
  then show ?case by (rule reordered.reordered_elems)
qed (auto intro: reordered.intros)

lemma reordered_unambiguous:
  assumes "reordered j j'" "unambiguous j"
  shows "unambiguous j'"
proof -
  have seen: "daemons_seen (visits j) = daemons_seen (visits j')" "sections_seen (visits j) = sections_seen (visits j')"
    using reordered_same_doc [OF assms(1)] by (simp_all add: same_doc_def same_seen_def)
  with assms(2) show ?thesis
    using entries_seen(3) [OF seen(1)] list_all_sections [OF seen(2)] sections_match [OF seen(2)]
    by (simp add: unambiguous_def)
qed

section \<open>Reading in any order\<close>

lemma read_reordered:
  assumes "reordered j j'" "unambiguous j" "sysd_read_manifest_file env (Some j) manifest_init = Inr (0, st)"
  shows "\<exists>st'. sysd_read_manifest_file env (Some j') manifest_init = Inr (0, st') \<and>
    mset (daemons st') = mset (daemons st) \<and> num_hw_daemons st' = num_hw_daemons st \<and>
    mgmt_intf st' = mgmt_intf st \<and> is_mgmt_intf_present st' = is_mgmt_intf_present st"
proof -
  have doc: "same_doc j j'" using reordered_same_doc [OF assms(1)] .
  then have seen: "daemons_seen (visits j) = daemons_seen (visits j')" "sections_seen (visits j) = sections_seen (visits j')"
    by (simp_all add: same_doc_def same_seen_def)
  have un: "list_all (\<lambda>e. tagged ''is_hw_handler'' (entry_obj (snd e)) \<le> 1) (entries (visits j))" "length (mgmt_sections (visits j)) \<le> 1"
    "list_all (\<lambda>obj. tagged ''intf'' obj \<le> 1) (mgmt_sections (visits j))"
    using assms(2) by (simp_all add: unambiguous_def)
  note ent = entries_seen [OF seen(1)]
  note secs = sections_match [OF seen(2) un(2,3)]
  obtain st1 where run: "run_visits env (visits j) manifest_init = Inr (0, st1)" "st = sysd_set_num_hw_daemons st1"
    using assms(3) by (auto simp: read_success)
  have start: "mgmt_sections (visits d) = [] \<or> \<not> is_mgmt_intf_present manifest_init" for d
    by (simp add: manifest_init_def)
  let ?st = "read_state env (visits j') manifest_init"
  note run1 = run(1) [unfolded run_visits_iff [OF un(2) start]]
  then have st1: "st1 = read_state env (visits j) manifest_init" by blast
  have ok: "run_visits env (visits j') manifest_init = Inr (0, ?st)"
    unfolding run_visits_iff [OF conjunct2 [OF secs] start] using run1 secs ent(1,2) by simp
  have top: "\<exists>ms. j' = JObject ms \<or> (\<exists>js. j' = JArray js)"
    using assms(3) doc by (cases j; cases j') (auto simp: read_success same_doc_def)
  have tables: "mset (daemons ?st) = mset (daemons st1)" "mgmt_intf ?st = mgmt_intf st1"
    "is_mgmt_intf_present ?st = is_mgmt_intf_present st1"
    using secs ent(4) [OF un(1)]
    by (auto simp: st1 read_state_def Let_def manifest_init_def set_mgmt_def split: list.splits)
  have "length (filter d_is_hw_handler (daemons ?st)) = length (filter d_is_hw_handler (daemons st1))"
    using tables(1) by (metis mset_filter size_mset)
  with tables ok top show ?thesis
    by (auto simp: read_success run(2) sysd_set_num_hw_daemons_def)
qed

text \<open>
  Claim C29. The order in which the JSON library's hash tables are traversed does not matter: however
  the members of the objects of an unambiguous manifest are permuted, at any depth and with whatever else the
  document holds, it is read successfully in all orders or in none, and then with the same daemons (the order
  of the table apart), the same count of hardware daemons and the same management interface.
\<close>

theorem manifest_any_hash_order:
  assumes "reordered j j'" "unambiguous j"
  shows "((\<exists>st. sysd_read_manifest_file env (Some j) manifest_init = Inr (0, st)) \<longleftrightarrow>
          (\<exists>st'. sysd_read_manifest_file env (Some j') manifest_init = Inr (0, st'))) \<and>
    (\<forall>st st'. sysd_read_manifest_file env (Some j) manifest_init = Inr (0, st) \<and>
       sysd_read_manifest_file env (Some j') manifest_init = Inr (0, st') \<longrightarrow>
       mset (daemons st') = mset (daemons st) \<and> num_hw_daemons st' = num_hw_daemons st \<and>
       mgmt_intf st' = mgmt_intf st \<and> is_mgmt_intf_present st' = is_mgmt_intf_present st)"
  using read_reordered [OF assms] read_reordered [OF reordered_sym [OF assms(1)] reordered_unambiguous [OF assms]]
  by fastforce

theorem manifest_any_hash_order_witness:
  "\<exists>st'. sysd_read_manifest_file roomy_env
      (Some (JObject [(''mgmt_intf'', JObject [(''intf'', JString ''eth0'')]), (''daemons'', JObject (rev image_daemons))]))
      manifest_init = Inr (0, st') \<and>
    mset (daemons st') = mset (map daemon_of image_daemons) \<and> num_hw_daemons st' = 6"
proof -
  let ?mgmt = "(''mgmt_intf'', JObject [(''intf'', JString ''eth0'')])"
  let ?j = "JObject [?mgmt, (''daemons'', JObject (rev image_daemons))]"
  have "reordered (JObject image_daemons) (JObject (rev image_daemons))" by (rule reordered_perm) simp
  then have "reordered (JObject [?mgmt, (''daemons'', JObject image_daemons)]) ?j"
    by (intro reordered_members) (simp add: reordered_refl)
  then have "reordered image_manifest ?j"
    unfolding image_manifest_def by (rule reordered_trans [OF reordered_perm, rotated]) simp
  moreover have "unambiguous image_manifest" by code_simp
  ultimately show ?thesis
    using manifest_any_hash_order [of image_manifest ?j roomy_env] image_manifest_reads by fastforce
qed

end
