(* ===== verification/Sw_Info.thy ===== *)
theory Sw_Info
  imports Ovs_Lib
begin

text \<open>
  Software information from \<open>/etc/os-release\<close> (\<open>sysd_update_sw_info\<close> in
  \<open>src/sysd_ovsdb_if.c\<close>): the line scanner with its three keys, and the two columns of the System
  row it writes. The properties render an os-release file from its assignments and show what the
  scanner stores.
\<close>

section \<open>The scanner\<close>

abbreviation NSTR :: nat where "NSTR \<equiv> 80"

text \<open>\<open>getline\<close>: the lines of a file, each with its newline; the last one may lack it.\<close>

fun getlines_from :: "string \<Rightarrow> string \<Rightarrow> string list" where
  "getlines_from acc [] = (if acc = [] then [] else [rev acc])"
| "getlines_from acc (c # cs) =
     (if c = CHR 0x0A then rev (c # acc) # getlines_from [] cs else getlines_from (c # acc) cs)"

definition getlines :: "string \<Rightarrow> string list" where
  "getlines file = getlines_from [] file"

record 'm sw_state =
  sw_smap :: 'm
  version_id :: string
  build_id :: string

text \<open>
  One line: cut at the first \<open>=\<close>, the white space at the end of the value stripped, then the three
  keys in the order the code tries them. \<open>strncpy\<close> with \<open>NSTR - 1\<close> and the explicit terminator
  keep 79 characters.
\<close>

definition sw_line :: "('db, 'm) ovs_lib \<Rightarrow> string \<Rightarrow> 'm sw_state \<Rightarrow> 'm sw_state" where
  "sw_line L line st =
     (case strchr_split (CHR ''='') (cstr line) of
        None \<Rightarrow> st
      | Some (name, rest) \<Rightarrow>
          (let value = rstrip rest
           in if name = ''NAME'' \<and> value \<noteq> [] then st\<lparr>sw_smap := smap_add L ''os_name'' value (sw_smap st)\<rparr>
              else if name = ''VERSION_ID'' then st\<lparr>version_id := take (NSTR - 1) value\<rparr>
              else if name = ''BUILD_ID'' then st\<lparr>build_id := take (NSTR - 1) value\<rparr>
              else st))"

definition sw_scan :: "('db, 'm) ovs_lib \<Rightarrow> string \<Rightarrow> 'm sw_state" where
  "sw_scan L file =
     fold (sw_line L) (getlines file) \<lparr>sw_smap = smap_init L, version_id = [], build_id = []\<rparr>"

definition switch_version_str :: "string \<Rightarrow> string \<Rightarrow> string" where
  "switch_version_str vid bid = snprintf_str NSTR (vid @ '' (Build: '' @ bid @ '')'')"

text \<open>
  \<open>sysd_update_sw_info\<close>: \<open>file\<close> is the contents of the release file, absent when it cannot be
  opened; \<open>cfg\<close> is the System row.
\<close>

definition sysd_update_sw_info ::
  "('db, 'm) ovs_lib \<Rightarrow> string option \<Rightarrow> row \<Rightarrow> 'db \<Rightarrow> 'db" where
  "sysd_update_sw_info L file cfg db =
     (case file of
        None \<Rightarrow> db
      | Some text \<Rightarrow>
          (let st = sw_scan L text;
               db1 = (if smap_keys L (sw_smap st) \<noteq> []
                      then idl_set L cfg ''software_info'' (VSmap (sw_smap st)) db else db)
           in if build_id st \<noteq> [] \<and> version_id st \<noteq> []
              then idl_set L cfg ''switch_version'' (VStr (switch_version_str (version_id st) (build_id st))) db1
              else db1))"

section \<open>Files made of assignments\<close>

fun wf_assignment :: "string \<times> string \<Rightarrow> bool" where
  "wf_assignment (k, v) \<longleftrightarrow>
     CHR ''='' \<notin> set k \<and> CHR 0x0A \<notin> set k \<and> CHR 0x00 \<notin> set k \<and>
     CHR 0x0A \<notin> set v \<and> CHR 0x00 \<notin> set v \<and> (v = [] \<or> \<not> isspace (last v))"

fun render_line :: "string \<times> string \<Rightarrow> string" where
  "render_line (k, v) = k @ ''='' @ v @ [CHR 0x0A]"

definition render :: "(string \<times> string) list \<Rightarrow> string" where
  "render kvs = concat (map render_line kvs)"

text \<open>The value of the last assignment to a key.\<close>

definition last_value :: "string \<Rightarrow> (string \<times> string) list \<Rightarrow> string" where
  "last_value k kvs = (case map_of (rev kvs) k of None \<Rightarrow> [] | Some v \<Rightarrow> v)"

lemma last_value_Nil [simp]: "last_value k [] = []"
  by (simp add: last_value_def)

lemma last_value_snoc: "last_value k (kvs @ [(k', v)]) = (if k' = k then v else last_value k kvs)"
  by (simp add: last_value_def)

lemma getlines_line:
  "CHR 0x0A \<notin> set a \<Longrightarrow> getlines_from acc (a @ CHR 0x0A # b) = (rev acc @ a @ [CHR 0x0A]) # getlines_from [] b"
  by (induction a arbitrary: acc) auto

lemma getlines_render: "list_all wf_assignment kvs \<Longrightarrow> getlines (render kvs) = map render_line kvs"
proof (induction kvs)
  case Nil
  then show ?case by (simp add: getlines_def render_def)
next
  case (Cons kv kvs)
  obtain k v where kv: "kv = (k, v)" by (cases kv)
  have "CHR 0x0A \<notin> set (k @ ''='' @ v)" using Cons.prems kv by auto
  from getlines_line [OF this, of "[]" "render kvs"] Cons kv show ?case
    by (simp add: getlines_def render_def)
qed

fun apply_assignment :: "('db, 'm) ovs_lib \<Rightarrow> string \<times> string \<Rightarrow> 'm sw_state \<Rightarrow> 'm sw_state" where
  "apply_assignment L (k, v) st =
     (if k = ''NAME'' \<and> v \<noteq> [] then st\<lparr>sw_smap := smap_add L ''os_name'' v (sw_smap st)\<rparr>
      else if k = ''VERSION_ID'' then st\<lparr>version_id := take 79 v\<rparr>
      else if k = ''BUILD_ID'' then st\<lparr>build_id := take 79 v\<rparr> else st)"

lemma sw_line_render: "wf_assignment kv \<Longrightarrow> sw_line L (render_line kv) st = apply_assignment L kv st"
proof (cases kv)
  case (Pair k v)
  assume wf: "wf_assignment kv"
  have "cstr (render_line kv) = k @ CHR ''='' # v @ [CHR 0x0A]"
    using wf Pair by (simp add: cstr_simps)
  moreover have "rstrip (v @ [CHR 0x0A]) = v"
    using wf Pair by (intro rstrip_append_spaces) (auto simp: isspace_def)
  ultimately show ?thesis
    using wf Pair by (simp add: sw_line_def cstr_simps)
qed

lemma sw_scan_render:
  assumes "list_all wf_assignment kvs"
  shows "sw_scan L (render kvs) =
    fold (apply_assignment L) kvs \<lparr>sw_smap = smap_init L, version_id = [], build_id = []\<rparr>"
proof -
  have "fold (sw_line L) (map render_line kvs) st = fold (apply_assignment L) kvs st" for st
    using assms by (induction kvs arbitrary: st) (auto simp: sw_line_render)
  then show ?thesis by (simp add: sw_scan_def getlines_render [OF assms])
qed

lemma scan_versions:
  "version_id (fold (apply_assignment L) kvs \<lparr>sw_smap = m, version_id = [], build_id = []\<rparr>) =
     take 79 (last_value ''VERSION_ID'' kvs)"
  "build_id (fold (apply_assignment L) kvs \<lparr>sw_smap = m, version_id = [], build_id = []\<rparr>) =
     take 79 (last_value ''BUILD_ID'' kvs)"
  by (induction kvs rule: rev_induct) (auto simp: last_value_snoc split: prod.splits)

text \<open>The assignments that give the OS a name: the scanner drops empty ones.\<close>

definition os_names :: "(string \<times> string) list \<Rightarrow> string list" where
  "os_names kvs = map snd (filter (\<lambda>kv. fst kv = ''NAME'' \<and> snd kv \<noteq> []) kvs)"

abbreviation scanned :: "('db, 'm) ovs_lib \<Rightarrow> (string \<times> string) list \<Rightarrow> 'm sw_state" where
  "scanned L kvs \<equiv> fold (apply_assignment L) kvs \<lparr>sw_smap = smap_init L, version_id = [], build_id = []\<rparr>"

context smap_lib
begin

lemma scan_smap:
  assumes "length (os_names kvs) \<le> 1"
  shows "smap_get L (sw_smap (scanned L kvs)) ''os_name'' = (if os_names kvs = [] then None else Some (hd (os_names kvs))) \<and>
         distinct (smap_keys L (sw_smap (scanned L kvs))) \<and>
         (smap_keys L (sw_smap (scanned L kvs)) = [] \<longleftrightarrow> os_names kvs = [])"
  using assms
proof (induction kvs rule: rev_induct)
  case Nil
  then show ?case by (simp add: keys_init os_names_def)
next
  case (snoc kv kvs)
  obtain k v where kv: "kv = (k, v)" by (cases kv)
  show ?case
  proof (cases "k = ''NAME'' \<and> v \<noteq> []")
    case True
    then have none: "os_names kvs = []" using snoc.prems kv by (simp add: os_names_def)
    then have "smap_keys L (sw_smap (scanned L kvs)) = []" using snoc.IH by simp
    moreover have "os_names (kvs @ [kv]) = [v]" using True none kv by (simp add: os_names_def)
    moreover have "smap_keys L (smap_add L ''os_name'' v (sw_smap (scanned L kvs))) \<noteq> []"
      using set_keys_add [of "''os_name''" v "sw_smap (scanned L kvs)"] by force
    ultimately show ?thesis
      using True kv by (auto simp: get_add distinct_keys_add)
  next
    case False
    then have "sw_smap (apply_assignment L kv (scanned L kvs)) = sw_smap (scanned L kvs)"
      by (auto simp: kv)
    moreover have "os_names (kvs @ [kv]) = os_names kvs" using False kv by (auto simp: os_names_def)
    ultimately show ?thesis using snoc by simp
  qed
qed

end

section \<open>What the System row gets\<close>

context ovs_idl
begin

lemma sw_info_stored:
  assumes "list_all wf_assignment kvs" "length (os_names kvs) \<le> 1"
  shows "get_str L cfg ''switch_version'' (sysd_update_sw_info L (Some (render kvs)) cfg db) =
           (if last_value ''VERSION_ID'' kvs \<noteq> [] \<and> last_value ''BUILD_ID'' kvs \<noteq> []
            then Some (take 79 (take 79 (last_value ''VERSION_ID'' kvs) @ '' (Build: '' @
                                take 79 (last_value ''BUILD_ID'' kvs) @ '')''))
            else get_str L cfg ''switch_version'' db)"
    and "os_names kvs \<noteq> [] \<Longrightarrow>
         smap_get L (get_smap L cfg ''software_info'' (sysd_update_sw_info L (Some (render kvs)) cfg db))
           ''os_name'' = Some (hd (os_names kvs))"
proof -
  note scanned = sw_scan_render [OF assms(1), of L] scan_versions [of L kvs "smap_init L"]
  from scan_smap [OF assms(2)] have keys:
    "distinct (smap_keys L (sw_smap (scanned L kvs)))"
    "smap_keys L (sw_smap (scanned L kvs)) = [] \<longleftrightarrow> os_names kvs = []"
    "os_names kvs \<noteq> [] \<Longrightarrow> smap_get L (sw_smap (scanned L kvs)) ''os_name'' = Some (hd (os_names kvs))"
    by auto
  show "get_str L cfg ''switch_version'' (sysd_update_sw_info L (Some (render kvs)) cfg db) =
           (if last_value ''VERSION_ID'' kvs \<noteq> [] \<and> last_value ''BUILD_ID'' kvs \<noteq> []
            then Some (take 79 (take 79 (last_value ''VERSION_ID'' kvs) @ '' (Build: '' @
                                take 79 (last_value ''BUILD_ID'' kvs) @ '')''))
            else get_str L cfg ''switch_version'' db)"
    by (simp add: sysd_update_sw_info_def scanned Let_def switch_version_str_def snprintf_str_def idl_simps)
  show "smap_get L (get_smap L cfg ''software_info'' (sysd_update_sw_info L (Some (render kvs)) cfg db))
           ''os_name'' = Some (hd (os_names kvs))" if "os_names kvs \<noteq> []"
    using keys that by (simp add: sysd_update_sw_info_def scanned Let_def idl_simps)
qed

lemma sw_info_frame:
  "r \<noteq> cfg \<or> c \<notin> {''software_info'', ''switch_version''} \<Longrightarrow>
   idl_get L r c (sysd_update_sw_info L file cfg db) = idl_get L r c db"
  by (auto simp: sysd_update_sw_info_def Let_def get_set_other split: option.split)

end

text \<open>
  Claim C31. From a release file made of assignments the daemon stores the last version and build
  identifiers, each cut to 79 characters and the whole to 79, when both are present, and the OS
  name, when one is given; every other column of every row keeps its value.
\<close>

theorem os_release_stored:
  assumes "ovs_idl L" "list_all wf_assignment kvs" "length (os_names kvs) \<le> 1"
  shows "get_str L cfg ''switch_version'' (sysd_update_sw_info L (Some (render kvs)) cfg db) =
           (if last_value ''VERSION_ID'' kvs \<noteq> [] \<and> last_value ''BUILD_ID'' kvs \<noteq> []
            then Some (take 79 (take 79 (last_value ''VERSION_ID'' kvs) @ '' (Build: '' @
                                take 79 (last_value ''BUILD_ID'' kvs) @ '')''))
            else get_str L cfg ''switch_version'' db) \<and>
         (os_names kvs \<noteq> [] \<longrightarrow>
          smap_get L (get_smap L cfg ''software_info'' (sysd_update_sw_info L (Some (render kvs)) cfg db))
            ''os_name'' = Some (hd (os_names kvs))) \<and>
         (\<forall>r c. r \<noteq> cfg \<or> c \<notin> {''software_info'', ''switch_version''} \<longrightarrow>
          idl_get L r c (sysd_update_sw_info L (Some (render kvs)) cfg db) = idl_get L r c db)"
  using assms ovs_idl.sw_info_stored [OF assms] ovs_idl.sw_info_frame [OF assms(1)] by blast

theorem os_release_stored_witness:
  "get_str mem_lib 1 ''switch_version'' (sysd_update_sw_info mem_lib
      (Some (render [(''NAME'', ''ops''), (''VERSION_ID'', ''0.3''), (''BUILD_ID'', ''7 b'')])) 1 mem_init)
     = Some ''0.3 (Build: 7 b)'' \<and>
   smap_get mem_lib (get_smap mem_lib 1 ''software_info'' (sysd_update_sw_info mem_lib
      (Some (render [(''NAME'', ''ops''), (''VERSION_ID'', ''0.3''), (''BUILD_ID'', ''7 b'')])) 1 mem_init))
     ''os_name'' = Some ''ops''"
proof -
  let ?kvs = "[(''NAME'', ''ops''), (''VERSION_ID'', ''0.3''), (''BUILD_ID'', ''7 b'')]"
  have "list_all wf_assignment ?kvs" "os_names ?kvs = [''ops'']"
    by (simp_all add: isspace_def os_names_def)
  moreover have "last_value ''VERSION_ID'' ?kvs = ''0.3''" "last_value ''BUILD_ID'' ?kvs = ''7 b''"
    by (simp_all add: last_value_def)
  ultimately show ?thesis
    using os_release_stored [OF mem_db.ovs_idl_axioms, of ?kvs 1 mem_init] by simp
qed

end
