(* ===== verification/Pkg_Info.thy ===== *)
theory Pkg_Info
  imports Prelude
begin

text \<open>
  The package table: \<open>package_info_mapping_check_key\<close> and \<open>sysd_add_package_info\<close> of
  \<open>src/sysd_ovsdb_if.c\<close>, a state machine over the events of a YAML parser that writes one row per
  package and commits every 2000 packages. The parser's events and the success of each insertion
  are arguments; what the code does to the database is the list of library calls it makes. The
  properties are the calls made for a well-formed file, the streams on which every call is legal, with
  the pairing of every transaction's creation with its destruction, and the crash on a file that starts
  with an attribute.
\<close>

section \<open>Keys and events\<close>

datatype pkg_key = VALUE | PKG | PV | SRCREV | SRC_URL | PTYPE

text \<open>The keys with their words, in the order of the enumeration from \<open>PKG\<close> on.\<close>

definition keystr_pkg_info :: "(pkg_key \<times> string) list" where
  "keystr_pkg_info =
     [(PKG, ''PKG''), (PV, ''PV''), (SRCREV, ''SRCREV''), (SRC_URL, ''SRC_URL''), (PTYPE, ''TYPE'')]"

fun check_key_from :: "(pkg_key \<times> string) list \<Rightarrow> string option \<Rightarrow> pkg_key" where
  "check_key_from [] data = VALUE"
| "check_key_from ((k, w) # ks) data = (if data = Some w then k else check_key_from ks data)"

definition package_info_mapping_check_key :: "string option \<Rightarrow> pkg_key" where
  "package_info_mapping_check_key data = check_key_from keystr_pkg_info data"

text \<open>
  \<open>yaml_parser_parse\<close> delivers scalars, the end of the stream and other events. A list of events
  that ends without \<open>Stream_End\<close> is a parse error.
\<close>

datatype yaml_event = Scalar "string option" | Stream_End | Other_Event

section \<open>Library calls\<close>

datatype pkg_call =
    Txn_Create | Row_Insert | Set_Name "string option" | Set_Version "string option"
  | Set_Src_Url "string option" | Set_Src_Type "string option" | Txn_Commit_Block | Txn_Destroy

text \<open>
  A call the library does not accept: a second transaction while one is open, an insertion without
  a transaction, a column set through a null row or through a row whose transaction has been
  destroyed.
\<close>

datatype pkg_misuse = Txn_Nested | Txn_Null | Row_Null | Row_Stale

datatype row_ptr = Row_None | Row_Live | Row_Old

record pkg_state =
  current_state :: pkg_key
  record_count :: nat
  open_txn :: bool
  row_of :: row_ptr
  inserted :: nat
  calls :: "pkg_call list"

definition pkg_start :: pkg_state where
  "pkg_start = \<lparr>current_state = VALUE, record_count = 0, open_txn = False, row_of = Row_None,
                inserted = 0, calls = []\<rparr>"

text \<open>An event either lets the loop go on or ends the function.\<close>

datatype pkg_outcome = Go pkg_state | Ret "pkg_call list"

abbreviation PKG_INFO_ENTRIES_PER_COMMIT :: nat where
  "PKG_INFO_ENTRIES_PER_COMMIT \<equiv> 2000"

definition call :: "pkg_call \<Rightarrow> pkg_state \<Rightarrow> pkg_state" where
  "call c s = s\<lparr>calls := calls s @ [c]\<rparr>"

definition txn_create :: "pkg_state \<Rightarrow> pkg_misuse + pkg_state" where
  "txn_create s = (if open_txn s then Inl Txn_Nested else Inr (call Txn_Create (s\<lparr>open_txn := True\<rparr>)))"

definition set_col :: "pkg_call \<Rightarrow> pkg_state \<Rightarrow> pkg_misuse + pkg_state" where
  "set_col c s = (case row_of s of Row_None \<Rightarrow> Inl Row_Null | Row_Old \<Rightarrow> Inl Row_Stale
                  | Row_Live \<Rightarrow> Inr (call c s))"

section \<open>The state machine\<close>

text \<open>
  A value under \<open>PKG\<close>: a transaction is created when the count of finished packages is a multiple
  of 2000, then a row is inserted; \<open>ins\<close> tells which insertions succeed. A failed one ends the
  function after destroying the transaction.
\<close>

definition value_pkg :: "(nat \<Rightarrow> bool) \<Rightarrow> string option \<Rightarrow> pkg_state \<Rightarrow> pkg_misuse + pkg_outcome" where
  "value_pkg ins v s =
     bindE (if record_count s mod PKG_INFO_ENTRIES_PER_COMMIT = 0 then txn_create s else Inr s)
       (\<lambda>s1. if \<not> open_txn s1 then Inl Txn_Null
             else if \<not> ins (inserted s1) then Inr (Ret (calls s1 @ [Row_Insert, Txn_Destroy]))
             else bindE (set_col (Set_Name v)
                           (call Row_Insert (s1\<lparr>row_of := Row_Live, inserted := Suc (inserted s1)\<rparr>)))
                    (\<lambda>s2. Inr (Go s2)))"

definition close_txn :: "pkg_state \<Rightarrow> pkg_state" where
  "close_txn s = s\<lparr>open_txn := False, calls := calls s @ [Txn_Commit_Block, Txn_Destroy],
                   row_of := (if row_of s = Row_Live then Row_Old else row_of s)\<rparr>"

definition value_type :: "string option \<Rightarrow> pkg_state \<Rightarrow> pkg_misuse + pkg_state" where
  "value_type v s =
     bindE (set_col (Set_Src_Type v) (s\<lparr>record_count := Suc (record_count s)\<rparr>))
       (\<lambda>s1. if record_count s1 mod PKG_INFO_ENTRIES_PER_COMMIT = 0
             then (if open_txn s1 then Inr (close_txn s1) else Inl Txn_Null) else Inr s1)"

definition pkg_value :: "(nat \<Rightarrow> bool) \<Rightarrow> string option \<Rightarrow> pkg_state \<Rightarrow> pkg_misuse + pkg_outcome" where
  "pkg_value ins v s =
     (case current_state s of
        VALUE \<Rightarrow> Inr (Go s)
      | PKG \<Rightarrow> value_pkg ins v s
      | PV \<Rightarrow> bindE (set_col (Set_Version v) s) (\<lambda>s1. Inr (Go s1))
      | SRCREV \<Rightarrow> (if v \<noteq> None \<and> v \<noteq> Some ''INVALID''
                   then bindE (set_col (Set_Version v) s) (\<lambda>s1. Inr (Go s1)) else Inr (Go s))
      | SRC_URL \<Rightarrow> bindE (set_col (Set_Src_Url v) s) (\<lambda>s1. Inr (Go s1))
      | PTYPE \<Rightarrow> bindE (value_type v s) (\<lambda>s1. Inr (Go s1)))"

definition pkg_event :: "(nat \<Rightarrow> bool) \<Rightarrow> yaml_event \<Rightarrow> pkg_state \<Rightarrow> pkg_misuse + pkg_outcome" where
  "pkg_event ins ev s =
     (case ev of
        Scalar v \<Rightarrow>
          (let k = package_info_mapping_check_key v
           in if k = VALUE then pkg_value ins v s else Inr (Go (s\<lparr>current_state := k\<rparr>)))
      | _ \<Rightarrow> Inr (Go s))"

text \<open>After the loop an open transaction is committed and destroyed.\<close>

definition pkg_finish :: "pkg_state \<Rightarrow> pkg_call list" where
  "pkg_finish s = calls (if open_txn s then close_txn s else s)"

fun pkg_loop :: "(nat \<Rightarrow> bool) \<Rightarrow> yaml_event list \<Rightarrow> pkg_state \<Rightarrow> pkg_misuse + pkg_call list" where
  "pkg_loop ins [] s = Inr (pkg_finish s)"
| "pkg_loop ins (ev # evs) s =
     bindE (pkg_event ins ev s)
       (\<lambda>r. case r of Ret cs \<Rightarrow> Inr cs
            | Go s1 \<Rightarrow> if ev = Stream_End then Inr (pkg_finish s1) else pkg_loop ins evs s1)"

text \<open>
  The function: \<open>parser_ok\<close> tells whether the parser could be initialised, \<open>file\<close> is the stream of
  events of the version file, absent when it cannot be opened.
\<close>

definition sysd_add_package_info ::
  "(nat \<Rightarrow> bool) \<Rightarrow> bool \<Rightarrow> yaml_event list option \<Rightarrow> pkg_misuse + pkg_call list" where
  "sysd_add_package_info ins parser_ok file =
     (if \<not> parser_ok then Inr []
      else case file of None \<Rightarrow> Inr [] | Some evs \<Rightarrow> pkg_loop ins evs pkg_start)"

section \<open>Well-formed version files\<close>

text \<open>A package: its name, its attributes in any order and number, and last its type.\<close>

record package =
  p_name :: string
  p_attrs :: "(pkg_key \<times> string) list"
  p_type :: string

definition is_value :: "string \<Rightarrow> bool" where
  "is_value v \<longleftrightarrow> v \<notin> snd ` set keystr_pkg_info"

definition word_of :: "pkg_key \<Rightarrow> string" where
  "word_of k = (case map_of keystr_pkg_info k of Some w \<Rightarrow> w | None \<Rightarrow> [])"

definition wf_attr :: "pkg_key \<times> string \<Rightarrow> bool" where
  "wf_attr kv \<longleftrightarrow> fst kv \<in> {PV, SRCREV, SRC_URL} \<and> is_value (snd kv)"

definition wf_package :: "package \<Rightarrow> bool" where
  "wf_package p \<longleftrightarrow> is_value (p_name p) \<and> list_all wf_attr (p_attrs p) \<and> is_value (p_type p)"

abbreviation kv_events :: "pkg_key \<Rightarrow> string \<Rightarrow> yaml_event list" where
  "kv_events k v \<equiv> [Scalar (Some (word_of k)), Scalar (Some v)]"

definition package_events :: "package \<Rightarrow> yaml_event list" where
  "package_events p = kv_events PKG (p_name p) @
     concat (map (\<lambda>(k, v). kv_events k v) (p_attrs p)) @ kv_events PTYPE (p_type p)"

text \<open>The calls a package should give.\<close>

fun attr_calls :: "pkg_key \<times> string \<Rightarrow> pkg_call list" where
  "attr_calls (k, v) = (if k = PV \<or> k = SRCREV \<and> v \<noteq> ''INVALID'' then [Set_Version (Some v)]
                        else if k = SRC_URL then [Set_Src_Url (Some v)] else [])"

definition package_calls :: "package \<Rightarrow> pkg_call list" where
  "package_calls p = [Row_Insert, Set_Name (Some (p_name p))] @
     concat (map attr_calls (p_attrs p)) @ [Set_Src_Type (Some (p_type p))]"

text \<open>The specification: one transaction for every 2000 packages.\<close>

function batches :: "package list \<Rightarrow> pkg_call list" where
  "batches ps = (if ps = [] then []
     else Txn_Create # concat (map package_calls (take 2000 ps)) @ [Txn_Commit_Block, Txn_Destroy] @
          batches (drop 2000 ps))"
  by auto
termination by (relation "measure length") auto

declare batches.simps [simp del]

section \<open>Running the events of packages\<close>

lemma check_key_word: "k \<noteq> VALUE \<Longrightarrow> package_info_mapping_check_key (Some (word_of k)) = k"
  by (cases k) (simp_all add: package_info_mapping_check_key_def keystr_pkg_info_def word_of_def)

lemma check_key_value: "is_value v \<Longrightarrow> package_info_mapping_check_key (Some v) = VALUE"
  by (auto simp: package_info_mapping_check_key_def keystr_pkg_info_def is_value_def)

text \<open>A run of the loop without end of stream that does not return.\<close>

fun pkg_run :: "(nat \<Rightarrow> bool) \<Rightarrow> yaml_event list \<Rightarrow> pkg_state \<Rightarrow> pkg_state option" where
  "pkg_run ins [] s = Some s"
| "pkg_run ins (ev # evs) s =
     (case pkg_event ins ev s of Inr (Go s1) \<Rightarrow> pkg_run ins evs s1 | _ \<Rightarrow> None)"

lemma pkg_run_append:
  "pkg_run ins (a @ b) s = (case pkg_run ins a s of None \<Rightarrow> None | Some s1 \<Rightarrow> pkg_run ins b s1)"
  by (induction a arbitrary: s) (auto split: sum.split pkg_outcome.split)

lemma pkg_loop_run:
  "pkg_run ins evs s = Some s1 \<Longrightarrow> Stream_End \<notin> set evs \<Longrightarrow>
   pkg_loop ins (evs @ rest) s = pkg_loop ins rest s1"
  by (induction evs arbitrary: s) (auto split: sum.splits pkg_outcome.splits)

lemma run_other: "pkg_run ins (filter (\<lambda>e. e \<noteq> Other_Event) evs) s = pkg_run ins evs s"
  by (induction evs arbitrary: s) (auto simp: pkg_event_def split: sum.split pkg_outcome.split)

lemma run_kv:
  "k \<noteq> VALUE \<Longrightarrow> is_value v \<Longrightarrow>
   pkg_run ins (kv_events k v @ rest) s =
     (case pkg_value ins (Some v) (s\<lparr>current_state := k\<rparr>) of Inr (Go s1) \<Rightarrow> pkg_run ins rest s1 | _ \<Rightarrow> None)"
  by (simp add: pkg_event_def check_key_word check_key_value)

lemma run_attrs:
  "list_all wf_attr as \<Longrightarrow> row_of s = Row_Live \<Longrightarrow>
   \<exists>k. pkg_run ins (concat (map (\<lambda>(k, v). kv_events k v) as)) s =
     Some (s\<lparr>current_state := k, calls := calls s @ concat (map attr_calls as)\<rparr>)"
proof (induction as arbitrary: s)
  case Nil
  then show ?case by (auto intro: exI [of _ "current_state s"])
next
  case (Cons kv as)
  obtain k v where kv: "kv = (k, v)" by (cases kv)
  let ?s = "s\<lparr>current_state := k, calls := calls s @ attr_calls kv\<rparr>"
  have "k \<noteq> VALUE" "is_value v" "k = PV \<or> k = SRCREV \<or> k = SRC_URL"
    using Cons.prems(1) kv by (auto simp: wf_attr_def)
  then have "pkg_run ins (concat (map (\<lambda>(k, v). kv_events k v) (kv # as))) s =
      pkg_run ins (concat (map (\<lambda>(k, v). kv_events k v) as)) ?s"
    using Cons.prems(2) run_kv [of k v ins _ s]
    by (auto simp: kv pkg_value_def set_col_def call_def)
  moreover have "list_all wf_attr as" "row_of ?s = Row_Live" using Cons.prems by simp_all
  from Cons.IH [OF this] obtain k' where
    "pkg_run ins (concat (map (\<lambda>(k, v). kv_events k v) as)) ?s =
       Some (?s\<lparr>current_state := k', calls := calls ?s @ concat (map attr_calls as)\<rparr>)" by blast
  ultimately show ?case by auto
qed

abbreviation closed :: "nat \<Rightarrow> pkg_call list" where
  "closed n \<equiv> if n mod 2000 = 0 then [Txn_Commit_Block, Txn_Destroy] else []"

abbreviation opened :: "nat \<Rightarrow> pkg_call list" where
  "opened n \<equiv> if n mod 2000 = 0 then [Txn_Create] else []"

text \<open>Between packages the transaction is open exactly when a batch is under way.\<close>

definition between :: "pkg_state \<Rightarrow> bool" where
  "between s \<longleftrightarrow> (open_txn s \<longleftrightarrow> record_count s mod 2000 \<noteq> 0)"

lemma run_package:
  assumes "wf_package p" "between s" "\<forall>i. ins i"
  obtains s1 where "pkg_run ins (package_events p) s = Some s1" "between s1"
    "record_count s1 = Suc (record_count s)"
    "calls s1 = calls s @ opened (record_count s) @ package_calls p @ closed (Suc (record_count s))"
proof -
  have v: "is_value (p_name p)" "is_value (p_type p)" "list_all wf_attr (p_attrs p)"
    using assms(1) by (simp_all add: wf_package_def)
  define a where "a = s\<lparr>current_state := PKG, open_txn := True, row_of := Row_Live,
    inserted := Suc (inserted s),
    calls := calls s @ opened (record_count s) @ [Row_Insert, Set_Name (Some (p_name p))]\<rparr>"
  have "pkg_value ins (Some (p_name p)) (s\<lparr>current_state := PKG\<rparr>) = Inr (Go a)"
    using assms(2,3)
    by (auto simp: a_def between_def pkg_value_def value_pkg_def txn_create_def set_col_def call_def)
  then have "pkg_run ins (kv_events PKG (p_name p)) s = Some a"
    using run_kv [of PKG "p_name p" ins "[]" s] v by simp
  moreover obtain k where "pkg_run ins (concat (map (\<lambda>(k, v). kv_events k v) (p_attrs p))) a =
      Some (a\<lparr>current_state := k, calls := calls a @ concat (map attr_calls (p_attrs p))\<rparr>)"
    using run_attrs [OF v(3), of a ins] by (auto simp: a_def)
  moreover define b where "b = a\<lparr>current_state := k, calls := calls a @ concat (map attr_calls (p_attrs p))\<rparr>"
  define c where "c = (let t = b\<lparr>current_state := PTYPE, record_count := Suc (record_count b),
      calls := calls b @ [Set_Src_Type (Some (p_type p))]\<rparr>
    in if record_count t mod 2000 = 0 then close_txn t else t)"
  have "pkg_value ins (Some (p_type p)) (b\<lparr>current_state := PTYPE\<rparr>) = Inr (Go c)"
    by (simp add: a_def b_def c_def Let_def pkg_value_def value_type_def set_col_def call_def)
  then have "pkg_run ins (kv_events PTYPE (p_type p)) b = Some c"
    using run_kv [of PTYPE "p_type p" ins "[]" b] v by simp
  ultimately have "pkg_run ins (package_events p) s = Some c"
    unfolding package_events_def pkg_run_append b_def by simp
  moreover have "between c" "record_count c = Suc (record_count s)"
    "calls c = calls s @ opened (record_count s) @ package_calls p @ closed (Suc (record_count s))"
    by (simp_all add: a_def b_def c_def Let_def close_txn_def between_def package_calls_def)
  ultimately show ?thesis by (rule that)
qed

fun batch_calls :: "nat \<Rightarrow> package list \<Rightarrow> pkg_call list" where
  "batch_calls n [] = []"
| "batch_calls n (p # ps) = opened n @ package_calls p @ closed (Suc n) @ batch_calls (Suc n) ps"

lemma run_packages:
  assumes "list_all wf_package ps" "between s" "\<forall>i. ins i"
  shows "\<exists>s1. pkg_run ins (concat (map package_events ps)) s = Some s1 \<and> between s1 \<and>
    record_count s1 = record_count s + length ps \<and>
    calls s1 = calls s @ batch_calls (record_count s) ps"
  using assms(1,2)
proof (induction ps arbitrary: s)
  case (Cons p ps)
  then have wf: "wf_package p" "list_all wf_package ps" by simp_all
  from wf(1) Cons.prems(2) assms(3) obtain s1 where s1: "pkg_run ins (package_events p) s = Some s1"
    "between s1" "record_count s1 = Suc (record_count s)"
    "calls s1 = calls s @ opened (record_count s) @ package_calls p @ closed (Suc (record_count s))"
    by (rule run_package)
  from Cons.IH [OF wf(2) s1(2)] s1 show ?case by (auto simp: pkg_run_append)
qed simp

lemma batches_Cons:
  "batches (p # ps) = Txn_Create # package_calls p @ concat (map package_calls (take 1999 ps)) @
     [Txn_Commit_Block, Txn_Destroy] @ batches (drop 1999 ps)"
  by (subst batches.simps) simp

lemma batch_calls_batches:
  "batch_calls n ps @ (if (n + length ps) mod 2000 = 0 then [] else [Txn_Commit_Block, Txn_Destroy]) =
     (if n mod 2000 = 0 then batches ps
      else concat (map package_calls (take (2000 - n mod 2000) ps)) @
           [Txn_Commit_Block, Txn_Destroy] @ batches (drop (2000 - n mod 2000) ps))"
proof (induction ps arbitrary: n)
  case Nil
  then show ?case by (simp add: batches.simps)
next
  case (Cons p ps)
  show ?case
  proof (cases "Suc n mod 2000 = 0")
    case True
    then have "n mod 2000 = 1999" by (simp add: mod_Suc split: if_splits)
    then show ?thesis using Cons [of "Suc n"] True by simp
  next
    case False
    then obtain k where k: "2000 - n mod 2000 = Suc k" "2000 - Suc n mod 2000 = k"
      by (metis Suc_diff_Suc mod_Suc mod_less_divisor zero_less_numeral)
    have "n mod 2000 = 0 \<longleftrightarrow> k = 1999" using k(1) by auto
    then show ?thesis using Cons [of "Suc n"] False k by (simp add: batches_Cons)
  qed
qed

text \<open>
  Claim C20. A version file of well-formed packages, whatever other parser events lie between its
  scalars, is written as specified: for every 2000 packages, and for the rest, one transaction is
  created, each package becomes one row with its columns in order, and the transaction is
  committed and destroyed.
\<close>

theorem package_table_written:
  assumes "list_all wf_package ps" "\<forall>i. ins i" "Stream_End \<notin> set evs"
    and "filter (\<lambda>e. e \<noteq> Other_Event) evs = concat (map package_events ps)"
  shows "sysd_add_package_info ins True (Some (evs @ Stream_End # rest)) = Inr (batches ps)"
proof -
  from run_packages [OF assms(1) _ assms(2), of pkg_start] obtain s1 where
    s1: "pkg_run ins (concat (map package_events ps)) pkg_start = Some s1" "between s1"
    "record_count s1 = length ps" "calls s1 = batch_calls 0 ps"
    by (auto simp: between_def pkg_start_def)
  then have "pkg_run ins evs pkg_start = Some s1" using run_other [of ins evs] assms(4) by simp
  from pkg_loop_run [OF this assms(3)] have
    "pkg_loop ins (evs @ Stream_End # rest) pkg_start = Inr (pkg_finish s1)"
    by (simp add: pkg_event_def)
  moreover have "pkg_finish s1 = batches ps"
    using batch_calls_batches [of 0 ps] s1 by (auto simp: pkg_finish_def close_txn_def between_def)
  ultimately show ?thesis by (simp add: sysd_add_package_info_def)
qed

theorem package_table_written_witness:
  "sysd_add_package_info (\<lambda>_. True) True
     (Some ([Other_Event, Scalar (Some ''PKG''), Scalar (Some ''zlib''), Scalar (Some ''PV''),
        Scalar (Some ''1.2''), Other_Event, Scalar (Some ''TYPE''), Scalar (Some ''git'')] @
        Stream_End # [])) =
   Inr [Txn_Create, Row_Insert, Set_Name (Some ''zlib''), Set_Version (Some ''1.2''),
        Set_Src_Type (Some ''git''), Txn_Commit_Block, Txn_Destroy]"
proof -
  let ?p = "\<lparr>p_name = ''zlib'', p_attrs = [(PV, ''1.2'')], p_type = ''git''\<rparr>"
  have "batches [?p] = [Txn_Create, Row_Insert, Set_Name (Some ''zlib''), Set_Version (Some ''1.2''),
        Set_Src_Type (Some ''git''), Txn_Commit_Block, Txn_Destroy]"
    by (simp add: batches.simps package_calls_def)
  moreover have "wf_package ?p"
    by (simp add: wf_package_def wf_attr_def is_value_def keystr_pkg_info_def)
  ultimately show ?thesis
    using package_table_written [of "[?p]" "\<lambda>_. True"
      "[Other_Event, Scalar (Some ''PKG''), Scalar (Some ''zlib''), Scalar (Some ''PV''),
        Scalar (Some ''1.2''), Other_Event, Scalar (Some ''TYPE''), Scalar (Some ''git'')]" "[]"]
    by (simp add: package_events_def word_of_def keystr_pkg_info_def)
qed

section \<open>Transactions on any stream\<close>

text \<open>The calls use one transaction at a time and leave none open.\<close>

fun txn_paired :: "bool \<Rightarrow> pkg_call list \<Rightarrow> bool" where
  "txn_paired b [] = (\<not> b)"
| "txn_paired b (Txn_Create # cs) = (\<not> b \<and> txn_paired True cs)"
| "txn_paired b (Txn_Destroy # cs) = (b \<and> txn_paired False cs)"
| "txn_paired b (_ # cs) = (b \<and> txn_paired b cs)"

fun txn_after :: "bool \<Rightarrow> pkg_call list \<Rightarrow> bool option" where
  "txn_after b [] = Some b"
| "txn_after b (Txn_Create # cs) = (if b then None else txn_after True cs)"
| "txn_after b (Txn_Destroy # cs) = (if b then txn_after False cs else None)"
| "txn_after b (_ # cs) = (if b then txn_after b cs else None)"

lemma txn_paired_after: "txn_paired b cs \<longleftrightarrow> txn_after b cs = Some False"
  by (induction b cs rule: txn_paired.induct) auto

lemma txn_after_append:
  "txn_after b (cs @ ds) = (case txn_after b cs of None \<Rightarrow> None | Some b1 \<Rightarrow> txn_after b1 ds)"
  by (induction b cs rule: txn_after.induct) auto

definition txn_inv :: "pkg_state \<Rightarrow> bool" where
  "txn_inv s \<longleftrightarrow> txn_after False (calls s) = Some (open_txn s) \<and> (row_of s = Row_Live \<longrightarrow> open_txn s)"

lemma set_col_inv:
  "set_col c s = Inr s1 \<Longrightarrow> txn_inv s \<Longrightarrow> c \<noteq> Txn_Create \<Longrightarrow> c \<noteq> Txn_Destroy \<Longrightarrow> txn_inv s1"
  by (cases c) (auto simp: set_col_def txn_inv_def call_def txn_after_append split: row_ptr.splits)

lemma value_pkg_inv:
  "value_pkg ins v s = Inr r \<Longrightarrow> txn_inv s \<Longrightarrow>
   (case r of Go s1 \<Rightarrow> txn_inv s1 | Ret cs \<Rightarrow> txn_paired False cs)"
  by (auto simp: value_pkg_def bindE_eq_Inr txn_create_def set_col_def call_def txn_inv_def
        txn_paired_after txn_after_append split: if_splits pkg_outcome.splits)

lemma close_txn_inv: "txn_inv s \<Longrightarrow> open_txn s \<Longrightarrow> txn_inv (close_txn s)"
  by (auto simp: txn_inv_def close_txn_def txn_after_append)

lemma value_type_inv: "value_type v s = Inr s1 \<Longrightarrow> txn_inv s \<Longrightarrow> txn_inv s1"
  by (auto simp: value_type_def bindE_eq_Inr split: if_splits intro!: close_txn_inv
        dest!: set_col_inv) (simp_all add: txn_inv_def)

lemma pkg_event_inv:
  "pkg_event ins ev s = Inr r \<Longrightarrow> txn_inv s \<Longrightarrow>
   (case r of Go s1 \<Rightarrow> txn_inv s1 | Ret cs \<Rightarrow> txn_paired False cs)"
  by (auto simp: pkg_event_def pkg_value_def Let_def bindE_eq_Inr
        split: yaml_event.splits pkg_key.splits if_splits
        intro: value_pkg_inv value_type_inv dest: set_col_inv)
     (auto simp: txn_inv_def)

lemma pkg_finish_paired: "txn_inv s \<Longrightarrow> txn_paired False (pkg_finish s)"
  by (auto simp: pkg_finish_def txn_paired_after txn_inv_def close_txn_def txn_after_append)

lemma pkg_loop_paired: "pkg_loop ins evs s = Inr cs \<Longrightarrow> txn_inv s \<Longrightarrow> txn_paired False cs"
proof (induction evs arbitrary: s)
  case Nil
  then show ?case using pkg_finish_paired by auto
next
  case (Cons ev evs)
  from Cons.prems(1) obtain r where r: "pkg_event ins ev s = Inr r"
    and rest: "(case r of Ret cs' \<Rightarrow> Inr cs' | Go s1 \<Rightarrow>
      if ev = Stream_End then Inr (pkg_finish s1) else pkg_loop ins evs s1) = Inr cs"
    by (auto simp: bindE_eq_Inr)
  from pkg_event_inv [OF r Cons.prems(2)] rest show ?case
    by (auto split: pkg_outcome.splits if_splits intro: Cons.IH pkg_finish_paired)
qed

text \<open>
  Which streams make legal calls only. The values of a stream, each with the key it comes under, up to the
  end of the stream; and the order they must have: within a batch \<open>n\<close> packages have their type, \<open>b\<close> tells
  whether the batch has a row. A type or an attribute needs a row in the batch, and after the first
  name of a batch there must be a type before the next name. The attributes of one package may come
  in any order and number, and an invalid revision is not looked at.
\<close>

fun file_values :: "pkg_key \<Rightarrow> yaml_event list \<Rightarrow> (pkg_key \<times> string option) list" where
  "file_values k [] = []"
| "file_values k (Scalar v # evs) =
     (let k' = package_info_mapping_check_key v
      in if k' = VALUE then (k, v) # file_values k evs else file_values k' evs)"
| "file_values k (Stream_End # evs) = []"
| "file_values k (Other_Event # evs) = file_values k evs"

fun next_place :: "nat \<Rightarrow> bool \<Rightarrow> pkg_key \<times> string option \<Rightarrow> (nat \<times> bool) option" where
  "next_place n b (PKG, v) = (if b \<longrightarrow> n \<noteq> 0 then Some (n, True) else None)"
| "next_place n b (PTYPE, v) = (if b then Some (if Suc n = 2000 then (0, False) else (Suc n, True)) else None)"
| "next_place n b (SRCREV, v) = (if v \<noteq> None \<and> v \<noteq> Some ''INVALID'' \<longrightarrow> b then Some (n, b) else None)"
| "next_place n b (VALUE, v) = Some (n, b)"
| "next_place n b (k, v) = (if b then Some (n, b) else None)"

fun in_order :: "nat \<Rightarrow> bool \<Rightarrow> (pkg_key \<times> string option) list \<Rightarrow> bool" where
  "in_order n b [] = True"
| "in_order n b (kv # vs) = (case next_place n b kv of None \<Rightarrow> False | Some (n', b') \<Rightarrow> in_order n' b' vs)"

definition file_in_order :: "yaml_event list option \<Rightarrow> bool" where
  "file_in_order file = (case file of None \<Rightarrow> True | Some evs \<Rightarrow> in_order 0 False (file_values VALUE evs))"

text \<open>The state of the loop that goes with a place in a batch.\<close>

definition batch_state :: "nat \<Rightarrow> bool \<Rightarrow> pkg_state \<Rightarrow> bool" where
  "batch_state n b s \<longleftrightarrow> (open_txn s \<longleftrightarrow> b) \<and> (row_of s = Row_Live \<longleftrightarrow> b) \<and> record_count s mod 2000 = n \<and> (b \<or> n = 0)"

lemma batch_state_key [simp]: "batch_state n b (s\<lparr>current_state := k\<rparr>) = batch_state n b s"
  by (simp add: batch_state_def)

lemma pkg_value_place:
  assumes "batch_state n b s"
  shows "case next_place n b (current_state s, v) of
    None \<Rightarrow> \<exists>m \<in> {Txn_Nested, Row_Null, Row_Stale}. pkg_value ins v s = Inl m
  | Some (n', b') \<Rightarrow> (\<exists>s1. pkg_value ins v s = Inr (Go s1) \<and> batch_state n' b' s1 \<and> current_state s1 = current_state s) \<or>
      (\<exists>cs i. pkg_value ins v s = Inr (Ret cs) \<and> \<not> ins i)"
proof (cases "current_state s")
  case PTYPE
  have "record_count s mod 2000 < 2000" by simp
  with PTYPE assms show ?thesis
    by (cases "row_of s") (auto simp: pkg_value_def value_type_def set_col_def call_def batch_state_def close_txn_def mod_Suc)
qed (use assms in \<open>cases "row_of s"; auto simp: pkg_value_def value_pkg_def txn_create_def set_col_def call_def batch_state_def\<close>)+

lemma pkg_loop_order:
  assumes "batch_state n b s"
  shows "(in_order n b (file_values (current_state s) evs) \<longrightarrow> (\<exists>cs. pkg_loop ins evs s = Inr cs)) \<and>
    (\<not> in_order n b (file_values (current_state s) evs) \<longrightarrow>
       (\<exists>i. \<not> ins i) \<or> (\<exists>m \<in> {Txn_Nested, Row_Null, Row_Stale}. pkg_loop ins evs s = Inl m))"
  using assms
proof (induction evs arbitrary: s n b)
  case (Cons ev evs)
  show ?case
  proof (cases "\<exists>v. ev = Scalar v \<and> package_info_mapping_check_key v = VALUE")
    case True
    then obtain v where v: "ev = Scalar v" "package_info_mapping_check_key v = VALUE" by blast
    then have ev: "pkg_event f (Scalar v) s = pkg_value f v s" for f by (simp add: pkg_event_def)
    note place = pkg_value_place [OF Cons.prems, where v = v and ins = ins]
    show ?thesis
    proof (cases "next_place n b (current_state s, v)")
      case None
      with place show ?thesis by (auto simp: v ev)
    next
      case (Some p)
      obtain n' b' where p: "p = (n', b')" by (cases p)
      from place Some p consider s1 where "pkg_value ins v s = Inr (Go s1)" "batch_state n' b' s1" "current_state s1 = current_state s"
        | cs i where "pkg_value ins v s = Inr (Ret cs)" "\<not> ins i" by auto
      then show ?thesis
        using Cons.IH [of n' b'] Some p by cases (force simp: v ev, auto simp: v ev)
    qed
  next
    case False
    with Cons.IH [of n b] Cons.prems show ?thesis
      by (cases ev) (auto simp: pkg_event_def Let_def)
  qed
qed simp

lemma file_in_order_returns:
  assumes "file_in_order file"
  shows "\<exists>cs. sysd_add_package_info ins parser_ok file = Inr cs \<and> txn_paired False cs"
proof (cases "file")
  case (Some evs)
  have start: "batch_state 0 False pkg_start" "current_state pkg_start = VALUE" "txn_inv pkg_start"
    by (simp_all add: batch_state_def pkg_start_def txn_inv_def)
  show ?thesis
    using assms pkg_loop_order [OF start(1), of evs ins] pkg_loop_paired [OF _ start(3), of ins evs]
    by (auto simp: Some file_in_order_def sysd_add_package_info_def start(2))
qed (simp add: sysd_add_package_info_def)

lemma package_fault_out_of_order:
  assumes "sysd_add_package_info ins parser_ok file = Inl m"
  shows "parser_ok \<and> \<not> file_in_order file"
  using assms file_in_order_returns [of "file" ins parser_ok] by (auto simp: sysd_add_package_info_def split: if_splits)

text \<open>
  Claim C21. Whatever the stream of events, complete or broken off by a parse error, and whatever insertions
  fail: when the values of the version file are in order, the function returns, and the calls it has made
  create no transaction while one is open, touch rows only inside one, and destroy every transaction created.
  The order is needed: on a file that is not in order, if all insertions succeed, the function makes a call
  that the library does not accept - a second package name before the first type of a batch creates a
  transaction while one is open.
\<close>

theorem package_transactions_paired:
  "(file_in_order file \<longrightarrow> (\<exists>cs. sysd_add_package_info ins parser_ok file = Inr cs \<and> txn_paired False cs)) \<and>
   (parser_ok \<and> \<not> file_in_order file \<and> (\<forall>i. ins i) \<longrightarrow>
     (\<exists>m \<in> {Txn_Nested, Row_Null, Row_Stale}. sysd_add_package_info ins parser_ok file = Inl m))"
proof (intro conjI impI)
  show "file_in_order file \<Longrightarrow> \<exists>cs. sysd_add_package_info ins parser_ok file = Inr cs \<and> txn_paired False cs"
    by (rule file_in_order_returns)
next
  assume h: "parser_ok \<and> \<not> file_in_order file \<and> (\<forall>i. ins i)"
  then obtain evs where evs: "file = Some evs" by (auto simp: file_in_order_def split: option.splits)
  have "batch_state 0 False pkg_start" by (simp add: batch_state_def pkg_start_def)
  from pkg_loop_order [OF this, of evs ins] h
  show "\<exists>m \<in> {Txn_Nested, Row_Null, Row_Stale}. sysd_add_package_info ins parser_ok file = Inl m"
    by (auto simp: evs file_in_order_def sysd_add_package_info_def pkg_start_def)
qed

theorem package_transactions_paired_witness:
  "txn_paired False [Txn_Create, Row_Insert, Set_Name (Some ''a''), Set_Src_Type (Some ''git''), Row_Insert, Txn_Destroy] \<and>
   (\<exists>m \<in> {Txn_Nested, Row_Null, Row_Stale}. sysd_add_package_info (\<lambda>_. True) True
      (Some [Scalar (Some ''PKG''), Scalar (Some ''a''), Scalar (Some ''PKG''), Scalar (Some ''b'')]) = Inl m)"
proof -
  let ?evs = "[Scalar (Some ''PKG''), Scalar (Some ''a''), Scalar (Some ''TYPE''), Scalar (Some ''git''),
             Scalar (Some ''PKG''), Scalar (Some ''b'')]"
  let ?nested = "[Scalar (Some ''PKG''), Scalar (Some ''a''), Scalar (Some ''PKG''), Scalar (Some ''b'')]"
  have "sysd_add_package_info (\<lambda>i. i < 1) True (Some ?evs) =
    Inr [Txn_Create, Row_Insert, Set_Name (Some ''a''), Set_Src_Type (Some ''git''), Row_Insert, Txn_Destroy]" by code_simp
  moreover have "file_in_order (Some ?evs)" "\<not> file_in_order (Some ?nested)" by code_simp+
  ultimately show ?thesis
    using package_transactions_paired [of "Some ?evs" "\<lambda>i. i < 1" True] package_transactions_paired [of "Some ?nested" "\<lambda>_. True" True]
    by simp
qed

text \<open>
  A version file whose first key is an attribute with a value makes the function set a
  column through a null row, whatever follows.
\<close>

lemma package_attribute_first_crashes:
  assumes "list_all (\<lambda>e. e = Other_Event) pre" "wf_attr (k, v)" "(k, v) \<noteq> (SRCREV, ''INVALID'')"
  shows "sysd_add_package_info ins True (Some (pre @ kv_events k v @ rest)) = Inl Row_Null"
proof -
  have "pkg_run ins pre s = Some s" for s
    using assms(1) by (induction pre) (auto simp: pkg_event_def)
  moreover have "Stream_End \<notin> set pre" using assms(1) by (auto simp: list_all_iff)
  moreover have "k \<noteq> VALUE" "is_value v" "k = PV \<or> k = SRCREV \<or> k = SRC_URL"
    using assms(2) by (auto simp: wf_attr_def)
  ultimately show ?thesis
    using assms(3) pkg_loop_run [of ins pre pkg_start pkg_start "kv_events k v @ rest"]
    by (auto simp: sysd_add_package_info_def pkg_event_def check_key_word check_key_value
          pkg_value_def set_col_def pkg_start_def)
qed

end
