(* ===== verification/Hw_Daemons.thy ===== *)
theory Hw_Daemons
  imports Ovs_Lib Manifest
begin

text \<open>
  The hardware handshake of \<open>src/sysd_ovsdb_if.c\<close>: \<open>sysd_chk_if_hw_daemons_done\<close> looks in the
  Daemon table for the hardware daemons the manifest lists and, when none of those it finds is still
  at work, \<open>sysd_set_hw_done\<close> writes the System row the configuration daemon waits for. The
  properties say exactly when that happens, that it is the documented condition when the table
  lists every daemon and no name is the beginning of another, and what happens otherwise.
\<close>

section \<open>The operations\<close>

text \<open>The columns of a Daemon row; an unset name reads as the empty string.\<close>

definition row_name :: "('db, 'm) ovs_lib \<Rightarrow> 'db \<Rightarrow> row \<Rightarrow> string" where
  "row_name L db r = (case get_str L r ''name'' db of Some s \<Rightarrow> s | None \<Rightarrow> [])"

definition row_is_hw :: "('db, 'm) ovs_lib \<Rightarrow> 'db \<Rightarrow> row \<Rightarrow> bool" where
  "row_is_hw L db r = get_bool L r ''is_hw_handler'' db"

definition row_cur_hw :: "('db, 'm) ovs_lib \<Rightarrow> 'db \<Rightarrow> row \<Rightarrow> int" where
  "row_cur_hw L db r = get_int L r ''cur_hw'' db"

text \<open>
  The inner loop over the rows of the Daemon table, up to the first hardware row whose name begins
  with the daemon's name.
\<close>

fun match_row :: "('db, 'm) ovs_lib \<Rightarrow> 'db \<Rightarrow> string \<Rightarrow> row list \<Rightarrow> row option" where
  "match_row L db name [] = None"
| "match_row L db name (r # rs) =
     (if row_is_hw L db r \<and> strncmp0 name (row_name L db r) (length name) then Some r
      else match_row L db name rs)"

text \<open>The outer loop: it stops at the first daemon that has not finished; gives \<open>not_set\<close> and \<open>num_found\<close>.\<close>

fun scan_daemons :: "('db, 'm) ovs_lib \<Rightarrow> 'db \<Rightarrow> daemon_info list \<Rightarrow> nat \<Rightarrow> bool \<times> nat" where
  "scan_daemons L db [] num_found = (False, num_found)"
| "scan_daemons L db (d # ds) num_found =
     (if d_is_hw_handler d
      then case match_row L db (d_name d) (idl_rows L T_Daemon db) of
             None \<Rightarrow> scan_daemons L db ds num_found
           | Some r \<Rightarrow> if row_cur_hw L db r > 0 then scan_daemons L db ds (Suc num_found)
                       else (True, num_found)
      else scan_daemons L db ds num_found)"

text \<open>
  \<open>sysd_set_hw_done\<close>: \<open>committed\<close> tells whether the transaction went through; the static flag is
  set in either case.
\<close>

definition sysd_set_hw_done :: "('db, 'm) ovs_lib \<Rightarrow> bool \<Rightarrow> 'db \<Rightarrow> bool \<times> 'db" where
  "sysd_set_hw_done L committed db =
     (let db' = fold (\<lambda>r d. idl_set L r ''next_hw'' (VInt 1) (idl_set L r ''cur_hw'' (VInt 1) d))
                     (idl_rows L T_System db) db
      in (True, if committed then db' else db))"

definition sysd_chk_if_hw_daemons_done ::
  "('db, 'm) ovs_lib \<Rightarrow> daemon_info list \<Rightarrow> int \<Rightarrow> bool \<Rightarrow> bool \<times> 'db \<Rightarrow> bool \<times> 'db" where
  "sysd_chk_if_hw_daemons_done L ds num_hw committed = (\<lambda>(hw_init_done_set, db).
     if num_hw \<le> 0 then sysd_set_hw_done L committed db
     else let (not_set, num_found) = scan_daemons L db ds 0
          in if not_set \<or> num_found = 0 then (hw_init_done_set, db)
             else sysd_set_hw_done L committed db)"

section \<open>When the handshake completes\<close>

definition hw_row :: "('db, 'm) ovs_lib \<Rightarrow> 'db \<Rightarrow> daemon_info \<Rightarrow> row option" where
  "hw_row L db d = List.find (\<lambda>r. row_is_hw L db r \<and> prefix (d_name d) (row_name L db r)) (idl_rows L T_Daemon db)"

definition hw_ready :: "('db, 'm) ovs_lib \<Rightarrow> daemon_info list \<Rightarrow> 'db \<Rightarrow> bool" where
  "hw_ready L ds db \<longleftrightarrow>
     (\<exists>d \<in> set ds. d_is_hw_handler d \<and> hw_row L db d \<noteq> None) \<and>
     (\<forall>d \<in> set ds. d_is_hw_handler d \<longrightarrow>
        (case hw_row L db d of None \<Rightarrow> True | Some r \<Rightarrow> row_cur_hw L db r > 0))"

lemma match_row_find: "match_row L db (d_name d) (idl_rows L T_Daemon db) = hw_row L db d"
proof -
  have "match_row L db (d_name d) rs =
      List.find (\<lambda>r. row_is_hw L db r \<and> prefix (d_name d) (row_name L db r)) rs" for rs
    by (induction rs) (auto simp: strncmp0_prefix_left)
  then show ?thesis by (simp add: hw_row_def)
qed

lemma scan_not_set:
  "fst (scan_daemons L db ds n) \<longleftrightarrow>
     (\<exists>d \<in> set ds. d_is_hw_handler d \<and> (\<exists>r. hw_row L db d = Some r \<and> \<not> row_cur_hw L db r > 0))"
  by (induction ds arbitrary: n) (auto simp: match_row_find split: option.split)

lemma scan_found:
  "\<not> fst (scan_daemons L db ds n) \<Longrightarrow>
   snd (scan_daemons L db ds n) = n + length (filter (\<lambda>d. d_is_hw_handler d \<and> hw_row L db d \<noteq> None) ds)"
  by (induction ds arbitrary: n) (auto simp: match_row_find split: option.splits if_splits)

lemma check_done_cases:
  "sysd_chk_if_hw_daemons_done L ds n committed (flag, db) =
     (if n \<le> 0 \<or> hw_ready L ds db then sysd_set_hw_done L committed db else (flag, db))"
proof -
  let ?P = "\<lambda>d. d_is_hw_handler d \<and> hw_row L db d \<noteq> None"
  have "hw_ready L ds db \<longleftrightarrow> \<not> fst (scan_daemons L db ds 0) \<and> filter ?P ds \<noteq> []"
    by (auto simp: hw_ready_def scan_not_set filter_empty_conv split: option.splits)
  then have "hw_ready L ds db \<longleftrightarrow> \<not> fst (scan_daemons L db ds 0) \<and> snd (scan_daemons L db ds 0) \<noteq> 0"
    using scan_found [of L db ds 0] by auto
  then show ?thesis by (auto simp: sysd_chk_if_hw_daemons_done_def split: prod.split)
qed

context ovs_idl
begin

lemma set_hw_done_rows:
  "idl_rows L t (snd (sysd_set_hw_done L c db)) = idl_rows L t db"
proof -
  have "idl_rows L t (fold (\<lambda>r d. idl_set L r ''next_hw'' (VInt 1) (idl_set L r ''cur_hw'' (VInt 1) d)) rs db)
      = idl_rows L t db" for rs
    by (induction rs arbitrary: db) (simp_all add: idl_simps)
  then show ?thesis by (simp add: sysd_set_hw_done_def Let_def)
qed

lemma set_hw_done_get:
  "idl_get L r c (snd (sysd_set_hw_done L True db)) =
     (if r \<in> set (idl_rows L T_System db) \<and> (c = ''cur_hw'' \<or> c = ''next_hw'') then VInt 1
      else idl_get L r c db)"
proof -
  have "idl_get L r c (fold (\<lambda>r d. idl_set L r ''next_hw'' (VInt 1) (idl_set L r ''cur_hw'' (VInt 1) d)) rs db)
      = (if r \<in> set rs \<and> (c = ''cur_hw'' \<or> c = ''next_hw'') then VInt 1 else idl_get L r c db)" for rs
  proof (induction rs arbitrary: db)
    case (Cons r' rs)
    then show ?case by (cases "r' = r"; cases "c = ''cur_hw''"; cases "c = ''next_hw''")
        (auto simp: get_set_other get_set_scalar)
  qed simp
  then show ?thesis by (simp add: sysd_set_hw_done_def Let_def)
qed

end

text \<open>
  The check completes the handshake exactly when the manifest lists no hardware daemon,
  or some listed hardware daemon has a row and every listed one that has a row has finished; it
  then sets both columns of every System row to 1 and nothing else, and otherwise changes nothing.
\<close>

lemma hw_handshake_exact:
  assumes "ovs_idl L"
  shows "sysd_chk_if_hw_daemons_done L ds n True (flag, db) =
      (if n \<le> 0 \<or> hw_ready L ds db then (True, snd (sysd_set_hw_done L True db)) else (flag, db)) \<and>
    (\<forall>r c. idl_get L r c (snd (sysd_set_hw_done L True db)) =
       (if r \<in> set (idl_rows L T_System db) \<and> (c = ''cur_hw'' \<or> c = ''next_hw'') then VInt 1
        else idl_get L r c db))"
  using ovs_idl.set_hw_done_get [OF assms]
  by (auto simp: check_done_cases) (simp_all add: sysd_set_hw_done_def Let_def)

text \<open>A database with one System row and one Daemon row per name, hardware mark and progress.\<close>

fun demo_daemons :: "(string \<times> bool \<times> int) list \<Rightarrow> mem_db \<Rightarrow> mem_db" where
  "demo_daemons [] db = snd (mem_insert T_System db)"
| "demo_daemons ((n, h, k) # ds) db =
     demo_daemons ds (case mem_insert T_Daemon db of (r, db1) \<Rightarrow>
       mem_set r ''cur_hw'' (VInt k) (mem_set r ''is_hw_handler'' (VBool h) (mem_set r ''name'' (VStr n) db1)))"

section \<open>Tables that list the daemons, and tables that do not\<close>

text \<open>
  The Daemon table as the start-up transaction leaves it: one row per daemon with its name and
  hardware mark. Names are prefix-free when no daemon's name is the beginning of another's.
\<close>

definition lists_daemons :: "('db, 'm) ovs_lib \<Rightarrow> daemon_info list \<Rightarrow> 'db \<Rightarrow> bool" where
  "lists_daemons L ds db \<longleftrightarrow>
     (\<forall>d \<in> set ds. \<exists>r \<in> set (idl_rows L T_Daemon db).
        row_name L db r = d_name d \<and> row_is_hw L db r = d_is_hw_handler d) \<and>
     row_name L db ` set (idl_rows L T_Daemon db) \<subseteq> d_name ` set ds \<and>
     inj_on (row_name L db) (set (idl_rows L T_Daemon db))"

definition prefix_free :: "daemon_info list \<Rightarrow> bool" where
  "prefix_free ds \<longleftrightarrow> (\<forall>d \<in> set ds. \<forall>e \<in> set ds. prefix (d_name d) (d_name e) \<longrightarrow> d_name d = d_name e)"

lemma hw_row_listed:
  assumes "lists_daemons L ds db" "prefix_free ds" "d \<in> set ds" "d_is_hw_handler d"
  shows "hw_row L db d = Some r \<longleftrightarrow> r \<in> set (idl_rows L T_Daemon db) \<and> row_name L db r = d_name d"
proof -
  obtain r0 where r0: "r0 \<in> set (idl_rows L T_Daemon db)" "row_name L db r0 = d_name d" "row_is_hw L db r0"
    using assms by (auto simp: lists_daemons_def)
  have only: "r' = r0" if "r' \<in> set (idl_rows L T_Daemon db)" "prefix (d_name d) (row_name L db r')" for r'
  proof -
    from that(1) assms(1) obtain e where "e \<in> set ds" "row_name L db r' = d_name e"
      by (auto simp: lists_daemons_def)
    with that(2) assms(2,3) have "row_name L db r' = d_name d" unfolding prefix_free_def by metis
    with r0(2) have "row_name L db r' = row_name L db r0" by simp
    with assms(1) r0(1) that(1) show ?thesis unfolding lists_daemons_def by (metis inj_onD)
  qed
  have "hw_row L db d \<noteq> None"
    using r0(1,3) r0(2) [symmetric] by (auto simp: hw_row_def find_None_iff)
  then obtain r1 where r1: "hw_row L db d = Some r1" by blast
  from find_Some_in [OF this [unfolded hw_row_def]] only have "r1 = r0" by blast
  moreover have "r = r0" if "r \<in> set (idl_rows L T_Daemon db)" "row_name L db r = d_name d"
    using only [OF that(1)] that(2) by simp
  ultimately show ?thesis using r0(1,2) r1 by auto
qed

lemma hw_ready_listed:
  assumes "lists_daemons L ds db" "prefix_free ds"
  shows "hw_ready L ds db \<longleftrightarrow> filter d_is_hw_handler ds \<noteq> [] \<and>
    (\<forall>d \<in> set ds. d_is_hw_handler d \<longrightarrow>
       (\<forall>r \<in> set (idl_rows L T_Daemon db). row_name L db r = d_name d \<longrightarrow> row_cur_hw L db r > 0))"
proof -
  have listed: "\<exists>r. hw_row L db d = Some r" if "d \<in> set ds" "d_is_hw_handler d" for d
    using hw_row_listed [OF assms that] that assms(1) by (force simp: lists_daemons_def)
  have all: "(case hw_row L db d of None \<Rightarrow> True | Some r \<Rightarrow> row_cur_hw L db r > 0) \<longleftrightarrow>
      (\<forall>r \<in> set (idl_rows L T_Daemon db). row_name L db r = d_name d \<longrightarrow> row_cur_hw L db r > 0)"
    if d: "d \<in> set ds" "d_is_hw_handler d" for d
  proof -
    obtain r where r: "hw_row L db d = Some r" using listed [OF d] by blast
    have "r' = r" if "r' \<in> set (idl_rows L T_Daemon db)" "row_name L db r' = d_name d" for r'
      using hw_row_listed [OF assms d, of r'] that r by simp
    with r hw_row_listed [OF assms d, of r] show ?thesis by auto
  qed
  have some: "(\<exists>d \<in> set ds. d_is_hw_handler d \<and> hw_row L db d \<noteq> None) \<longleftrightarrow> filter d_is_hw_handler ds \<noteq> []"
    using listed by (auto simp: filter_empty_conv)
  from all some show ?thesis by (simp add: hw_ready_def)
qed

text \<open>
  Claim C13. When the table lists every daemon of the manifest and no daemon's name is the beginning
  of another's, the handshake completes exactly when every hardware daemon has marked its row
  done, as the code's comment promises.
\<close>

theorem hw_handshake_documented:
  assumes "lists_daemons L ds db" "prefix_free ds"
  shows "sysd_chk_if_hw_daemons_done L ds (int (length (filter d_is_hw_handler ds))) committed (flag, db) =
    (if \<forall>d \<in> set ds. d_is_hw_handler d \<longrightarrow>
          (\<forall>r \<in> set (idl_rows L T_Daemon db). row_name L db r = d_name d \<longrightarrow> row_cur_hw L db r > 0)
     then sysd_set_hw_done L committed db else (flag, db))"
  using hw_ready_listed [OF assms] by (auto simp: check_done_cases filter_empty_conv)

theorem hw_handshake_documented_witness:
  "sysd_chk_if_hw_daemons_done mem_lib
      [\<lparr>d_name = ''fand'', d_is_hw_handler = True, d_cur_hw = 0\<rparr>,
       \<lparr>d_name = ''bufmond'', d_is_hw_handler = False, d_cur_hw = 0\<rparr>] 1 True
      (False, demo_daemons [(''fand'', True, 1), (''bufmond'', False, 0)] mem_init) =
    sysd_set_hw_done mem_lib True (demo_daemons [(''fand'', True, 1), (''bufmond'', False, 0)] mem_init)"
proof -
  let ?ds = "[\<lparr>d_name = ''fand'', d_is_hw_handler = True, d_cur_hw = 0\<rparr>,
       \<lparr>d_name = ''bufmond'', d_is_hw_handler = False, d_cur_hw = 0\<rparr>]"
  let ?db = "demo_daemons [(''fand'', True, 1), (''bufmond'', False, 0)] mem_init"
  have "lists_daemons mem_lib ?ds ?db" unfolding lists_daemons_def inj_on_def by code_simp
  moreover have "prefix_free ?ds" by (simp add: prefix_free_def)
  moreover have "\<forall>d \<in> set ?ds. d_is_hw_handler d \<longrightarrow>
      (\<forall>r \<in> set (idl_rows mem_lib T_Daemon ?db). row_name mem_lib ?db r = d_name d \<longrightarrow>
         row_cur_hw mem_lib ?db r > 0)" by code_simp
  ultimately show ?thesis using hw_handshake_documented [of mem_lib ?ds ?db True False] by simp
qed

text \<open>
  Claim C35. A hardware daemon whose row is missing from the table is not waited for: as long as
  another one is listed, the check behaves as if the manifest did not name it.
\<close>

theorem hw_handshake_skips_missing:
  assumes "\<forall>r \<in> set (idl_rows L T_Daemon db). \<not> prefix (d_name d) (row_name L db r)" "0 < n"
  shows "sysd_chk_if_hw_daemons_done L (ds @ d # es) (n + 1) committed (flag, db) =
         sysd_chk_if_hw_daemons_done L (ds @ es) n committed (flag, db)"
proof -
  have "hw_row L db d = None" using assms(1) by (auto simp: hw_row_def find_None_iff)
  then have "hw_ready L (ds @ d # es) db \<longleftrightarrow> hw_ready L (ds @ es) db"
    by (auto simp: hw_ready_def split: option.splits)
  with assms(2) show ?thesis by (simp add: check_done_cases)
qed

theorem hw_handshake_skips_missing_witness:
  "fst (sysd_chk_if_hw_daemons_done mem_lib
      [\<lparr>d_name = ''ledd'', d_is_hw_handler = True, d_cur_hw = 0\<rparr>,
       \<lparr>d_name = ''fand'', d_is_hw_handler = True, d_cur_hw = 0\<rparr>] 2 True
      (False, demo_daemons [(''fand'', True, 1)] mem_init))"
proof -
  let ?db = "demo_daemons [(''fand'', True, 1)] mem_init"
  let ?fand = "\<lparr>d_name = ''fand'', d_is_hw_handler = True, d_cur_hw = 0\<rparr>"
  have missing: "\<forall>r \<in> set (idl_rows mem_lib T_Daemon ?db). \<not> prefix ''ledd'' (row_name mem_lib ?db r)"
    by code_simp
  have "fst (sysd_chk_if_hw_daemons_done mem_lib [?fand] 1 True (False, ?db))" by code_simp
  then show ?thesis
    using hw_handshake_skips_missing [of mem_lib ?db "\<lparr>d_name = ''ledd'', d_is_hw_handler = True, d_cur_hw = 0\<rparr>"
      1 "[]" "[?fand]" True False] missing by simp
qed

end
