(* ===== verification/Qos_Profile.thy ===== *)
theory Qos_Profile
  imports Ovs_Lib Cfg_Yaml
begin

text \<open>
  Queue and schedule profiles (\<open>src/qos_init.c\<close>): a profile is a row with a name and a map from
  queue numbers to entry rows. Both kinds are built the same way, find or create the profile, find
  or create the entry of a queue, update the entry, so the contract of the operations is the locale
  \<open>keyed_profile\<close>, interpreted for the queue profile and for the schedule profile; the properties
  say what the two factory initialisations leave in the database.
\<close>

section \<open>Queue profiles\<close>

definition qos_get_queue_profile_row :: "('db, 'm) ovs_lib \<Rightarrow> string \<Rightarrow> 'db \<Rightarrow> row option" where
  "qos_get_queue_profile_row L profile_name db =
     List.find (\<lambda>r. get_str L r ''name'' db = Some profile_name) (idl_rows L T_Q_Profile db)"

text \<open>The first pair of the map column with the queue number.\<close>

definition qos_get_queue_profile_entry_row :: "('db, 'm) ovs_lib \<Rightarrow> row \<Rightarrow> int \<Rightarrow> 'db \<Rightarrow> row option" where
  "qos_get_queue_profile_entry_row L profile_row queue_num db =
     map_of (get_int_refs L profile_row ''q_profile_entries'' db) queue_num"

definition insert_queue_profile_queue_row :: "('db, 'm) ovs_lib \<Rightarrow> row \<Rightarrow> int \<Rightarrow> 'db \<Rightarrow> row \<times> 'db" where
  "insert_queue_profile_queue_row L profile_row queue_num db =
     (let (queue_row, db1) = idl_insert L T_Q_Profile_Entry db
      in (queue_row, idl_set L profile_row ''q_profile_entries''
            (VIntRefs (get_int_refs L profile_row ''q_profile_entries'' db1 @ [(queue_num, queue_row)])) db1))"

definition qos_queue_profile_command :: "('db, 'm) ovs_lib \<Rightarrow> string \<Rightarrow> 'db \<Rightarrow> 'db" where
  "qos_queue_profile_command L profile_name db =
     (case qos_get_queue_profile_row L profile_name db of
        Some _ \<Rightarrow> db
      | None \<Rightarrow> let (r, db1) = idl_insert L T_Q_Profile db
                in idl_set L r ''name'' (VStr profile_name) db1)"

definition has_local_priority :: "('db, 'm) ovs_lib \<Rightarrow> row \<Rightarrow> int \<Rightarrow> 'db \<Rightarrow> bool" where
  "has_local_priority L queue_row local_priority db \<longleftrightarrow>
     local_priority \<in> set (get_ints L queue_row ''local_priorities'' db)"

definition add_local_priority :: "('db, 'm) ovs_lib \<Rightarrow> row \<Rightarrow> int \<Rightarrow> 'db \<Rightarrow> 'db" where
  "add_local_priority L queue_row local_priority db =
     (if has_local_priority L queue_row local_priority db then db
      else idl_set L queue_row ''local_priorities''
             (VInts (get_ints L queue_row ''local_priorities'' db @ [local_priority])) db)"

text \<open>The update of an entry, the last part of \<open>qos_queue_profile_row_command\<close>.\<close>

definition queue_row_update :: "('db, 'm) ovs_lib \<Rightarrow> yaml_queue_entry \<Rightarrow> row \<Rightarrow> 'db \<Rightarrow> 'db" where
  "queue_row_update L e queue_row db =
     (let db1 = add_local_priority L queue_row (yq_local_priority e) db
      in case yq_description e of None \<Rightarrow> db1
         | Some d \<Rightarrow> idl_set L queue_row ''description'' (VStr d) db1)"

definition qos_queue_profile_row_command ::
  "('db, 'm) ovs_lib \<Rightarrow> string \<Rightarrow> yaml_queue_entry \<Rightarrow> 'db \<Rightarrow> bool \<times> 'db" where
  "qos_queue_profile_row_command L profile_name e db =
     (case qos_get_queue_profile_row L profile_name db of
        None \<Rightarrow> (False, db)
      | Some p \<Rightarrow>
          (case qos_get_queue_profile_entry_row L p (yq_queue e) db of
             Some q \<Rightarrow> (True, queue_row_update L e q db)
           | None \<Rightarrow> let (q, db1) = insert_queue_profile_queue_row L p (yq_queue e) db
                     in (True, queue_row_update L e q db1)))"

text \<open>
  The loop over the entries the library counts: \<open>unsigned int ii\<close> is compared with an \<open>int\<close>, so a
  negative count is read as an unsigned one. A null entry is skipped.
\<close>

definition ucount :: "int \<Rightarrow> nat" where
  "ucount n = unat (word_of_int n :: u32)"

definition qos_queue_profile_create_factory_default ::
  "('db, 'm) ovs_lib \<Rightarrow> yaml_lib \<Rightarrow> string \<Rightarrow> 'db \<Rightarrow> 'db" where
  "qos_queue_profile_create_factory_default L Y default_name db =
     fold (\<lambda>ii d. case sysd_cfg_yaml_get_queue_profile_entry Y ii of None \<Rightarrow> d
                  | Some e \<Rightarrow> snd (qos_queue_profile_row_command L default_name e d))
          [0..<ucount (sysd_cfg_yaml_get_queue_profile_entry_count Y)] (qos_queue_profile_command L default_name db)"

text \<open>\<open>qos_init_queue_profile\<close>, with its early returns; \<open>sys\<close> is the System row.\<close>

definition qos_init_queue_profile :: "('db, 'm) ovs_lib \<Rightarrow> yaml_lib \<Rightarrow> row \<Rightarrow> 'db \<Rightarrow> 'db" where
  "qos_init_queue_profile L Y sys db =
     (case sysd_cfg_yaml_get_qos_info Y of
        None \<Rightarrow> db
      | Some info \<Rightarrow>
          (let db1 = qos_queue_profile_create_factory_default L Y (yq_default_name info) db
           in case qos_get_queue_profile_row L (yq_default_name info) db1 of
                None \<Rightarrow> db1
              | Some p \<Rightarrow>
                  (let db2 = idl_set L sys ''q_profile'' (VRef p) db1;
                       db3 = qos_queue_profile_create_factory_default L Y (yq_factory_default_name info) db2
                   in case qos_get_queue_profile_row L (yq_factory_default_name info) db3 of
                        None \<Rightarrow> db3
                      | Some f \<Rightarrow>
                          (let db4 = idl_set L f ''hw_default'' (VBool True) db3
                           in fold (\<lambda>(k, e) d. idl_set L e ''hw_default'' (VBool True) d)
                                (get_int_refs L f ''q_profile_entries'' db4) db4))))"

section \<open>Schedule profiles\<close>

definition qos_get_schedule_profile_row :: "('db, 'm) ovs_lib \<Rightarrow> string \<Rightarrow> 'db \<Rightarrow> row option" where
  "qos_get_schedule_profile_row L profile_name db =
     List.find (\<lambda>r. get_str L r ''name'' db = Some profile_name) (idl_rows L T_QoS db)"

definition qos_get_schedule_profile_entry_row :: "('db, 'm) ovs_lib \<Rightarrow> row \<Rightarrow> int \<Rightarrow> 'db \<Rightarrow> row option" where
  "qos_get_schedule_profile_entry_row L profile_row queue_num db =
     map_of (get_int_refs L profile_row ''queues'' db) queue_num"

definition insert_schedule_profile_queue_row :: "('db, 'm) ovs_lib \<Rightarrow> row \<Rightarrow> int \<Rightarrow> 'db \<Rightarrow> row \<times> 'db" where
  "insert_schedule_profile_queue_row L profile_row queue_num db =
     (let (queue_row, db1) = idl_insert L T_Queue db
      in (queue_row, idl_set L profile_row ''queues''
            (VIntRefs (get_int_refs L profile_row ''queues'' db1 @ [(queue_num, queue_row)])) db1))"

definition qos_schedule_profile_command :: "('db, 'm) ovs_lib \<Rightarrow> string \<Rightarrow> 'db \<Rightarrow> 'db" where
  "qos_schedule_profile_command L profile_name db =
     (case qos_get_schedule_profile_row L profile_name db of
        Some _ \<Rightarrow> db
      | None \<Rightarrow> let (r, db1) = idl_insert L T_QoS db
                in idl_set L r ''name'' (VStr profile_name) db1)"

definition sched_row_update :: "('db, 'm) ovs_lib \<Rightarrow> yaml_sched_entry \<Rightarrow> row \<Rightarrow> 'db \<Rightarrow> 'db" where
  "sched_row_update L e queue_row db =
     idl_set L queue_row ''weight''
       (if ys_algorithm e = ''strict'' then VNone else VInt (ys_weight e))
       (idl_set L queue_row ''algorithm'' (VStr (ys_algorithm e)) db)"

definition qos_schedule_profile_row_command ::
  "('db, 'm) ovs_lib \<Rightarrow> string \<Rightarrow> yaml_sched_entry \<Rightarrow> 'db \<Rightarrow> bool \<times> 'db" where
  "qos_schedule_profile_row_command L profile_name e db =
     (case qos_get_schedule_profile_row L profile_name db of
        None \<Rightarrow> (False, db)
      | Some p \<Rightarrow>
          (case qos_get_schedule_profile_entry_row L p (ys_queue e) db of
             Some q \<Rightarrow> (True, sched_row_update L e q db)
           | None \<Rightarrow> let (q, db1) = insert_schedule_profile_queue_row L p (ys_queue e) db
                     in (True, sched_row_update L e q db1)))"

text \<open>
  Here the counter is an \<open>int\<close>, and the profile's map is emptied first, through a pointer that is
  not tested.
\<close>

definition qos_schedule_profile_create_factory_default ::
  "('db, 'm) ovs_lib \<Rightarrow> yaml_lib \<Rightarrow> string \<Rightarrow> 'db \<Rightarrow> fault + 'db" where
  "qos_schedule_profile_create_factory_default L Y default_name db =
     (let db1 = qos_schedule_profile_command L default_name db
      in case qos_get_schedule_profile_row L default_name db1 of
           None \<Rightarrow> Inl Null_Deref
         | Some p \<Rightarrow>
             Inr (fold (\<lambda>ii d. case sysd_cfg_yaml_get_schedule_profile_entry Y ii of None \<Rightarrow> d
                         | Some e \<Rightarrow> snd (qos_schedule_profile_row_command L default_name e d))
                  [0..<nat (sysd_cfg_yaml_get_schedule_profile_entry_count Y)] (idl_set L p ''queues'' (VIntRefs []) db1)))"

definition qos_init_schedule_profile :: "('db, 'm) ovs_lib \<Rightarrow> yaml_lib \<Rightarrow> row \<Rightarrow> 'db \<Rightarrow> fault + 'db" where
  "qos_init_schedule_profile L Y sys db =
     (case sysd_cfg_yaml_get_qos_info Y of
        None \<Rightarrow> Inr db
      | Some info \<Rightarrow>
          bindE (qos_schedule_profile_create_factory_default L Y (yq_default_name info) db) (\<lambda>db1.
            case qos_get_schedule_profile_row L (yq_default_name info) db1 of
              None \<Rightarrow> Inr db1
            | Some p \<Rightarrow>
                bindE (qos_schedule_profile_create_factory_default L Y (yq_factory_default_name info)
                         (idl_set L sys ''qos'' (VRef p) db1)) (\<lambda>db3.
                  case qos_get_schedule_profile_row L (yq_factory_default_name info) db3 of
                    None \<Rightarrow> Inr db3
                  | Some f \<Rightarrow>
                      (let db4 = idl_set L f ''hw_default'' (VBool True) db3
                       in Inr (fold (\<lambda>(k, e) d. idl_set L e ''hw_default'' (VBool True) d)
                            (get_int_refs L f ''queues'' db4) db4)))))"

section \<open>The contract of a profile's operations\<close>

text \<open>
  A profile table and an entry table, the map column of a profile, and the operations: find a
  profile by its name, create one, empty it, update the entry \<open>e\<close> belongs to. \<open>view\<close> is what an entry row
  says, \<open>app\<close> what an update does to it, \<open>mark\<close> what setting \<open>hw_default\<close> does to it.
\<close>

locale keyed_profile = ovs_idl L for L :: "('db, 'm) ovs_lib" +
  fixes ptab etab :: ovs_table
    and col :: string
    and find_row :: "string \<Rightarrow> 'db \<Rightarrow> row option"
    and clear :: "row \<Rightarrow> 'db \<Rightarrow> 'db"
    and create :: "string \<Rightarrow> 'db \<Rightarrow> 'db"
    and key :: "'e \<Rightarrow> int"
    and upd :: "'e \<Rightarrow> row \<Rightarrow> 'db \<Rightarrow> 'db"
    and step :: "string \<Rightarrow> 'e \<Rightarrow> 'db \<Rightarrow> bool \<times> 'db"
    and view :: "row \<Rightarrow> 'db \<Rightarrow> 'v"
    and app :: "'e \<Rightarrow> 'v \<Rightarrow> 'v"
    and mark :: "'v \<Rightarrow> 'v"
    and blank :: 'v
  assumes tabs: "ptab \<noteq> etab" "ptab \<noteq> T_System" "etab \<noteq> T_System"
    and col: "col \<noteq> ''name''" "col \<noteq> ''hw_default''"
    and find_row: "find_row n db = List.find (\<lambda>r. get_str L r ''name'' db = Some n) (idl_rows L ptab db)"
    and clear_rows: "idl_rows L t (clear p db) = idl_rows L t db"
    and clear_other: "r \<noteq> p \<or> c \<noteq> col \<Longrightarrow> idl_get L r c (clear p db) = idl_get L r c db"
    and clear_empty: "get_int_refs L p col db = [] \<Longrightarrow> get_int_refs L p col (clear p db) = []"
    and create: "create n db = (case find_row n db of Some _ \<Rightarrow> db
          | None \<Rightarrow> let (r, db1) = idl_insert L ptab db in idl_set L r ''name'' (VStr n) db1)"
    and step: "step n e db = (case find_row n db of None \<Rightarrow> (False, db)
          | Some p \<Rightarrow> (case map_of (get_int_refs L p col db) (key e) of
                Some q \<Rightarrow> (True, upd e q db)
              | None \<Rightarrow> let (q, db1) = idl_insert L etab db
                  in (True, upd e q (idl_set L p col
                        (VIntRefs (get_int_refs L p col db1 @ [(key e, q)])) db1))))"
    and upd_other: "r \<noteq> q \<Longrightarrow> idl_get L r c (upd e q db) = idl_get L r c db"
    and upd_rows: "idl_rows L t (upd e q db) = idl_rows L t db"
    and view_upd: "view q (upd e q db) = app e (view q db)"
    and view_mark: "view q (idl_set L q ''hw_default'' (VBool True) db) = mark (view q db)"
    and view_cong: "(\<And>c. idl_get L q c db = idl_get L q c db') \<Longrightarrow> view q db = view q db'"
    and view_blank: "(\<And>c. idl_get L q c db = VNone) \<Longrightarrow> view q db = blank"
begin

definition ents :: "row \<Rightarrow> 'db \<Rightarrow> row set" where
  "ents p db = snd ` set (get_int_refs L p col db)"

text \<open>A profile as a partial function from queue numbers to what their entries say.\<close>

definition prof :: "row \<Rightarrow> 'db \<Rightarrow> int \<rightharpoonup> 'v" where
  "prof p db k = map_option (\<lambda>q. view q db) (map_of (get_int_refs L p col db) k)"

definition apart :: "'db \<Rightarrow> bool" where
  "apart db \<longleftrightarrow> set (idl_rows L ptab db) \<inter> set (idl_rows L etab db) = {}"

definition prof_ok :: "row \<Rightarrow> 'db \<Rightarrow> bool" where
  "prof_ok p db \<longleftrightarrow> p \<in> set (idl_rows L ptab db) \<and> distinct (map fst (get_int_refs L p col db)) \<and>
     inj_on snd (set (get_int_refs L p col db)) \<and> ents p db \<subseteq> set (idl_rows L etab db)"

definition named :: "string \<Rightarrow> row \<Rightarrow> 'db \<Rightarrow> bool" where
  "named n p db \<longleftrightarrow> p \<in> set (idl_rows L ptab db) \<and> get_str L p ''name'' db = Some n \<and>
     (\<forall>p' \<in> set (idl_rows L ptab db). get_str L p' ''name'' db = Some n \<longrightarrow> p' = p)"

text \<open>What a step on profile \<open>p\<close> may change.\<close>

definition only_profile :: "row \<Rightarrow> 'db \<Rightarrow> 'db \<Rightarrow> bool" where
  "only_profile p db db' \<longleftrightarrow>
     (\<forall>t. t \<noteq> etab \<longrightarrow> set (idl_rows L t db') = set (idl_rows L t db)) \<and>
     set (idl_rows L etab db) \<subseteq> set (idl_rows L etab db') \<and>
     (\<forall>t. set (idl_rows L t db') - set (idl_rows L t db) \<subseteq> ents p db') \<and>
     (\<forall>r c. r \<noteq> p \<and> r \<notin> ents p db' \<longrightarrow> idl_get L r c db' = idl_get L r c db) \<and>
     (\<forall>c. c \<noteq> col \<longrightarrow> idl_get L p c db' = idl_get L p c db) \<and>
     ents p db \<subseteq> ents p db' \<and> (\<forall>r t. r \<in> ents p db' - ents p db \<longrightarrow> r \<notin> set (idl_rows L t db))"

lemma only_profile_refl: "only_profile p db db"
  by (simp add: only_profile_def)

lemma only_profileD:
  assumes "only_profile p db db'"
  shows op_rows: "t \<noteq> etab \<Longrightarrow> set (idl_rows L t db') = set (idl_rows L t db)"
    and op_new: "r \<in> set (idl_rows L t db') \<Longrightarrow> r \<notin> set (idl_rows L t db) \<Longrightarrow> r \<in> ents p db'"
    and op_other: "r \<noteq> p \<Longrightarrow> r \<notin> ents p db' \<Longrightarrow> idl_get L r c db' = idl_get L r c db"
    and op_same: "c \<noteq> col \<Longrightarrow> idl_get L p c db' = idl_get L p c db"
    and op_ents: "r \<in> ents p db \<Longrightarrow> r \<in> ents p db'"
    and op_fresh: "r \<in> ents p db' \<Longrightarrow> r \<notin> ents p db \<Longrightarrow> r \<notin> set (idl_rows L t db)"
    and op_mono: "r \<in> set (idl_rows L t db) \<Longrightarrow> r \<in> set (idl_rows L t db')"
proof -
  note a = assms [unfolded only_profile_def]
  show "t \<noteq> etab \<Longrightarrow> set (idl_rows L t db') = set (idl_rows L t db)" using a by simp
  show "r \<in> set (idl_rows L t db') \<Longrightarrow> r \<notin> set (idl_rows L t db) \<Longrightarrow> r \<in> ents p db'"
    using a by blast
  show "r \<noteq> p \<Longrightarrow> r \<notin> ents p db' \<Longrightarrow> idl_get L r c db' = idl_get L r c db" using a by simp
  show "c \<noteq> col \<Longrightarrow> idl_get L p c db' = idl_get L p c db" using a by simp
  show "r \<in> ents p db \<Longrightarrow> r \<in> ents p db'" using a by blast
  show "r \<in> ents p db' \<Longrightarrow> r \<notin> ents p db \<Longrightarrow> r \<notin> set (idl_rows L t db)" using a by blast
  show "r \<in> set (idl_rows L t db) \<Longrightarrow> r \<in> set (idl_rows L t db')"
    using a by (cases "t = etab") blast+
qed

lemma only_profileI:
  assumes "\<And>t. t \<noteq> etab \<Longrightarrow> set (idl_rows L t db') = set (idl_rows L t db)"
    and "\<And>r t. r \<in> set (idl_rows L t db) \<Longrightarrow> r \<in> set (idl_rows L t db')"
    and "\<And>r t. r \<in> set (idl_rows L t db') \<Longrightarrow> r \<notin> set (idl_rows L t db) \<Longrightarrow> r \<in> ents p db'"
    and "\<And>r c. r \<noteq> p \<Longrightarrow> r \<notin> ents p db' \<Longrightarrow> idl_get L r c db' = idl_get L r c db"
    and "\<And>c. c \<noteq> col \<Longrightarrow> idl_get L p c db' = idl_get L p c db"
    and "\<And>r. r \<in> ents p db \<Longrightarrow> r \<in> ents p db'"
    and "\<And>r t. r \<in> ents p db' \<Longrightarrow> r \<notin> ents p db \<Longrightarrow> r \<notin> set (idl_rows L t db)"
  shows "only_profile p db db'"
  unfolding only_profile_def using assms by (intro conjI allI impI subsetI) blast+

lemma only_profile_trans:
  assumes a: "only_profile p db db1" and b: "only_profile p db1 db2"
  shows "only_profile p db db2"
proof (rule only_profileI)
  show "set (idl_rows L t db2) = set (idl_rows L t db)" if "t \<noteq> etab" for t
    using op_rows [OF a that] op_rows [OF b that] by simp
  show "r \<in> set (idl_rows L t db2)" if "r \<in> set (idl_rows L t db)" for r t
    by (rule op_mono [OF b op_mono [OF a that]])
  show "r \<in> ents p db2" if "r \<in> set (idl_rows L t db2)" "r \<notin> set (idl_rows L t db)" for r t
    using op_new [OF a _ that(2)] op_new [OF b that(1)] op_ents [OF b] by blast
  show "idl_get L r c db2 = idl_get L r c db" if "r \<noteq> p" "r \<notin> ents p db2" for r c
    using op_other [OF b that] op_other [OF a that(1)] op_ents [OF b] that(2) by metis
  show "idl_get L p c db2 = idl_get L p c db" if "c \<noteq> col" for c
    using op_same [OF a that] op_same [OF b that] by simp
  show "r \<in> ents p db2" if "r \<in> ents p db" for r
    by (rule op_ents [OF b op_ents [OF a that]])
  show "r \<notin> set (idl_rows L t db)" if "r \<in> ents p db2" "r \<notin> ents p db" for r t
    using op_fresh [OF a _ that(2)] op_fresh [OF b that(1)] op_mono [OF a] by blast
qed

lemma named_find:
  assumes "named n p db"
  shows "find_row n db = Some p"
proof (cases "find_row n db")
  case None
  with assms show ?thesis by (auto simp: find_row named_def find_None_iff)
next
  case (Some p')
  from find_Some_in [OF this [unfolded find_row]] assms have "p' = p" by (simp add: named_def)
  with Some show ?thesis by simp
qed

lemma prof_cong:
  "(\<And>c. idl_get L p c db = idl_get L p c db') \<Longrightarrow>
   (\<And>q c. q \<in> ents p db \<Longrightarrow> idl_get L q c db = idl_get L q c db') \<Longrightarrow> prof p db' = prof p db"
proof
  fix k
  assume p: "\<And>c. idl_get L p c db = idl_get L p c db'"
    and q: "\<And>q c. q \<in> ents p db \<Longrightarrow> idl_get L q c db = idl_get L q c db'"
  have refs: "get_int_refs L p col db' = get_int_refs L p col db" by (simp add: get_int_refs_def p)
  have "view q db' = view q db" if "map_of (get_int_refs L p col db) k = Some q" for q
    using that by (intro view_cong q [symmetric]) (force simp: ents_def dest: map_of_SomeD)
  then show "prof p db' k = prof p db k"
    by (cases "map_of (get_int_refs L p col db) k") (simp_all add: prof_def refs)
qed

text \<open>The abstract step: the entry of the key is updated, starting from a blank one.\<close>

definition absstep :: "'e \<Rightarrow> (int \<rightharpoonup> 'v) \<Rightarrow> int \<rightharpoonup> 'v" where
  "absstep e m = m(key e \<mapsto> app e (case m (key e) of None \<Rightarrow> blank | Some v \<Rightarrow> v))"

lemma step_old:
  assumes ok: "prof_ok p db" "apart db" and q: "map_of (get_int_refs L p col db) (key e) = Some q"
  shows "prof p (upd e q db) = absstep e (prof p db) \<and> prof_ok p (upd e q db) \<and> apart (upd e q db) \<and>
         only_profile p db (upd e q db)"
proof -
  have qe: "(key e, q) \<in> set (get_int_refs L p col db)" using q by (rule map_of_SomeD)
  then have qin: "q \<in> ents p db" by (force simp: ents_def)
  then have pq: "p \<noteq> q" using ok by (auto simp: prof_ok_def apart_def)
  have refs: "get_int_refs L p col (upd e q db) = get_int_refs L p col db"
    using upd_other [OF pq] by (simp add: get_int_refs_def)
  have "prof p (upd e q db) k = absstep e (prof p db) k" for k
  proof (cases "map_of (get_int_refs L p col db) k")
    case None
    with q show ?thesis by (auto simp: prof_def refs absstep_def)
  next
    case (Some q')
    show ?thesis
    proof (cases "k = key e")
      case True
      from q show ?thesis by (simp add: True prof_def refs absstep_def view_upd)
    next
      case False
      have "inj_on snd (set (get_int_refs L p col db))" using ok(1) by (simp add: prof_ok_def)
      from inj_onD [OF this _ map_of_SomeD [OF Some] qe] False have "q' \<noteq> q" by auto
      then have "view q' (upd e q db) = view q' db" by (intro view_cong upd_other)
      with False Some show ?thesis by (simp add: prof_def refs absstep_def)
    qed
  qed
  moreover have ents: "ents p (upd e q db) = ents p db" by (simp add: ents_def refs)
  moreover have "only_profile p db (upd e q db)"
  proof (rule only_profileI)
    show "idl_get L r c (upd e q db) = idl_get L r c db" if "r \<noteq> p" "r \<notin> ents p (upd e q db)" for r c
      using that qin by (intro upd_other) (auto simp: ents)
    show "idl_get L p c (upd e q db) = idl_get L p c db" for c by (rule upd_other [OF pq])
  qed (simp_all add: upd_rows ents)
  ultimately show ?thesis using ok by (simp add: prof_ok_def apart_def refs upd_rows ext)
qed

lemma step_new:
  assumes ok: "prof_ok p db" "apart db" and none: "map_of (get_int_refs L p col db) (key e) = None"
    and ins: "idl_insert L etab db = (q, db1)"
    and db2: "db2 = upd e q (idl_set L p col (VIntRefs (get_int_refs L p col db1 @ [(key e, q)])) db1)"
  shows "prof p db2 = absstep e (prof p db) \<and> prof_ok p db2 \<and> apart db2 \<and> only_profile p db db2"
proof -
  let ?kvs = "get_int_refs L p col db"
  have fresh: "q \<notin> set (idl_rows L t db)" for t using insert_fresh [OF ins] by simp
  then have pq: "p \<noteq> q" and qe: "q \<notin> ents p db" using ok(1) by (auto simp: prof_ok_def)
  have kvs1: "get_int_refs L p col db1 = ?kvs" using pq insert_readers [OF ins] by simp
  have key: "key e \<notin> fst ` set ?kvs" using none by (simp add: map_of_eq_None_iff)
  define db' where "db' = idl_set L p col (VIntRefs (?kvs @ [(key e, q)])) db1"
  have up: "db2 = upd e q db'" by (simp add: db2 db'_def kvs1)
  have dist: "distinct (map fst (?kvs @ [(key e, q)]))" using key ok(1) by (simp add: prof_ok_def)
  have "get_int_refs L p col db2 = get_int_refs L p col db'"
    using upd_other [OF pq] by (simp add: get_int_refs_def up)
  with get_int_refs_same [OF dist] have refs: "set (get_int_refs L p col db2) = insert (key e, q) (set ?kvs)"
    "distinct (map fst (get_int_refs L p col db2))"
    "map_of (get_int_refs L p col db2) = map_of (?kvs @ [(key e, q)])"
    by (simp_all add: db'_def)
  have ents: "ents p db2 = insert q (ents p db)" by (simp add: ents_def refs)
  have get1: "idl_get L r c db' = idl_get L r c db" if "r \<noteq> q" "r \<noteq> p \<or> c \<noteq> col" for r c
    using that get_set_other insert_get [OF ins] by (auto simp: db'_def)
  have get2: "idl_get L r c db2 = idl_get L r c db" if "r \<noteq> q" "r \<noteq> p \<or> c \<noteq> col" for r c
    using that get1 by (simp add: up upd_other)
  have rows: "set (idl_rows L t db2) = (if t = etab then insert q (set (idl_rows L t db)) else set (idl_rows L t db))" for t
    using insert_rows [OF ins, of t] by (simp add: up upd_rows db'_def rows_set)
  have viewq: "view q db2 = app e blank"
  proof -
    have "idl_get L q c db' = VNone" for c
      using pq insert_get [OF ins] by (simp add: db'_def get_set_other)
    then show ?thesis by (simp add: up view_upd view_blank)
  qed
  have "prof p db2 k = absstep e (prof p db) k" for k
  proof (cases "k = key e")
    case True
    with none show ?thesis by (simp add: prof_def refs(3) absstep_def viewq map_add_def)
  next
    case False
    have "view q' db2 = view q' db" if "map_of ?kvs k = Some q'" for q'
    proof (rule view_cong)
      have "q' \<in> ents p db" using map_of_SomeD [OF that] by (force simp: ents_def)
      then have "q' \<noteq> q" "q' \<noteq> p" using qe ok by (auto simp: prof_ok_def apart_def)
      then show "idl_get L q' c db2 = idl_get L q' c db" for c by (intro get2) simp_all
    qed
    with False show ?thesis
      by (auto simp: prof_def refs(3) absstep_def map_add_def split: option.split)
  qed
  moreover have "only_profile p db db2"
  proof (rule only_profileI)
    show "idl_get L r c db2 = idl_get L r c db" if "r \<noteq> p" "r \<notin> ents p db2" for r c
      using that by (intro get2) (auto simp: ents)
    show "idl_get L p c db2 = idl_get L p c db" if "c \<noteq> col" for c
      using that pq by (intro get2) simp_all
  qed (auto simp: rows ents fresh split: if_splits)
  moreover have "inj_on snd (set (get_int_refs L p col db2))"
    using ok(1) qe by (simp add: refs(1) prof_ok_def ents_def) force
  ultimately show ?thesis
    using ok tabs fresh by (auto simp: prof_ok_def apart_def refs ents rows)
qed

lemma step_refines:
  assumes "prof_ok p db" "apart db" "named n p db"
  shows "fst (step n e db) \<and> prof p (snd (step n e db)) = absstep e (prof p db) \<and>
         prof_ok p (snd (step n e db)) \<and> apart (snd (step n e db)) \<and> only_profile p db (snd (step n e db))"
proof (cases "map_of (get_int_refs L p col db) (key e)")
  case None
  obtain q db1 where ins: "idl_insert L etab db = (q, db1)" by fastforce
  from step_new [OF assms(1,2) None ins refl] None ins show ?thesis
    by (simp add: step named_find [OF assms(3)])
next
  case (Some q)
  from step_old [OF assms(1,2) Some] Some show ?thesis
    by (simp add: step named_find [OF assms(3)])
qed

lemma named_only:
  assumes "only_profile p db db'" "prof_ok p db" "prof_ok p db'" "apart db'" "named n r db"
  shows "named n r db'"
proof -
  have rows: "set (idl_rows L ptab db') = set (idl_rows L ptab db)"
    using op_rows [OF assms(1)] tabs by simp
  have "get_str L r' ''name'' db' = get_str L r' ''name'' db" if "r' \<in> set (idl_rows L ptab db)" for r'
  proof (cases "r' = p")
    case True
    with op_same [OF assms(1) col(1) [symmetric]] show ?thesis by (simp add: get_str_def)
  next
    case False
    have "r' \<notin> ents p db'" using that rows assms(3,4) by (auto simp: prof_ok_def apart_def)
    with False op_other [OF assms(1)] show ?thesis by (simp add: get_str_def)
  qed
  with assms(5) rows show ?thesis by (auto simp: named_def)
qed

lemma steps_refine:
  assumes "prof_ok p db" "apart db" "named n p db"
  shows "prof p (fold (\<lambda>e d. snd (step n e d)) es db) = fold absstep es (prof p db) \<and>
         prof_ok p (fold (\<lambda>e d. snd (step n e d)) es db) \<and> apart (fold (\<lambda>e d. snd (step n e d)) es db) \<and>
         only_profile p db (fold (\<lambda>e d. snd (step n e d)) es db)"
  using assms
proof (induction es arbitrary: db)
  case Nil
  then show ?case by (simp add: only_profile_refl)
next
  case (Cons e es)
  note st = step_refines [OF Cons.prems, of e]
  have "named n p (snd (step n e db))"
    using st Cons.prems by (blast intro: named_only)
  with Cons.IH [of "snd (step n e db)"] st show ?case by (auto intro: only_profile_trans)
qed

text \<open>A profile made from scratch: created, emptied and filled.\<close>

definition factory :: "string \<Rightarrow> 'e list \<Rightarrow> 'db \<Rightarrow> 'db" where
  "factory n es db =
     (let db1 = create n db
      in case find_row n db1 of None \<Rightarrow> db1 | Some p \<Rightarrow> fold (\<lambda>e d. snd (step n e d)) es (clear p db1))"

lemma create_new:
  assumes "apart db" "\<forall>r \<in> set (idl_rows L ptab db). get_str L r ''name'' db \<noteq> Some n"
  obtains p where "\<And>t. p \<notin> set (idl_rows L t db)" "named n p (create n db)" "apart (create n db)"
    "\<And>t. set (idl_rows L t (create n db)) = (if t = ptab then insert p (set (idl_rows L t db)) else set (idl_rows L t db))"
    "\<And>r c. r \<noteq> p \<Longrightarrow> idl_get L r c (create n db) = idl_get L r c db"
    "get_int_refs L p col (create n db) = []"
proof -
  obtain p db1 where ins: "idl_insert L ptab db = (p, db1)" by fastforce
  have none: "find_row n db = None" using assms(2) by (auto simp: find_row find_None_iff)
  have new: "create n db = idl_set L p ''name'' (VStr n) db1"
    by (simp add: create none ins)
  have fresh: "p \<notin> set (idl_rows L t db)" for t using insert_fresh [OF ins] by simp
  have rows: "set (idl_rows L t (create n db)) =
      (if t = ptab then insert p (set (idl_rows L t db)) else set (idl_rows L t db))" for t
    using insert_rows [OF ins, of t] by (simp add: new rows_set)
  have other: "idl_get L r c (create n db) = idl_get L r c db" if "r \<noteq> p" for r c
    using that insert_get [OF ins] by (simp add: new get_set_other)
  have "get_str L p ''name'' (create n db) = Some n" by (simp add: new get_same)
  moreover have "get_str L r ''name'' (create n db) = get_str L r ''name'' db" if "r \<noteq> p" for r
    using other [OF that] by (simp add: get_str_def)
  ultimately have "named n p (create n db)"
    using assms(2) by (force simp: named_def rows)
  moreover have "get_int_refs L p col (create n db) = []"
    using col insert_get [OF ins] by (simp add: new get_int_refs_def get_set_other)
  moreover have "apart (create n db)" using assms(1) tabs fresh by (auto simp: apart_def rows)
  ultimately show ?thesis using fresh rows other by (intro that)
qed

text \<open>What making a profile leaves: \<open>made\<close> names its new row, what is in it and what is untouched.\<close>

definition made :: "string \<Rightarrow> row \<Rightarrow> 'e list \<Rightarrow> 'db \<Rightarrow> 'db \<Rightarrow> bool" where
  "made n p es db db' \<longleftrightarrow>
     named n p db' \<and> prof_ok p db' \<and> apart db' \<and> prof p db' = fold absstep es Map.empty \<and>
     (\<forall>t r. r \<in> set (idl_rows L t db) \<longrightarrow> r \<in> set (idl_rows L t db')) \<and>
     (\<forall>t r. r \<in> set (idl_rows L t db') \<longrightarrow> r \<in> set (idl_rows L t db) \<or> (\<forall>t'. r \<notin> set (idl_rows L t' db))) \<and>
     set (idl_rows L ptab db') = insert p (set (idl_rows L ptab db)) \<and>
     (\<forall>t. p \<notin> set (idl_rows L t db)) \<and> (\<forall>r t. r \<in> ents p db' \<longrightarrow> r \<notin> set (idl_rows L t db)) \<and>
     (\<forall>t r c. r \<in> set (idl_rows L t db) \<longrightarrow> idl_get L r c db' = idl_get L r c db)"

lemma factory_made:
  assumes "apart db" "\<forall>r \<in> set (idl_rows L ptab db). get_str L r ''name'' db \<noteq> Some n"
  shows "\<exists>p. made n p es db (factory n es db)"
proof -
  obtain p where p: "\<And>t. p \<notin> set (idl_rows L t db)" "named n p (create n db)" "apart (create n db)"
    and rows: "\<And>t. set (idl_rows L t (create n db)) =
      (if t = ptab then insert p (set (idl_rows L t db)) else set (idl_rows L t db))"
    and other: "\<And>r c. r \<noteq> p \<Longrightarrow> idl_get L r c (create n db) = idl_get L r c db"
    and empty: "get_int_refs L p col (create n db) = []"
    using create_new [OF assms] by blast
  let ?db0 = "clear p (create n db)" and ?db' = "factory n es db"
  have fac: "?db' = fold (\<lambda>e d. snd (step n e d)) es ?db0"
    by (simp add: factory_def named_find [OF p(2)] Let_def)
  have empty0: "get_int_refs L p col ?db0 = []" by (rule clear_empty [OF empty])
  then have ok0: "prof_ok p ?db0" and ents0: "ents p ?db0 = {}" and prof0: "prof p ?db0 = Map.empty"
    by (auto simp: prof_ok_def ents_def prof_def clear_rows rows)
  have apart0: "apart ?db0" using p(3) by (simp add: apart_def clear_rows)
  have "get_str L r ''name'' ?db0 = get_str L r ''name'' (create n db)" for r
    using col by (simp add: get_str_def clear_other)
  then have named0: "named n p ?db0" using p(2) by (simp add: named_def clear_rows)
  note fill = steps_refine [OF ok0 apart0 named0, of es, folded fac]
  then have op: "only_profile p ?db0 ?db'" and ok: "prof_ok p ?db'" "apart ?db'" by blast+
  have ents_fresh: "r \<notin> set (idl_rows L t db)" if "r \<in> ents p ?db'" for r t
    using op_fresh [OF op that] that rows [of t] by (auto simp: ents0 clear_rows split: if_splits)
  have "named n p ?db'" by (rule named_only [OF op ok0 ok named0])
  moreover have "r \<in> set (idl_rows L t ?db')" if "r \<in> set (idl_rows L t db)" for r t
    using that by (intro op_mono [OF op]) (auto simp: clear_rows rows)
  moreover have "r \<in> set (idl_rows L t db) \<or> (\<forall>t'. r \<notin> set (idl_rows L t' db))"
    if "r \<in> set (idl_rows L t ?db')" for r t
  proof (cases "r \<in> set (idl_rows L t ?db0)")
    case True
    then show ?thesis using p(1) by (auto simp: clear_rows rows split: if_splits)
  next
    case False
    from ents_fresh [OF op_new [OF op that this]] show ?thesis by blast
  qed
  moreover have "set (idl_rows L ptab ?db') = insert p (set (idl_rows L ptab db))"
    using op_rows [OF op, of ptab] tabs by (simp add: clear_rows rows)
  moreover have "idl_get L r c ?db' = idl_get L r c db" if "r \<in> set (idl_rows L t db)" for t r c
  proof -
    have "r \<noteq> p" "r \<notin> ents p ?db'" using that p(1) ents_fresh by blast+
    then show ?thesis by (simp add: op_other [OF op] clear_other other)
  qed
  ultimately show ?thesis
    using fill prof0 p(1) ents_fresh by (auto simp: made_def)
qed

text \<open>Marking every entry of a profile.\<close>

definition mark_all :: "row \<Rightarrow> 'db \<Rightarrow> 'db" where
  "mark_all f db = (let db1 = idl_set L f ''hw_default'' (VBool True) db
     in fold (\<lambda>(k, e) d. idl_set L e ''hw_default'' (VBool True) d) (get_int_refs L f col db1) db1)"

lemma mark_fold:
  "idl_get L r c (fold (\<lambda>(k, e) d. idl_set L e ''hw_default'' (VBool True) d) kvs db) =
     (if r \<in> snd ` set kvs \<and> c = ''hw_default'' then VBool True else idl_get L r c db)"
  by (induction kvs arbitrary: db) (auto simp: get_set_other get_set_scalar image_iff)

lemma mark_all_get:
  "idl_get L r c (mark_all f db) =
     (if (r = f \<or> r \<in> ents f db) \<and> c = ''hw_default'' then VBool True else idl_get L r c db)"
proof -
  have "get_int_refs L f col (idl_set L f ''hw_default'' (VBool True) db) = get_int_refs L f col db"
    using col by (simp add: get_other)
  then show ?thesis
    by (auto simp: mark_all_def Let_def mark_fold ents_def get_set_other get_set_scalar)
qed

lemma mark_all_rows: "idl_rows L t (mark_all f db) = idl_rows L t db"
proof -
  have "idl_rows L t (fold (\<lambda>(k, e) d. idl_set L e ''hw_default'' (VBool True) d) kvs db) = idl_rows L t db"
    for kvs :: "(int \<times> row) list" and db by (induction kvs arbitrary: db) (auto simp: rows_set)
  then show ?thesis unfolding mark_all_def Let_def by (simp only: rows_set)
qed

lemma mark_all_prof:
  assumes "prof_ok f db" "apart db"
  shows "prof f (mark_all f db) k = map_option mark (prof f db k)"
proof -
  have refs: "get_int_refs L f col (mark_all f db) = get_int_refs L f col db"
    using col by (simp add: get_int_refs_def mark_all_get)
  have "view q (mark_all f db) = mark (view q db)" if "q \<in> ents f db" for q
  proof -
    have "view q (mark_all f db) = view q (idl_set L q ''hw_default'' (VBool True) db)"
    proof (rule view_cong)
      show "idl_get L q c (mark_all f db) = idl_get L q c (idl_set L q ''hw_default'' (VBool True) db)" for c
        using that by (cases "c = ''hw_default''") (auto simp: mark_all_get get_set_other get_set_scalar)
    qed
    then show ?thesis by (simp add: view_mark)
  qed
  then show ?thesis
    by (cases "map_of (get_int_refs L f col db) k")
       (force simp: prof_def refs ents_def dest: map_of_SomeD)+
qed

lemma madeD:
  assumes "made n p es db db'"
  shows made_named: "named n p db'" and made_ok: "prof_ok p db'" and made_apart: "apart db'"
    and made_prof: "prof p db' = fold absstep es Map.empty"
    and made_mono: "r \<in> set (idl_rows L t db) \<Longrightarrow> r \<in> set (idl_rows L t db')"
    and made_rows: "r \<in> set (idl_rows L t db') \<Longrightarrow> r \<notin> set (idl_rows L t db) \<Longrightarrow> r \<notin> set (idl_rows L t' db)"
    and made_ptab: "set (idl_rows L ptab db') = insert p (set (idl_rows L ptab db))"
    and made_new: "p \<notin> set (idl_rows L t db)"
    and made_ents: "r \<in> ents p db' \<Longrightarrow> r \<notin> set (idl_rows L t db)"
    and made_old: "r \<in> set (idl_rows L t db) \<Longrightarrow> idl_get L r c db' = idl_get L r c db"
  using assms unfolding made_def by blast+

text \<open>
  The initialisation both kinds share: the default profile, the System row's reference to it, the
  factory profile, its marks.
\<close>

lemma two_profiles:
  assumes start: "apart db" "n1 \<noteq> n2"
    "\<forall>r \<in> set (idl_rows L ptab db). get_str L r ''name'' db \<notin> {Some n1, Some n2}"
    and sys: "sys \<in> set (idl_rows L T_System db)" "sys \<notin> set (idl_rows L ptab db)"
    and d1: "db1 = factory n1 es db" and d2: "\<And>p. db2 p = idl_set L sys scol (VRef p) db1"
    and d3: "\<And>p. db3 p = factory n2 es (db2 p)"
  shows "\<exists>p f. find_row n1 db1 = Some p \<and> find_row n2 (db3 p) = Some f \<and> apart (db2 p) \<and>
    (\<forall>r \<in> set (idl_rows L ptab (db2 p)). get_str L r ''name'' (db2 p) \<noteq> Some n2) \<and> p \<noteq> f \<and>
    named n1 p (mark_all f (db3 p)) \<and> named n2 f (mark_all f (db3 p)) \<and>
    idl_get L sys scol (mark_all f (db3 p)) = VRef p \<and>
    prof p (mark_all f (db3 p)) = fold absstep es Map.empty \<and>
    prof f (mark_all f (db3 p)) = map_option mark \<circ> fold absstep es Map.empty \<and>
    get_bool L f ''hw_default'' (mark_all f (db3 p)) \<and>
    (\<forall>t r c. r \<in> set (idl_rows L t db) \<and> (r \<noteq> sys \<or> c \<noteq> scol) \<longrightarrow>
       idl_get L r c (mark_all f (db3 p)) = idl_get L r c db)"
proof -
  obtain p where m1: "made n1 p es db db1"
    using factory_made [OF start(1), of n1 es] start(3) d1 by blast
  have sys_ne: "sys \<noteq> p" using made_new [OF m1] sys(1) by blast
  have get2: "idl_get L r c (db2 p) = idl_get L r c db1" if "r \<noteq> sys \<or> c \<noteq> scol" for r c
    using that by (auto simp: d2 get_set_other)
  have rows2: "idl_rows L t (db2 p) = idl_rows L t db1" for t by (simp add: d2 rows_set)
  have name2: "get_str L r ''name'' (db2 p) = (if r = p then Some n1 else get_str L r ''name'' db)"
    if "r \<in> set (idl_rows L ptab db1)" for r
  proof (cases "r = p")
    case True
    then show ?thesis
      using get2 sys_ne made_named [OF m1] by (auto simp: get_str_def named_def)
  next
    case False
    then have "r \<in> set (idl_rows L ptab db)" using that made_ptab [OF m1] by simp
    then have "r \<noteq> sys" "idl_get L r ''name'' db1 = idl_get L r ''name'' db"
      using sys(2) made_old [OF m1] by auto
    with get2 False show ?thesis by (simp add: get_str_def)
  qed
  have apart2: "apart (db2 p)" using made_apart [OF m1] by (simp add: apart_def rows2)
  moreover have no_n2: "\<forall>r \<in> set (idl_rows L ptab (db2 p)). get_str L r ''name'' (db2 p) \<noteq> Some n2"
    using name2 start(2,3) made_ptab [OF m1] by (auto simp: rows2)
  ultimately obtain f where m2: "made n2 f es (db2 p) (db3 p)"
    using factory_made [of "db2 p" n2 es] d3 by auto
  have p_old: "p \<in> set (idl_rows L ptab (db2 p))" using made_ptab [OF m1] by (simp add: rows2)
  then have pf: "p \<noteq> f" using made_new [OF m2] by blast
  have e_old: "e \<in> set (idl_rows L etab (db2 p))" if "e \<in> ents p db1" for e
    using that made_ok [OF m1] by (auto simp: prof_ok_def rows2)
  have kept: "idl_get L r c (mark_all f (db3 p)) = idl_get L r c (db2 p)" if "r \<in> set (idl_rows L t (db2 p))" for r t c
    using that made_new [OF m2] made_ents [OF m2] made_old [OF m2 that] by (auto simp: mark_all_get)
  have old: "idl_get L r c (mark_all f (db3 p)) = idl_get L r c db"
    if "r \<in> set (idl_rows L t db)" "r \<noteq> sys \<or> c \<noteq> scol" for r t c
    using kept [of r t c] made_mono [OF m1 that(1)] made_old [OF m1 that(1)] get2 [OF that(2)]
    by (simp add: rows2)
  have r_p: "prof p (mark_all f (db3 p)) = prof p db1"
  proof (rule prof_cong)
    show "idl_get L p c db1 = idl_get L p c (mark_all f (db3 p))" for c
      using kept [OF p_old] get2 sys_ne by auto
    show "idl_get L e c db1 = idl_get L e c (mark_all f (db3 p))" if "e \<in> ents p db1" for e c
    proof -
      have "e \<noteq> sys" using made_ents [OF m1 that] sys(1) by blast
      then show ?thesis using kept [OF e_old [OF that]] get2 by auto
    qed
  qed
  have r_f: "prof f (mark_all f (db3 p)) = map_option mark \<circ> fold absstep es Map.empty"
    using mark_all_prof [OF made_ok [OF m2] made_apart [OF m2]] made_prof [OF m2] by (simp add: fun_eq_iff)
  have name5: "get_str L r ''name'' (mark_all f (db3 p)) = get_str L r ''name'' (db3 p)" for r
    by (simp add: get_str_def mark_all_get)
  then have r_n2: "named n2 f (mark_all f (db3 p))"
    using made_named [OF m2] by (simp add: named_def mark_all_rows)
  have r_n1: "named n1 p (mark_all f (db3 p))"
  proof -
    have "get_str L r ''name'' (db3 p) = get_str L r ''name'' (db2 p)" if "r \<in> set (idl_rows L ptab (db2 p))" for r
      using made_old [OF m2 that] by (simp add: get_str_def)
    then show ?thesis
      using made_named [OF m2] made_ptab [OF m2] made_ptab [OF m1] name2 start(2,3)
      by (auto simp: named_def mark_all_rows name5 rows2)
  qed
  have r_ref: "idl_get L sys scol (mark_all f (db3 p)) = VRef p"
    using kept [of sys T_System scol] made_mono [OF m1 sys(1)] by (simp add: rows2) (simp add: d2 get_set_scalar)
  have r_hw: "get_bool L f ''hw_default'' (mark_all f (db3 p))"
    by (simp add: get_bool_def mark_all_get)
  show ?thesis
  proof (intro exI conjI allI impI)
    show "find_row n1 db1 = Some p" by (rule named_find [OF made_named [OF m1]])
    show "find_row n2 (db3 p) = Some f" by (rule named_find [OF made_named [OF m2]])
    show "prof p (mark_all f (db3 p)) = fold absstep es Map.empty" by (simp add: r_p made_prof [OF m1])
    show "\<forall>r \<in> set (idl_rows L ptab (db2 p)). get_str L r ''name'' (db2 p) \<noteq> Some n2" by (rule no_n2)
    fix t r c assume "r \<in> set (idl_rows L t db) \<and> (r \<noteq> sys \<or> c \<noteq> scol)"
    then show "idl_get L r c (mark_all f (db3 p)) = idl_get L r c db" using old by blast
  qed (rule apart2 pf r_n1 r_n2 r_ref r_f r_hw)+
qed

end

section \<open>The two instances\<close>

text \<open>
  What an entry says: a queue entry its local priorities, its description and its mark, a schedule
  entry its algorithm, its weight and its mark.
\<close>

type_synonym queue_view = "int set \<times> string option \<times> bool"
type_synonym sched_view = "string option \<times> int option \<times> bool"

definition queue_view :: "('db, 'm) ovs_lib \<Rightarrow> row \<Rightarrow> 'db \<Rightarrow> queue_view" where
  "queue_view L q db = (set (get_ints L q ''local_priorities'' db), get_str L q ''description'' db,
     get_bool L q ''hw_default'' db)"

fun queue_app :: "yaml_queue_entry \<Rightarrow> queue_view \<Rightarrow> queue_view" where
  "queue_app e (S, d, h) =
     (insert (yq_local_priority e) S, (case yq_description e of None \<Rightarrow> d | Some s \<Rightarrow> Some s), h)"

definition sched_view :: "('db, 'm) ovs_lib \<Rightarrow> row \<Rightarrow> 'db \<Rightarrow> sched_view" where
  "sched_view L q db = (get_str L q ''algorithm'' db,
     (case idl_get L q ''weight'' db of VInt w \<Rightarrow> Some w | _ \<Rightarrow> None), get_bool L q ''hw_default'' db)"

fun sched_app :: "yaml_sched_entry \<Rightarrow> sched_view \<Rightarrow> sched_view" where
  "sched_app e (a, w, h) =
     (Some (ys_algorithm e), if ys_algorithm e = ''strict'' then None else Some (ys_weight e), h)"

fun marked :: "'a \<times> 'b \<times> bool \<Rightarrow> 'a \<times> 'b \<times> bool" where
  "marked (a, b, h) = (a, b, True)"

sublocale ovs_idl \<subseteq> queue_prof: keyed_profile L T_Q_Profile T_Q_Profile_Entry "''q_profile_entries''"
  "qos_get_queue_profile_row L" "\<lambda>p db. db" "qos_queue_profile_command L" yq_queue
  "queue_row_update L" "qos_queue_profile_row_command L" "queue_view L" queue_app marked "({}, None, False)"
proof unfold_locales
  fix q e db
  show "queue_view L q (queue_row_update L e q db) = queue_app e (queue_view L q db)"
    by (auto simp: queue_row_update_def add_local_priority_def has_local_priority_def queue_view_def
          idl_simps Let_def split: option.split)
qed (auto simp: qos_get_queue_profile_row_def qos_queue_profile_command_def
       qos_queue_profile_row_command_def qos_get_queue_profile_entry_row_def
       insert_queue_profile_queue_row_def queue_row_update_def add_local_priority_def Let_def
       queue_view_def get_set_other get_set_scalar rows_set get_same get_other get_defs split: option.split prod.split)

sublocale ovs_idl \<subseteq> sched_prof: keyed_profile L T_QoS T_Queue "''queues''"
  "qos_get_schedule_profile_row L" "\<lambda>p db. idl_set L p ''queues'' (VIntRefs []) db"
  "qos_schedule_profile_command L" ys_queue
  "sched_row_update L" "qos_schedule_profile_row_command L" "sched_view L" sched_app marked
  "(None, None, False)"
proof unfold_locales
  fix p :: row and db
  show "get_int_refs L p ''queues'' (idl_set L p ''queues'' (VIntRefs []) db) = []"
    using get_int_refs_same(1) [of "[]" p "''queues''" db] by simp
qed (auto simp: qos_get_schedule_profile_row_def qos_schedule_profile_command_def
       qos_schedule_profile_row_command_def qos_get_schedule_profile_entry_row_def
       insert_schedule_profile_queue_row_def sched_row_update_def Let_def
       sched_view_def get_set_other get_set_scalar rows_set get_same get_other get_defs
       split: option.split prod.split)

section \<open>What the initialisations leave\<close>

definition queue_entries :: "yaml_lib \<Rightarrow> yaml_queue_entry list" where
  "queue_entries Y = List.map_filter (y_queue_entry Y) [0..<ucount (y_queue_count Y)]"

definition sched_entries :: "yaml_lib \<Rightarrow> yaml_sched_entry list" where
  "sched_entries Y = List.map_filter (y_sched_entry Y) [0..<nat (y_sched_count Y)]"

text \<open>
  The profiles the YAML entries describe: a queue gets all the local priorities given for it and
  the last description; in a schedule the last entry of a queue counts, and a strict queue has no
  weight.
\<close>

definition last_description :: "yaml_queue_entry list \<Rightarrow> string option" where
  "last_description es = (case List.map_filter yq_description es of [] \<Rightarrow> None | ds \<Rightarrow> Some (last ds))"

definition queue_spec :: "yaml_queue_entry list \<Rightarrow> int \<Rightarrow> queue_view option" where
  "queue_spec es k =
     (let fs = filter (\<lambda>e. yq_queue e = k) es
      in if fs = [] then None else Some (yq_local_priority ` set fs, last_description fs, False))"

definition sched_spec :: "yaml_sched_entry list \<Rightarrow> int \<Rightarrow> sched_view option" where
  "sched_spec es k =
     (let fs = filter (\<lambda>e. ys_queue e = k) es
      in if fs = [] then None
         else Some (Some (ys_algorithm (last fs)),
                    if ys_algorithm (last fs) = ''strict'' then None else Some (ys_weight (last fs)), False))"

text \<open>A profile row read back: queue numbers and what their entries say.\<close>

definition read_profile ::
  "('db, 'm) ovs_lib \<Rightarrow> string \<Rightarrow> (row \<Rightarrow> 'db \<Rightarrow> 'v) \<Rightarrow> row \<Rightarrow> 'db \<Rightarrow> int \<Rightarrow> 'v option" where
  "read_profile L col view p db k = map_option (\<lambda>q. view q db) (map_of (get_int_refs L p col db) k)"

text \<open>
  Both default profiles are set up: two different rows, each the only one of its name, the System
  row refers to the first, both have the given contents, and only the second and its entries are
  marked as hardware defaults.
\<close>

definition only_named :: "('db, 'm) ovs_lib \<Rightarrow> ovs_table \<Rightarrow> string \<Rightarrow> row \<Rightarrow> 'db \<Rightarrow> bool" where
  "only_named L t n p db \<longleftrightarrow> p \<in> set (idl_rows L t db) \<and> get_str L p ''name'' db = Some n \<and>
     (\<forall>p' \<in> set (idl_rows L t db). get_str L p' ''name'' db = Some n \<longrightarrow> p' = p)"

definition default_profiles ::
  "('db, 'm) ovs_lib \<Rightarrow> ovs_table \<Rightarrow> string \<Rightarrow> (row \<Rightarrow> 'db \<Rightarrow> 'a \<times> 'b \<times> bool) \<Rightarrow> yaml_qos_info \<Rightarrow> row \<Rightarrow>
   string \<Rightarrow> (int \<Rightarrow> ('a \<times> 'b \<times> bool) option) \<Rightarrow> 'db \<Rightarrow> bool" where
  "default_profiles L t col view info sys scol spec db \<longleftrightarrow>
     (\<exists>p f. p \<noteq> f \<and> only_named L t (yq_default_name info) p db \<and>
        only_named L t (yq_factory_default_name info) f db \<and> idl_get L sys scol db = VRef p \<and>
        read_profile L col view p db = spec \<and> read_profile L col view f db = map_option marked \<circ> spec \<and>
        get_bool L f ''hw_default'' db)"

lemma map_filter_append: "List.map_filter f (xs @ ys) = List.map_filter f xs @ List.map_filter f ys"
  by (simp add: map_filter_def)

lemma last_description_snoc:
  "last_description (es @ [e]) = (case yq_description e of None \<Rightarrow> last_description es | Some d \<Rightarrow> Some d)"
proof -
  have "(case xs @ [d] of [] \<Rightarrow> None | ds \<Rightarrow> Some (last ds)) = Some d" for xs and d :: string
    by (cases xs) simp_all
  then show ?thesis
    by (simp add: last_description_def map_filter_append map_filter_simps split: option.split)
qed

context ovs_idl
begin

lemma queue_spec_snoc: "queue_prof.absstep e (queue_spec es) = queue_spec (es @ [e])"
proof
  fix k
  have one: "last_description [e] = yq_description e"
    using last_description_snoc [of "[]" e] by (simp add: last_description_def map_filter_simps split: option.splits)
  show "queue_prof.absstep e (queue_spec es) k = queue_spec (es @ [e]) k"
  proof (cases "k = yq_queue e")
    case True
    then show ?thesis
      by (cases "filter (\<lambda>e. yq_queue e = k) es = []")
         (simp_all add: queue_prof.absstep_def queue_spec_def Let_def one last_description_snoc split: option.split)
  next
    case False
    then show ?thesis by (simp add: queue_prof.absstep_def queue_spec_def)
  qed
qed

lemma queue_spec_fold: "fold queue_prof.absstep es Map.empty = queue_spec es"
proof (induction es rule: rev_induct)
  case (snoc e es)
  then show ?case using queue_spec_snoc by simp
qed (simp add: queue_spec_def fun_eq_iff)

lemma sched_spec_snoc: "sched_prof.absstep e (sched_spec es) = sched_spec (es @ [e])"
proof
  fix k
  show "sched_prof.absstep e (sched_spec es) k = sched_spec (es @ [e]) k"
  proof (cases "k = ys_queue e")
    case True
    then show ?thesis
      by (cases "filter (\<lambda>e. ys_queue e = k) es = []")
         (simp_all add: sched_prof.absstep_def sched_spec_def Let_def)
  next
    case False
    then show ?thesis by (simp add: sched_prof.absstep_def sched_spec_def)
  qed
qed

lemma sched_spec_fold: "fold sched_prof.absstep es Map.empty = sched_spec es"
proof (induction es rule: rev_induct)
  case (snoc e es)
  then show ?case using sched_spec_snoc by simp
qed (simp add: sched_spec_def fun_eq_iff)

lemma queue_factory:
  "qos_queue_profile_create_factory_default L Y n db = queue_prof.factory n (queue_entries Y) db"
proof -
  let ?step = "\<lambda>e d. snd (qos_queue_profile_row_command L n e d)"
  have "fold ?step es db1 = db1" if "qos_get_queue_profile_row L n db1 = None" for es db1
    using that by (induction es) (simp_all add: qos_queue_profile_row_command_def)
  note none = this
  have all: "qos_queue_profile_create_factory_default L Y n db =
      fold ?step (queue_entries Y) (qos_queue_profile_command L n db)"
    unfolding qos_queue_profile_create_factory_default_def queue_entries_def
    by (rule fold_map_filter)
  show ?thesis
    unfolding all queue_prof.factory_def Let_def
    using none [of "qos_queue_profile_command L n db"]
    by (cases "qos_get_queue_profile_row L n (qos_queue_profile_command L n db)") simp_all
qed

lemma sched_factory:
  assumes "sched_prof.apart db" "\<forall>r \<in> set (idl_rows L T_QoS db). get_str L r ''name'' db \<noteq> Some n"
  shows "qos_schedule_profile_create_factory_default L Y n db = Inr (sched_prof.factory n (sched_entries Y) db)"
proof -
  obtain p where "sched_prof.named n p (qos_schedule_profile_command L n db)"
    by (rule sched_prof.create_new [OF assms]) (rule that)
  note found = sched_prof.named_find [OF this]
  have all: "fold (\<lambda>ii d. case y_sched_entry Y ii of None \<Rightarrow> d
        | Some e \<Rightarrow> snd (qos_schedule_profile_row_command L n e d)) [0..<nat (y_sched_count Y)] d1 =
      fold (\<lambda>e d. snd (qos_schedule_profile_row_command L n e d)) (sched_entries Y) d1" for d1
    unfolding sched_entries_def by (rule fold_map_filter)
  show ?thesis
    by (simp only: qos_schedule_profile_create_factory_default_def sched_prof.factory_def Let_def found
          option.case all)
qed

lemma queue_init_marks:
  assumes "y_qos_info Y = Some info"
    and db1: "db1 = qos_queue_profile_create_factory_default L Y (yq_default_name info) db"
    and p: "qos_get_queue_profile_row L (yq_default_name info) db1 = Some p"
    and db3: "db3 = qos_queue_profile_create_factory_default L Y (yq_factory_default_name info)
                      (idl_set L sys ''q_profile'' (VRef p) db1)"
    and f: "qos_get_queue_profile_row L (yq_factory_default_name info) db3 = Some f"
  shows "qos_init_queue_profile L Y sys db = queue_prof.mark_all f db3"
  using assms by (simp add: qos_init_queue_profile_def queue_prof.mark_all_def Let_def)

lemma queue_init:
  assumes "y_qos_info Y = Some info" "yq_default_name info \<noteq> yq_factory_default_name info"
    and "set (idl_rows L T_Q_Profile db) \<inter> set (idl_rows L T_Q_Profile_Entry db) = {}"
    and "\<forall>r \<in> set (idl_rows L T_Q_Profile db).
           get_str L r ''name'' db \<notin> {Some (yq_default_name info), Some (yq_factory_default_name info)}"
    and "sys \<in> set (idl_rows L T_System db)" "sys \<notin> set (idl_rows L T_Q_Profile db)"
  shows "\<exists>p f. p \<noteq> f \<and> queue_prof.named (yq_default_name info) p (qos_init_queue_profile L Y sys db) \<and>
    queue_prof.named (yq_factory_default_name info) f (qos_init_queue_profile L Y sys db) \<and>
    idl_get L sys ''q_profile'' (qos_init_queue_profile L Y sys db) = VRef p \<and>
    queue_prof.prof p (qos_init_queue_profile L Y sys db) = queue_spec (queue_entries Y) \<and>
    queue_prof.prof f (qos_init_queue_profile L Y sys db) = map_option marked \<circ> queue_spec (queue_entries Y) \<and>
    get_bool L f ''hw_default'' (qos_init_queue_profile L Y sys db) \<and>
    (\<forall>t r c. r \<in> set (idl_rows L t db) \<and> (r \<noteq> sys \<or> c \<noteq> ''q_profile'') \<longrightarrow>
       idl_get L r c (qos_init_queue_profile L Y sys db) = idl_get L r c db)"
proof -
  let ?n1 = "yq_default_name info" and ?n2 = "yq_factory_default_name info" and ?es = "queue_entries Y"
  let ?db1 = "queue_prof.factory ?n1 ?es db"
  let ?db3 = "\<lambda>p. queue_prof.factory ?n2 ?es (idl_set L sys ''q_profile'' (VRef p) ?db1)"
  have "queue_prof.apart db" using assms(3) by (simp add: queue_prof.apart_def)
  from queue_prof.two_profiles [OF this assms(2,4,5,6) refl refl refl, of ?es "''q_profile''"]
  obtain p f where two: "qos_get_queue_profile_row L ?n1 ?db1 = Some p"
    "qos_get_queue_profile_row L ?n2 (?db3 p) = Some f" "p \<noteq> f"
    "queue_prof.named ?n1 p (queue_prof.mark_all f (?db3 p))"
    "queue_prof.named ?n2 f (queue_prof.mark_all f (?db3 p))"
    "idl_get L sys ''q_profile'' (queue_prof.mark_all f (?db3 p)) = VRef p"
    "queue_prof.prof p (queue_prof.mark_all f (?db3 p)) = queue_spec ?es"
    "queue_prof.prof f (queue_prof.mark_all f (?db3 p)) = map_option marked \<circ> queue_spec ?es"
    "get_bool L f ''hw_default'' (queue_prof.mark_all f (?db3 p))"
    "\<forall>t r c. r \<in> set (idl_rows L t db) \<and> (r \<noteq> sys \<or> c \<noteq> ''q_profile'') \<longrightarrow>
       idl_get L r c (queue_prof.mark_all f (?db3 p)) = idl_get L r c db"
    unfolding queue_spec_fold by (elim exE conjE) (rule that)
  have "qos_init_queue_profile L Y sys db = queue_prof.mark_all f (?db3 p)"
    by (rule queue_init_marks [OF assms(1) queue_factory [symmetric] two(1) queue_factory [symmetric] two(2)])
  with two(3-) show ?thesis by (intro exI [of _ p] exI [of _ f]) simp
qed

lemma sched_init_marks:
  assumes "y_qos_info Y = Some info"
    and db1: "qos_schedule_profile_create_factory_default L Y (yq_default_name info) db = Inr db1"
    and p: "qos_get_schedule_profile_row L (yq_default_name info) db1 = Some p"
    and db3: "qos_schedule_profile_create_factory_default L Y (yq_factory_default_name info)
                (idl_set L sys ''qos'' (VRef p) db1) = Inr db3"
    and f: "qos_get_schedule_profile_row L (yq_factory_default_name info) db3 = Some f"
  shows "qos_init_schedule_profile L Y sys db = Inr (sched_prof.mark_all f db3)"
  using assms by (simp add: qos_init_schedule_profile_def sched_prof.mark_all_def Let_def)

lemma sched_init:
  assumes "y_qos_info Y = Some info" "yq_default_name info \<noteq> yq_factory_default_name info"
    and "set (idl_rows L T_QoS db) \<inter> set (idl_rows L T_Queue db) = {}"
    and "\<forall>r \<in> set (idl_rows L T_QoS db).
           get_str L r ''name'' db \<notin> {Some (yq_default_name info), Some (yq_factory_default_name info)}"
    and "sys \<in> set (idl_rows L T_System db)" "sys \<notin> set (idl_rows L T_QoS db)"
  shows "\<exists>p f db'. qos_init_schedule_profile L Y sys db = Inr db' \<and> p \<noteq> f \<and>
    sched_prof.named (yq_default_name info) p db' \<and> sched_prof.named (yq_factory_default_name info) f db' \<and>
    idl_get L sys ''qos'' db' = VRef p \<and>
    sched_prof.prof p db' = sched_spec (sched_entries Y) \<and>
    sched_prof.prof f db' = map_option marked \<circ> sched_spec (sched_entries Y) \<and>
    get_bool L f ''hw_default'' db' \<and>
    (\<forall>t r c. r \<in> set (idl_rows L t db) \<and> (r \<noteq> sys \<or> c \<noteq> ''qos'') \<longrightarrow> idl_get L r c db' = idl_get L r c db)"
proof -
  let ?n1 = "yq_default_name info" and ?n2 = "yq_factory_default_name info" and ?es = "sched_entries Y"
  let ?db1 = "sched_prof.factory ?n1 ?es db"
  let ?db2 = "\<lambda>p. idl_set L sys ''qos'' (VRef p) ?db1"
  let ?db3 = "\<lambda>p. sched_prof.factory ?n2 ?es (?db2 p)"
  have apart: "sched_prof.apart db" using assms(3) by (simp add: sched_prof.apart_def)
  from sched_prof.two_profiles [OF this assms(2,4,5,6) refl refl refl, of ?es "''qos''"]
  obtain p f where two: "qos_get_schedule_profile_row L ?n1 ?db1 = Some p"
    "qos_get_schedule_profile_row L ?n2 (?db3 p) = Some f" "sched_prof.apart (?db2 p)"
    "\<forall>r \<in> set (idl_rows L T_QoS (?db2 p)). get_str L r ''name'' (?db2 p) \<noteq> Some ?n2" "p \<noteq> f"
    "sched_prof.named ?n1 p (sched_prof.mark_all f (?db3 p))"
    "sched_prof.named ?n2 f (sched_prof.mark_all f (?db3 p))"
    "idl_get L sys ''qos'' (sched_prof.mark_all f (?db3 p)) = VRef p"
    "sched_prof.prof p (sched_prof.mark_all f (?db3 p)) = sched_spec ?es"
    "sched_prof.prof f (sched_prof.mark_all f (?db3 p)) = map_option marked \<circ> sched_spec ?es"
    "get_bool L f ''hw_default'' (sched_prof.mark_all f (?db3 p))"
    "\<forall>t r c. r \<in> set (idl_rows L t db) \<and> (r \<noteq> sys \<or> c \<noteq> ''qos'') \<longrightarrow>
       idl_get L r c (sched_prof.mark_all f (?db3 p)) = idl_get L r c db"
    unfolding sched_spec_fold by (elim exE conjE) (rule that)
  have "\<forall>r \<in> set (idl_rows L T_QoS db). get_str L r ''name'' db \<noteq> Some ?n1" using assms(4) by simp
  from sched_init_marks [OF assms(1) sched_factory [OF apart this] two(1) sched_factory [OF two(3,4)] two(2)]
  have "qos_init_schedule_profile L Y sys db = Inr (sched_prof.mark_all f (?db3 p))" .
  with two(5-) show ?thesis by (intro exI [of _ p] exI [of _ f] exI) simp
qed

lemma queue_named: "queue_prof.named n p db = only_named L T_Q_Profile n p db"
  by (simp add: queue_prof.named_def only_named_def)

lemma queue_read: "queue_prof.prof p db = read_profile L ''q_profile_entries'' (queue_view L) p db"
  by (simp add: fun_eq_iff queue_prof.prof_def read_profile_def)

lemma sched_named: "sched_prof.named n p db = only_named L T_QoS n p db"
  by (simp add: sched_prof.named_def only_named_def)

lemma sched_read: "sched_prof.prof p db = read_profile L ''queues'' (sched_view L) p db"
  by (simp add: fun_eq_iff sched_prof.prof_def read_profile_def)

lemmas queue_init_profiles = queue_init [unfolded queue_named queue_read]
lemmas sched_init_profiles = sched_init [unfolded sched_named sched_read]

end

text \<open>
  Claim C18. In a database without profiles of the two configured names, the queue initialisation
  sets up both default profiles with the queues of the hardware description: each queue number gets
  one entry, holding every local priority given for it and the last description; no cell of an
  existing row changes but the System row's reference.
\<close>

theorem queue_profiles_initialised:
  assumes "ovs_idl L" "y_qos_info Y = Some info" "yq_default_name info \<noteq> yq_factory_default_name info"
    and "set (idl_rows L T_Q_Profile db) \<inter> set (idl_rows L T_Q_Profile_Entry db) = {}"
    and "\<forall>r \<in> set (idl_rows L T_Q_Profile db).
           get_str L r ''name'' db \<notin> {Some (yq_default_name info), Some (yq_factory_default_name info)}"
    and "sys \<in> set (idl_rows L T_System db)" "sys \<notin> set (idl_rows L T_Q_Profile db)"
  shows "default_profiles L T_Q_Profile ''q_profile_entries'' (queue_view L) info sys ''q_profile''
      (queue_spec (queue_entries Y)) (qos_init_queue_profile L Y sys db) \<and>
    (\<forall>t r c. r \<in> set (idl_rows L t db) \<and> (r \<noteq> sys \<or> c \<noteq> ''q_profile'') \<longrightarrow>
       idl_get L r c (qos_init_queue_profile L Y sys db) = idl_get L r c db)"
  using ovs_idl.queue_init_profiles [OF assms(1-7)] unfolding default_profiles_def
  by (elim exE conjE) (intro conjI exI; assumption)

text \<open>The System row of a fresh in-memory database is row 1.\<close>

definition ex_system :: mem_db where
  "ex_system = snd (mem_insert T_System mem_init)"

lemma ex_system_rows: "mem_rows ex_system t = (if t = T_System then [1] else [])"
  by (simp add: ex_system_def mem_insert_def mem_init_def mem_fresh_def mem_tables_def Let_def)

definition ex_qos :: yaml_qos_info where
  "ex_qos = \<lparr>yq_trust = Some ''none'', yq_default_name = ''default'',
     yq_factory_default_name = ''factory-default''\<rparr>"

lemma ex_yaml_qos: "y_qos_info ex_yaml = Some ex_qos" "yq_default_name ex_qos \<noteq> yq_factory_default_name ex_qos"
  by (simp_all add: ex_yaml_def ex_qos_def)

theorem queue_profiles_initialised_witness:
  "default_profiles mem_lib T_Q_Profile ''q_profile_entries'' (queue_view mem_lib) ex_qos 1 ''q_profile''
     (queue_spec (queue_entries ex_yaml)) (qos_init_queue_profile mem_lib ex_yaml 1 ex_system) \<and>
   queue_spec (queue_entries ex_yaml) 0 = Some ({0, 1}, Some ''Scavenger'', False) \<and>
   queue_spec (queue_entries ex_yaml) 2 = None"
proof -
  have es: "queue_entries ex_yaml = [\<lparr>yq_queue = 0, yq_local_priority = 0, yq_description = Some ''Scavenger''\<rparr>,
      \<lparr>yq_queue = 0, yq_local_priority = 1, yq_description = None\<rparr>,
      \<lparr>yq_queue = 1, yq_local_priority = 2, yq_description = None\<rparr>]" by code_simp
  have "queue_spec (queue_entries ex_yaml) 0 = Some ({0, 1}, Some ''Scavenger'', False)"
    "queue_spec (queue_entries ex_yaml) 2 = None"
    by (simp_all add: es queue_spec_def last_description_def map_filter_simps)
  then show ?thesis
    using queue_profiles_initialised [OF mem_db.ovs_idl_axioms ex_yaml_qos, of ex_system 1]
    by (simp add: ex_system_rows)
qed

text \<open>
  Claim C19. In a database without schedule profiles of the two configured names, the schedule
  initialisation does not fail and sets up both default profiles: the last description of each
  queue gives its algorithm, and its weight unless the algorithm is strict; no cell of an existing
  row changes but the System row's reference.
\<close>

theorem schedule_profiles_initialised:
  assumes "ovs_idl L" "y_qos_info Y = Some info" "yq_default_name info \<noteq> yq_factory_default_name info"
    and "set (idl_rows L T_QoS db) \<inter> set (idl_rows L T_Queue db) = {}"
    and "\<forall>r \<in> set (idl_rows L T_QoS db).
           get_str L r ''name'' db \<notin> {Some (yq_default_name info), Some (yq_factory_default_name info)}"
    and "sys \<in> set (idl_rows L T_System db)" "sys \<notin> set (idl_rows L T_QoS db)"
  shows "\<exists>db'. qos_init_schedule_profile L Y sys db = Inr db' \<and>
    default_profiles L T_QoS ''queues'' (sched_view L) info sys ''qos'' (sched_spec (sched_entries Y)) db' \<and>
    (\<forall>t r c. r \<in> set (idl_rows L t db) \<and> (r \<noteq> sys \<or> c \<noteq> ''qos'') \<longrightarrow> idl_get L r c db' = idl_get L r c db)"
  using ovs_idl.sched_init_profiles [OF assms(1-7)] unfolding default_profiles_def
  by (elim exE conjE) (intro conjI exI; assumption)

theorem schedule_profiles_initialised_witness:
  "(\<exists>db'. qos_init_schedule_profile mem_lib ex_yaml 1 ex_system = Inr db' \<and>
      default_profiles mem_lib T_QoS ''queues'' (sched_view mem_lib) ex_qos 1 ''qos''
        (sched_spec (sched_entries ex_yaml)) db') \<and>
   sched_spec (sched_entries ex_yaml) 0 = Some (Some ''strict'', None, False) \<and>
   sched_spec (sched_entries ex_yaml) 1 = Some (Some ''dwrr'', Some 5, False)"
proof -
  have es: "sched_entries ex_yaml = [\<lparr>ys_queue = 0, ys_algorithm = ''strict'', ys_weight = 5\<rparr>,
      \<lparr>ys_queue = 1, ys_algorithm = ''dwrr'', ys_weight = 5\<rparr>]" by code_simp
  have "sched_spec (sched_entries ex_yaml) 0 = Some (Some ''strict'', None, False)"
    "sched_spec (sched_entries ex_yaml) 1 = Some (Some ''dwrr'', Some 5, False)"
    by (simp_all add: es sched_spec_def)
  then show ?thesis
    using schedule_profiles_initialised [OF mem_db.ovs_idl_axioms ex_yaml_qos, of ex_system 1]
    by (auto simp: ex_system_rows)
qed

end
