(* ===== verification/Qos_Map.thy ===== *)
theory Qos_Map
  imports Qos_Profile
begin

text \<open>
  The code point maps, the trust mode and the ACL limits (\<open>src/qos_init.c\<close>, \<open>src/acl_init.c\<close>). The
  CoS map has eight rows and the DSCP map sixty-four; both are made the same way, which is the
  locale \<open>code_map\<close>, interpreted for each. The properties say what the rows hold, that a longer
  table in the hardware description leaves the row array, and what the System row gets.
\<close>

section \<open>Setting an entry\<close>

abbreviation QOS_CLI_STRING_BUFFER_SIZE :: nat where "QOS_CLI_STRING_BUFFER_SIZE \<equiv> 67"
abbreviation QOS_COS_MAP_ENTRY_COUNT :: nat where "QOS_COS_MAP_ENTRY_COUNT \<equiv> 8"
abbreviation QOS_DSCP_MAP_ENTRY_COUNT :: nat where "QOS_DSCP_MAP_ENTRY_COUNT \<equiv> 64"

definition set_cos_map_entry :: "('db, 'm) ovs_lib \<Rightarrow> row \<Rightarrow> yaml_map_entry \<Rightarrow> 'db \<Rightarrow> 'db" where
  "set_cos_map_entry L r e db =
     (let db1 = idl_set L r ''code_point'' (VInt (ym_code_point e)) db;
          db2 = idl_set L r ''local_priority'' (VInt (ym_local_priority e)) db1;
          db3 = idl_set L r ''color'' (VStr (ym_color e)) db2;
          db4 = idl_set L r ''description'' (VStr (ym_description e)) db3;
          code_point_buffer = snprintf_str QOS_CLI_STRING_BUFFER_SIZE (fmt_d (ym_code_point e));
          local_priority_buffer = snprintf_str QOS_CLI_STRING_BUFFER_SIZE (fmt_d (ym_local_priority e));
          m0 = get_smap L r ''hw_defaults'' db4;
          m1 = smap_replace L ''default_code_point'' code_point_buffer m0;
          m2 = smap_replace L ''default_local_priority'' local_priority_buffer m1;
          m3 = smap_replace L ''default_color'' (ym_color e) m2;
          m4 = smap_replace L ''default_description'' (ym_description e) m3
      in idl_set L r ''hw_defaults'' (VSmap m4) db4)"

text \<open>The DSCP variant, with the priority code point disabled as the file configures it.\<close>

definition set_dscp_map_entry :: "('db, 'm) ovs_lib \<Rightarrow> row \<Rightarrow> yaml_map_entry \<Rightarrow> 'db \<Rightarrow> 'db" where
  "set_dscp_map_entry L r e db =
     (let db1 = idl_set L r ''code_point'' (VInt (ym_code_point e)) db;
          db2 = idl_set L r ''local_priority'' (VInt (ym_local_priority e)) db1;
          db3 = idl_set L r ''color'' (VStr (ym_color e)) db2;
          db4 = idl_set L r ''description'' (VStr (ym_description e)) db3;
          code_point_buffer = snprintf_str QOS_CLI_STRING_BUFFER_SIZE (fmt_d (ym_code_point e));
          local_priority_buffer = snprintf_str QOS_CLI_STRING_BUFFER_SIZE (fmt_d (ym_local_priority e));
          m0 = get_smap L r ''hw_defaults'' db4;
          m1 = smap_replace L ''default_code_point'' code_point_buffer m0;
          m2 = smap_replace L ''default_local_priority'' local_priority_buffer m1;
          m3 = smap_replace L ''default_color'' (ym_color e) m2;
          m4 = smap_replace L ''default_description'' (ym_description e) m3
      in idl_set L r ''hw_defaults'' (VSmap m4) db4)"

section \<open>Making the rows\<close>

fun insert_n :: "('db, 'm) ovs_lib \<Rightarrow> ovs_table \<Rightarrow> nat \<Rightarrow> 'db \<Rightarrow> row list \<times> 'db" where
  "insert_n L t 0 db = ([], db)"
| "insert_n L t (Suc n) db =
     (let (r, db1) = idl_insert L t db; (rs, db2) = insert_n L t n db1 in (r # rs, db2))"

text \<open>One round of the filling loops: entry \<open>ii\<close> of the library into row \<open>ii\<close> of the array.\<close>

definition fill_row ::
  "(row \<Rightarrow> yaml_map_entry \<Rightarrow> 'db \<Rightarrow> 'db) \<Rightarrow> (nat \<Rightarrow> yaml_map_entry option) \<Rightarrow> row list \<Rightarrow> nat \<Rightarrow> 'db \<Rightarrow> fault + 'db"
  where
  "fill_row set_entry entry rows ii db =
     (if length rows \<le> ii then Inl Out_Of_Bounds
      else case entry ii of None \<Rightarrow> Inl Null_Deref | Some e \<Rightarrow> Inr (set_entry (rows ! ii) e db))"

definition qos_init_default_cos_map :: "('db, 'm) ovs_lib \<Rightarrow> yaml_lib \<Rightarrow> row list \<Rightarrow> 'db \<Rightarrow> fault + 'db" where
  "qos_init_default_cos_map L Y cos_map db =
     foldE (fill_row (set_cos_map_entry L) (sysd_cfg_yaml_get_cos_map_entry Y) cos_map) [0..<ucount (sysd_cfg_yaml_get_cos_map_entry_count Y)] db"

definition qos_init_cos_map :: "('db, 'm) ovs_lib \<Rightarrow> yaml_lib \<Rightarrow> row \<Rightarrow> 'db \<Rightarrow> fault + 'db" where
  "qos_init_cos_map L Y sys db =
     (if sysd_cfg_yaml_get_cos_map_entry Y 0 = None then Inr db
      else let (rows, db1) = insert_n L T_QoS_COS_Map_Entry QOS_COS_MAP_ENTRY_COUNT db
           in bindE (qos_init_default_cos_map L Y rows db1)
                (\<lambda>db2. Inr (idl_set L sys ''qos_cos_map_entries'' (VRefs rows) db2)))"

definition qos_init_default_dscp_map :: "('db, 'm) ovs_lib \<Rightarrow> yaml_lib \<Rightarrow> row list \<Rightarrow> 'db \<Rightarrow> fault + 'db" where
  "qos_init_default_dscp_map L Y dscp_map db =
     foldE (fill_row (set_dscp_map_entry L) (sysd_cfg_yaml_get_dscp_map_entry Y) dscp_map) [0..<ucount (sysd_cfg_yaml_get_dscp_map_entry_count Y)] db"

definition qos_init_dscp_map :: "('db, 'm) ovs_lib \<Rightarrow> yaml_lib \<Rightarrow> row \<Rightarrow> 'db \<Rightarrow> fault + 'db" where
  "qos_init_dscp_map L Y sys db =
     (if sysd_cfg_yaml_get_dscp_map_entry Y 0 = None then Inr db
      else let (rows, db1) = insert_n L T_QoS_DSCP_Map_Entry QOS_DSCP_MAP_ENTRY_COUNT db
           in bindE (qos_init_default_dscp_map L Y rows db1)
                (\<lambda>db2. Inr (idl_set L sys ''qos_dscp_map_entries'' (VRefs rows) db2)))"

section \<open>Trust and ACL limits\<close>

definition qos_init_trust :: "('db, 'm) ovs_lib \<Rightarrow> yaml_lib \<Rightarrow> row \<Rightarrow> 'db \<Rightarrow> 'db" where
  "qos_init_trust L Y sys db =
     (case sysd_cfg_yaml_get_qos_info Y of
        None \<Rightarrow> db
      | Some info \<Rightarrow>
          (case yq_trust info of
             None \<Rightarrow> db
           | Some t \<Rightarrow> idl_set L sys ''qos_config''
                         (VSmap (smap_replace L ''qos_trust'' t (get_smap L sys ''qos_config'' db))) db))"

abbreviation ACL_LIMIT_BUFFER_SIZE :: nat where "ACL_LIMIT_BUFFER_SIZE \<equiv> 16"

definition acl_init_limits :: "('db, 'm) ovs_lib \<Rightarrow> yaml_lib \<Rightarrow> row \<Rightarrow> 'db \<Rightarrow> fault + 'db" where
  "acl_init_limits L Y sys db =
     (case sysd_cfg_yaml_get_acl_info Y of
        None \<Rightarrow> Inl Null_Deref
      | Some acl \<Rightarrow>
          (let max_acls_str = snprintf_str ACL_LIMIT_BUFFER_SIZE (fmt_d (ya_max_acls acl));
               max_aces_str = snprintf_str ACL_LIMIT_BUFFER_SIZE (fmt_d (ya_max_aces acl));
               max_aces_per_acl_str = snprintf_str ACL_LIMIT_BUFFER_SIZE (fmt_d (ya_max_aces_per_acl acl));
               m0 = get_smap L sys ''other_info'' db;
               m1 = smap_replace L ''max_acls'' max_acls_str m0;
               m2 = smap_replace L ''max_aces'' max_aces_str m1;
               m3 = smap_replace L ''max_aces_per_acl'' max_aces_per_acl_str m2
           in Inr (idl_set L sys ''other_info'' (VSmap m3) db)))"

section \<open>What the rows hold\<close>

definition int32 :: "int \<Rightarrow> bool" where
  "int32 i \<longleftrightarrow> - (2 ^ 31) \<le> i \<and> i < 2 ^ 31"

definition map_entry_set :: "('db, 'm) ovs_lib \<Rightarrow> row \<Rightarrow> yaml_map_entry \<Rightarrow> 'db \<Rightarrow> bool" where
  "map_entry_set L r e db \<longleftrightarrow>
     get_int L r ''code_point'' db = ym_code_point e \<and> get_int L r ''local_priority'' db = ym_local_priority e \<and>
     get_str L r ''color'' db = Some (ym_color e) \<and> get_str L r ''description'' db = Some (ym_description e) \<and>
     (let m = smap_get L (get_smap L r ''hw_defaults'' db)
      in m ''default_code_point'' = Some (fmt_d (ym_code_point e)) \<and>
         m ''default_local_priority'' = Some (fmt_d (ym_local_priority e)) \<and>
         m ''default_color'' = Some (ym_color e) \<and> m ''default_description'' = Some (ym_description e))"

definition wf_map_entry :: "yaml_map_entry \<Rightarrow> bool" where
  "wf_map_entry e \<longleftrightarrow> int32 (ym_code_point e) \<and> int32 (ym_local_priority e)"

lemma snprintf_int32 [simp]: "int32 i \<Longrightarrow> 12 \<le> sz \<Longrightarrow> snprintf_str sz (fmt_d i) = fmt_d i"
  using length_fmt_d32 [of i] by (intro snprintf_str_fits) (simp add: int32_def)

lemma set_dscp_eq_cos: "set_dscp_map_entry = set_cos_map_entry"
  by (intro ext) (simp add: set_dscp_map_entry_def set_cos_map_entry_def)

lemma fill_row_ok: "ii < length rows \<Longrightarrow> ent ii = Some e \<Longrightarrow> fill_row f ent rows ii db = Inr (f (rows ! ii) e db)"
  by (simp add: fill_row_def)

lemma fill_row_out: "length rows \<le> ii \<Longrightarrow> fill_row f ent rows ii db = Inl Out_Of_Bounds"
  by (simp add: fill_row_def)

text \<open>The contract of the two maps: a table, its size, where the entries come from.\<close>

locale code_map = ovs_idl L for L :: "('db, 'm) ovs_lib" +
  fixes tab :: ovs_table
    and size :: nat
    and col :: string
    and count :: "yaml_lib \<Rightarrow> int"
    and entry :: "yaml_lib \<Rightarrow> nat \<Rightarrow> yaml_map_entry option"
    and init :: "yaml_lib \<Rightarrow> row \<Rightarrow> 'db \<Rightarrow> fault + 'db"
  assumes tab: "tab \<noteq> T_System"
    and init: "init Y sys db =
      (if entry Y 0 = None then Inr db
       else let (rows, db1) = insert_n L tab size db
            in bindE (foldE (fill_row (set_cos_map_entry L) (entry Y) rows) [0..<ucount (count Y)] db1)
                 (\<lambda>db2. Inr (idl_set L sys col (VRefs rows) db2)))"

context ovs_idl
begin

lemma set_entry_other:
  "r' \<noteq> r \<Longrightarrow> idl_get L r' c (set_cos_map_entry L r e db) = idl_get L r' c db"
  by (simp add: set_cos_map_entry_def Let_def get_set_other)

lemma set_entry_rows: "idl_rows L t (set_cos_map_entry L r e db) = idl_rows L t db"
  by (simp add: set_cos_map_entry_def Let_def rows_set)

lemma set_entry_same:
  assumes "\<And>c. idl_get L r c db = VNone" "wf_map_entry e"
  shows "map_entry_set L r e (set_cos_map_entry L r e db)"
proof -
  let ?m = "smap_replace L ''default_description'' (ym_description e)
    (smap_replace L ''default_color'' (ym_color e)
    (smap_replace L ''default_local_priority'' (fmt_d (ym_local_priority e))
    (smap_replace L ''default_code_point'' (fmt_d (ym_code_point e)) (smap_init L))))"
  let ?db4 = "idl_set L r ''description'' (VStr (ym_description e)) (idl_set L r ''color'' (VStr (ym_color e))
    (idl_set L r ''local_priority'' (VInt (ym_local_priority e))
    (idl_set L r ''code_point'' (VInt (ym_code_point e)) db)))"
  have "get_smap L r ''hw_defaults'' ?db4 = smap_init L"
    by (simp add: get_smap_def get_set_other assms(1))
  then have set: "set_cos_map_entry L r e db = idl_set L r ''hw_defaults'' (VSmap ?m) ?db4"
    using assms(2) by (simp add: set_cos_map_entry_def Let_def wf_map_entry_def)
  have dist: "distinct (smap_keys L ?m)" by (intro distinct_keys_replace) (simp add: keys_init)
  show ?thesis
    unfolding set map_entry_set_def get_smap_same [OF dist]
    by (simp add: get_other get_same get_replace Let_def)
qed

lemma insert_n:
  assumes "insert_n L t n db = (rs, db')"
  shows "length rs = n \<and> distinct rs \<and> (\<forall>r \<in> set rs. \<forall>t'. r \<notin> set (idl_rows L t' db)) \<and>
    (\<forall>t'. set (idl_rows L t' db') = (if t' = t then set rs \<union> set (idl_rows L t' db) else set (idl_rows L t' db))) \<and>
    (\<forall>r c. idl_get L r c db' = (if r \<in> set rs then VNone else idl_get L r c db))"
  using assms
proof (induction n arbitrary: db rs db')
  case (Suc n)
  obtain r db1 where ins: "idl_insert L t db = (r, db1)" by fastforce
  obtain rs2 db2 where rest: "insert_n L t n db1 = (rs2, db2)" by fastforce
  note IH = Suc.IH [OF rest]
  have res: "rs = r # rs2" "db' = db2" using Suc.prems ins rest by simp_all
  have rows1: "set (idl_rows L t' db1) = (if t' = t then insert r (set (idl_rows L t' db)) else set (idl_rows L t' db))"
    for t' by (rule insert_rows [OF ins])
  have "r \<in> set (idl_rows L t db1)" by (simp add: rows1)
  with IH have "r \<notin> set rs2" by blast
  moreover have "r' \<notin> set (idl_rows L t' db)" if "r' \<in> set rs2" for r' t'
    using IH that rows1 [of t'] by (metis insertCI)
  ultimately show ?case
    using IH insert_fresh [OF ins] insert_get [OF ins] rows1 by (auto simp: res)
qed simp

end

context code_map
begin

lemma fill_none:
  assumes "distinct rows" "k \<le> length rows" "\<forall>i < k. \<exists>e. entry Y i = Some e \<and> wf_map_entry e"
    and "\<forall>r \<in> set rows. \<forall>c. idl_get L r c db = VNone"
  shows "\<exists>db'. foldE (fill_row (set_cos_map_entry L) (entry Y) rows) [0..<k] db = Inr db' \<and>
    (\<forall>t. idl_rows L t db' = idl_rows L t db) \<and>
    (\<forall>i < k. map_entry_set L (rows ! i) (the (entry Y i)) db') \<and>
    (\<forall>r c. r \<notin> set (take k rows) \<longrightarrow> idl_get L r c db' = idl_get L r c db)"
  using assms(2,3)
proof (induction k)
  case (Suc k)
  then obtain d where d: "foldE (fill_row (set_cos_map_entry L) (entry Y) rows) [0..<k] db = Inr d"
    "\<forall>t. idl_rows L t d = idl_rows L t db" "\<forall>i < k. map_entry_set L (rows ! i) (the (entry Y i)) d"
    "\<forall>r c. r \<notin> set (take k rows) \<longrightarrow> idl_get L r c d = idl_get L r c db" by auto
  obtain e where e: "entry Y k = Some e" "wf_map_entry e" using Suc.prems(2) by blast
  have k: "k < length rows" using Suc.prems(1) by simp
  let ?d = "set_cos_map_entry L (rows ! k) e d"
  have other: "rows ! i \<noteq> rows ! k" if "i < k" for i
    using that k assms(1) by (simp add: nth_eq_iff_index_eq)
  have knew: "rows ! k \<notin> set (take k rows)"
    using k assms(1) by (auto simp: in_set_conv_nth nth_eq_iff_index_eq)
  have "map_entry_set L (rows ! i) (the (entry Y i)) ?d" if "i < Suc k" for i
  proof (cases "i = k")
    case True
    have "idl_get L (rows ! k) c d = VNone" for c using d(4) knew assms(4) k by simp
    from set_entry_same [OF this e(2)] True e show ?thesis by simp
  next
    case False
    then have i: "i < k" using that by simp
    then show ?thesis
      using d(3) set_entry_other [OF other [OF i], of _ e d] by (simp add: map_entry_set_def get_defs)
  qed
  moreover have "idl_get L r c ?d = idl_get L r c db" if "r \<notin> set (take (Suc k) rows)" for r c
    using that d(4) k by (simp add: take_Suc_conv_app_nth set_entry_other)
  moreover have "foldE (fill_row (set_cos_map_entry L) (entry Y) rows) [0..<Suc k] db = Inr ?d"
    using d(1) e(1) k by (simp add: foldE_append fill_row_ok)
  ultimately show ?case using d(2) by (intro exI [of _ ?d]) (simp add: set_entry_rows)
qed simp

lemma map_made:
  assumes "0 < count Y" "count Y \<le> int size" "size < 2 ^ 31" "sys \<in> set (idl_rows L T_System db)"
    and "\<forall>i < nat (count Y). \<exists>e. entry Y i = Some e \<and> wf_map_entry e"
  shows "\<exists>rows db'. init Y sys db = Inr db' \<and> length rows = size \<and> distinct rows \<and>
    set (get_refs L sys col db') = set rows \<and>
    (\<forall>i < nat (count Y). map_entry_set L (rows ! i) (the (entry Y i)) db') \<and>
    (\<forall>i < size. nat (count Y) \<le> i \<longrightarrow> (\<forall>c. idl_get L (rows ! i) c db' = VNone)) \<and>
    (\<forall>t r c. r \<in> set (idl_rows L t db) \<and> (r \<noteq> sys \<or> c \<noteq> col) \<longrightarrow> idl_get L r c db' = idl_get L r c db)"
proof -
  obtain rows db1 where ins: "insert_n L tab size db = (rows, db1)" by fastforce
  note new = insert_n [OF ins]
  have k: "ucount (count Y) = nat (count Y)"
    using assms(1-3) by (simp add: ucount_def unsigned_of_int take_bit_int_eq_self)
  have le: "nat (count Y) \<le> length rows" using new assms(2) by simp
  have "entry Y 0 \<noteq> None" using assms(1,5) by (metis option.distinct(1) zero_less_nat_eq)
  moreover obtain d where d: "foldE (fill_row (set_cos_map_entry L) (entry Y) rows) [0..<nat (count Y)] db1 = Inr d"
    "\<forall>i < nat (count Y). map_entry_set L (rows ! i) (the (entry Y i)) d"
    "\<forall>r c. r \<notin> set (take (nat (count Y)) rows) \<longrightarrow> idl_get L r c d = idl_get L r c db1"
    using fill_none [OF _ le assms(5), of db1] new by auto
  ultimately have res: "init Y sys db = Inr (idl_set L sys col (VRefs rows) d)"
    by (auto simp: init ins k)
  let ?db = "idl_set L sys col (VRefs rows) d"
  have sys: "sys \<notin> set rows" using new assms(4) by blast
  have row: "idl_get L (rows ! i) c ?db = idl_get L (rows ! i) c d" if "i < size" for i c
    using that new sys by (intro get_set_other) (metis nth_mem)
  have "map_entry_set L (rows ! i) (the (entry Y i)) ?db" if "i < nat (count Y)" for i
    using d(2) that row [of i] assms(2) by (simp add: map_entry_set_def get_defs)
  moreover have "idl_get L (rows ! i) c ?db = VNone" if "i < size" "nat (count Y) \<le> i" for i c
  proof -
    have "rows ! i \<notin> set (take (nat (count Y)) rows)"
      using that new by (auto simp: in_set_conv_nth nth_eq_iff_index_eq)
    then show ?thesis using row [OF that(1)] d(3) new that(1) by simp
  qed
  moreover have "idl_get L r c ?db = idl_get L r c db"
    if "r \<in> set (idl_rows L t db)" "r \<noteq> sys \<or> c \<noteq> col" for t r c
  proof -
    have "r \<notin> set rows" using new that(1) by blast
    then show ?thesis using d(3) new that(2) by (simp add: get_set_other) (metis in_set_takeD)
  qed
  ultimately show ?thesis
    using res new get_refs_same [of sys col rows d]
    by (intro exI [of _ rows] exI [of _ ?db]) blast
qed

lemma map_overrun:
  assumes "\<forall>i < size. entry Y i \<noteq> None" "0 < size" "size < ucount (count Y)"
  shows "init Y sys db = Inl Out_Of_Bounds"
proof -
  obtain rows db1 where ins: "insert_n L tab size db = (rows, db1)" by fastforce
  have len: "length rows = size" using insert_n [OF ins] by simp
  have "foldE (fill_row (set_cos_map_entry L) (entry Y) rows) [0..<k] db1 \<in> range Inr" if "k \<le> size" for k
    using that
  proof (induction k)
    case (Suc k)
    then obtain d where "foldE (fill_row (set_cos_map_entry L) (entry Y) rows) [0..<k] db1 = Inr d" by auto
    moreover obtain e where "entry Y k = Some e" using assms(1) Suc.prems by fastforce
    ultimately show ?case using Suc.prems len by (simp add: foldE_append fill_row_ok)
  qed simp
  then obtain d where d: "foldE (fill_row (set_cos_map_entry L) (entry Y) rows) [0..<size] db1 = Inr d" by auto
  have "foldE (fill_row (set_cos_map_entry L) (entry Y) rows) (size # xs) d = Inl Out_Of_Bounds" for xs
    using len by (simp add: fill_row_out)
  moreover have upt: "[0..<ucount (count Y)] = [0..<size] @ size # [Suc size..<ucount (count Y)]"
    using upt_add_eq_append [of 0 size "ucount (count Y) - size"] upt_conv_Cons [OF assms(3)] assms(3)
    by simp
  ultimately have "foldE (fill_row (set_cos_map_entry L) (entry Y) rows) [0..<ucount (count Y)] db1 = Inl Out_Of_Bounds"
    unfolding upt foldE_append d by simp
  moreover have "entry Y 0 \<noteq> None" using assms(1,2) by blast
  ultimately show ?thesis by (simp add: init ins)
qed

end

sublocale ovs_idl \<subseteq> cos: code_map L T_QoS_COS_Map_Entry QOS_COS_MAP_ENTRY_COUNT "''qos_cos_map_entries''"
  y_cos_count y_cos_entry "qos_init_cos_map L"
  by unfold_locales (simp_all add: qos_init_cos_map_def qos_init_default_cos_map_def)

sublocale ovs_idl \<subseteq> dscp: code_map L T_QoS_DSCP_Map_Entry QOS_DSCP_MAP_ENTRY_COUNT "''qos_dscp_map_entries''"
  y_dscp_count y_dscp_entry "qos_init_dscp_map L"
  by unfold_locales (simp_all add: qos_init_dscp_map_def qos_init_default_dscp_map_def set_dscp_eq_cos)

context ovs_idl
begin

lemmas cos_map_made = cos.map_made and cos_overrun = cos.map_overrun
  and dscp_map_made = dscp.map_made

end

section \<open>Properties of the maps and of the System row\<close>

text \<open>
  A map's initialisation: a fixed number of new rows, referred to by a column of the System row; the
  first ones hold the entries of the hardware description, with the decimal texts among the saved
  defaults; the others are blank; nothing else changes.
\<close>

definition map_initialised ::
  "('db, 'm) ovs_lib \<Rightarrow> nat \<Rightarrow> string \<Rightarrow> int \<Rightarrow> (nat \<Rightarrow> yaml_map_entry option) \<Rightarrow> row \<Rightarrow> 'db \<Rightarrow> 'db \<Rightarrow> bool" where
  "map_initialised L sz col cnt entry sys db db' \<longleftrightarrow>
     (\<exists>rows. length rows = sz \<and> distinct rows \<and> set (get_refs L sys col db') = set rows \<and>
        (\<forall>i < nat cnt. map_entry_set L (rows ! i) (the (entry i)) db') \<and>
        (\<forall>i < sz. nat cnt \<le> i \<longrightarrow> (\<forall>c. idl_get L (rows ! i) c db' = VNone)) \<and>
        (\<forall>t r c. r \<in> set (idl_rows L t db) \<and> (r \<noteq> sys \<or> c \<noteq> col) \<longrightarrow> idl_get L r c db' = idl_get L r c db))"

text \<open>
  Claim C39. With at most eight CoS entries, all present and within the range of an \<open>int\<close>, the CoS
  initialisation makes the eight rows of the map as described.
\<close>

theorem cos_map_initialised:
  assumes "ovs_idl L" "0 < y_cos_count Y" "y_cos_count Y \<le> 8" "sys \<in> set (idl_rows L T_System db)"
    and "\<forall>i < nat (y_cos_count Y). \<exists>e. y_cos_entry Y i = Some e \<and> wf_map_entry e"
  shows "\<exists>db'. qos_init_cos_map L Y sys db = Inr db' \<and>
    map_initialised L 8 ''qos_cos_map_entries'' (y_cos_count Y) (y_cos_entry Y) sys db db'"
  using ovs_idl.cos_map_made [OF assms(1), of Y sys db] assms(2-5)
  unfolding map_initialised_def by simp blast

theorem cos_map_initialised_witness:
  "\<exists>db'. qos_init_cos_map mem_lib ex_yaml 1 ex_system = Inr db' \<and>
    map_initialised mem_lib 8 ''qos_cos_map_entries'' 2 (y_cos_entry ex_yaml) 1 ex_system db'"
  using cos_map_initialised [OF mem_db.ovs_idl_axioms, of ex_yaml 1 ex_system]
  by (simp add: ex_system_rows ex_yaml_def wf_map_entry_def int32_def)

text \<open>
  With at most sixty-four DSCP entries, all present and within the range of an \<open>int\<close>, the
  DSCP initialisation makes the sixty-four rows of the map as described.
\<close>

lemma dscp_map_initialised:
  assumes "ovs_idl L" "0 < y_dscp_count Y" "y_dscp_count Y \<le> 64" "sys \<in> set (idl_rows L T_System db)"
    and "\<forall>i < nat (y_dscp_count Y). \<exists>e. y_dscp_entry Y i = Some e \<and> wf_map_entry e"
  shows "\<exists>db'. qos_init_dscp_map L Y sys db = Inr db' \<and>
    map_initialised L 64 ''qos_dscp_map_entries'' (y_dscp_count Y) (y_dscp_entry Y) sys db db'"
  using ovs_idl.dscp_map_made [OF assms(1), of Y sys db] assms(2-5)
  unfolding map_initialised_def by simp blast

text \<open>
  A hardware description with more CoS entries than the map has rows makes the loop leave
  the array of rows; so does a negative count, which the unsigned counter reads as a huge one.
\<close>

lemma cos_map_overrun:
  assumes "ovs_idl L" "\<forall>i < 8. y_cos_entry Y i \<noteq> None" "8 < y_cos_count Y \<or> y_cos_count Y < 0"
    and "int32 (y_cos_count Y)"
  shows "qos_init_cos_map L Y sys db = Inl Out_Of_Bounds"
proof -
  have "ucount (y_cos_count Y) = nat (y_cos_count Y mod 2 ^ 32)"
    by (simp add: ucount_def unsigned_of_int take_bit_eq_mod)
  moreover have "8 < y_cos_count Y mod 2 ^ 32"
  proof (cases "y_cos_count Y < 0")
    case True
    have "(y_cos_count Y + 2 ^ 32) mod 2 ^ 32 = y_cos_count Y + 2 ^ 32"
      using assms(4) True by (intro mod_pos_pos_trivial) (simp_all add: int32_def)
    with assms(4) show ?thesis by (simp add: int32_def)
  next
    case False
    with assms(3,4) show ?thesis by (simp add: int32_def)
  qed
  ultimately show ?thesis
    using ovs_idl.cos_overrun [OF assms(1), of Y] assms(2) by simp
qed

context ovs_idl
begin

lemma acl_limits_kept:
  assumes "y_acl_info Y = Some acl" "int32 (ya_max_acls acl)" "int32 (ya_max_aces acl)"
    "int32 (ya_max_aces_per_acl acl)" "distinct (smap_keys L (get_smap L sys ''other_info'' db))"
  shows "\<exists>db'. acl_init_limits L Y sys db = Inr db' \<and>
    smap_get L (get_smap L sys ''other_info'' db') =
      (smap_get L (get_smap L sys ''other_info'' db))(''max_acls'' \<mapsto> fmt_d (ya_max_acls acl),
         ''max_aces'' \<mapsto> fmt_d (ya_max_aces acl), ''max_aces_per_acl'' \<mapsto> fmt_d (ya_max_aces_per_acl acl)) \<and>
    (\<forall>r c. r \<noteq> sys \<or> c \<noteq> ''other_info'' \<longrightarrow> idl_get L r c db' = idl_get L r c db)"
proof -
  let ?m = "smap_replace L ''max_aces_per_acl'' (fmt_d (ya_max_aces_per_acl acl))
    (smap_replace L ''max_aces'' (fmt_d (ya_max_aces acl))
    (smap_replace L ''max_acls'' (fmt_d (ya_max_acls acl)) (get_smap L sys ''other_info'' db)))"
  have dist: "distinct (smap_keys L ?m)" using assms(5) by (intro distinct_keys_replace)
  have "acl_init_limits L Y sys db = Inr (idl_set L sys ''other_info'' (VSmap ?m) db)"
    using assms(1-4) by (simp add: acl_init_limits_def)
  then show ?thesis
    using get_smap_same [OF dist, of sys "''other_info''" db]
    by (auto simp: get_set_other fun_eq_iff get_replace)
qed

end

text \<open>
  With ACL limits in the hardware description, the System row's \<open>other_info\<close> gets the
  three limits in decimal, untruncated in their sixteen-byte buffers, and keeps its other keys;
  without them the code reads through a null pointer.
\<close>

lemma acl_limits_stored:
  assumes "ovs_idl L" "distinct (smap_keys L (get_smap L sys ''other_info'' db))"
    and "\<And>acl. y_acl_info Y = Some acl \<Longrightarrow> int32 (ya_max_acls acl) \<and> int32 (ya_max_aces acl) \<and> int32 (ya_max_aces_per_acl acl)"
  shows "case y_acl_info Y of
      None \<Rightarrow> acl_init_limits L Y sys db = Inl Null_Deref
    | Some acl \<Rightarrow> \<exists>db'. acl_init_limits L Y sys db = Inr db' \<and>
        smap_get L (get_smap L sys ''other_info'' db') =
          (smap_get L (get_smap L sys ''other_info'' db))(''max_acls'' \<mapsto> fmt_d (ya_max_acls acl),
             ''max_aces'' \<mapsto> fmt_d (ya_max_aces acl), ''max_aces_per_acl'' \<mapsto> fmt_d (ya_max_aces_per_acl acl)) \<and>
        (\<forall>r c. r \<noteq> sys \<or> c \<noteq> ''other_info'' \<longrightarrow> idl_get L r c db' = idl_get L r c db)"
proof (cases "y_acl_info Y")
  case None
  then show ?thesis by (simp add: acl_init_limits_def)
next
  case (Some acl)
  with ovs_idl.acl_limits_kept [OF assms(1) Some _ _ _ assms(2)] assms(3) show ?thesis by simp
qed

end
