(* ===== verification/Subsystem.thy ===== *)
theory Subsystem
  imports Cfg_Yaml
begin

text \<open>
  The base subsystem (\<open>src/sysd.c\<close>): its structure, the allocation of its management and system MAC
  addresses out of the FRU's range, and the table of its ports. The properties say that the
  addresses handed out and those left over are exactly the FRU's range, each once, and what the
  port table holds.
\<close>

section \<open>The structure\<close>

record subsystem =
  sub_name :: string
  sub_type :: string
  intf_count :: int
  intf_cmn_info :: "yaml_port_info option"
  interfaces :: "yaml_port list"
  sub_fru :: fru_eeprom
  nxt_mac_addr :: u64
  num_free_macs :: int
  mgmt_mac_addr :: u64
  system_mac_addr :: u64

definition subsystem_zero :: subsystem where
  "subsystem_zero = \<lparr>sub_name = [], sub_type = [], intf_count = 0, intf_cmn_info = None, interfaces = [],
     sub_fru = fru_zero, nxt_mac_addr = 0, num_free_macs = 0, mgmt_mac_addr = 0, system_mac_addr = 0\<rparr>"

text \<open>The two conversions of the ops-utils library.\<close>

record ops_utils =
  ops_char_array_to_ulong_long :: "u8 list \<Rightarrow> u64"
  ops_ether_ulong_long_to_string :: "u64 \<Rightarrow> string"

section \<open>Allocating the addresses\<close>

text \<open>The second half of \<open>sysd_get_subsystem_info\<close>: the two tests, one after the other.\<close>

definition take_mgmt_mac :: "subsystem \<Rightarrow> subsystem" where
  "take_mgmt_mac s =
     (if num_free_macs s > 0
      then s\<lparr>mgmt_mac_addr := nxt_mac_addr s, num_free_macs := num_free_macs s - 1,
             nxt_mac_addr := nxt_mac_addr s + 1\<rparr>
      else s)"

definition take_system_mac :: "subsystem \<Rightarrow> subsystem" where
  "take_system_mac s =
     (if num_free_macs s > 0
      then s\<lparr>system_mac_addr := nxt_mac_addr s, num_free_macs := num_free_macs s - 1,
             nxt_mac_addr := nxt_mac_addr s + 1\<rparr>
      else s)"

text \<open>
  \<open>sysd_get_subsystem_info\<close>: \<open>allocs\<close> tells whether the table of subsystems, the subsystem and the
  EEPROM buffer can be allocated. The value is the return code and the subsystem, when there is one.
\<close>

definition sysd_get_subsystem_info ::
  "yaml_lib \<Rightarrow> ops_utils \<Rightarrow> (u32 \<Rightarrow> u8 list option \<Rightarrow> u32) \<Rightarrow> u32 \<times> u32 \<times> u32 \<Rightarrow> bool \<times> bool \<times> bool \<Rightarrow>
   cfg_state \<Rightarrow> fault + (int \<times> subsystem option)" where
  "sysd_get_subsystem_info Y U crc32 rnd allocs st =
     (case allocs of (table_ok, sub_ok, eeprom_ok) \<Rightarrow>
        if \<not> table_ok \<or> \<not> sub_ok then Inr (-1, None)
        else bindE (sysd_read_fru_eeprom Y crc32 rnd eeprom_ok st fru_zero) (\<lambda>(rc, fru).
          let s = subsystem_zero\<lparr>sub_fru := fru\<rparr>
          in if rc \<noteq> 0 then Inr (-1, Some s)
             else let s1 = s\<lparr>sub_name := ''base'', sub_type := ''system'',
                             num_free_macs := uint (num_macs fru),
                             nxt_mac_addr := ops_char_array_to_ulong_long U (base_mac_address fru)\<rparr>
                  in Inr (0, Some (take_system_mac (take_mgmt_mac s1)))))"

section \<open>The ports\<close>

text \<open>The loop: a missing port ends it.\<close>

fun get_ports :: "yaml_lib \<Rightarrow> nat \<Rightarrow> nat \<Rightarrow> yaml_port list option" where
  "get_ports Y idx 0 = Some []"
| "get_ports Y idx (Suc n) =
     (case sysd_cfg_yaml_get_port_info Y idx of
        None \<Rightarrow> None
      | Some p \<Rightarrow> (case get_ports Y (Suc idx) n of None \<Rightarrow> None | Some ps \<Rightarrow> Some (p # ps)))"

definition sysd_get_interface_info :: "yaml_lib \<Rightarrow> bool \<Rightarrow> subsystem \<Rightarrow> int \<times> subsystem" where
  "sysd_get_interface_info Y alloc_ok s =
     (case sysd_cfg_yaml_get_port_subsys_info Y of
        None \<Rightarrow> (-1, s)
      | Some cmn \<Rightarrow>
          (if sysd_cfg_yaml_get_port_count Y \<le> 0 then (-1, s)
           else if \<not> alloc_ok then (-1, s)
           else case get_ports Y 0 (nat (sysd_cfg_yaml_get_port_count Y)) of
                  None \<Rightarrow> (-1, s)
                | Some ps \<Rightarrow> (0, s\<lparr>intf_count := sysd_cfg_yaml_get_port_count Y, intf_cmn_info := Some cmn, interfaces := ps\<rparr>)))"

section \<open>Properties\<close>

text \<open>The addresses not handed out yet.\<close>

definition mac_pool :: "subsystem \<Rightarrow> u64 list" where
  "mac_pool s = map (\<lambda>i. nxt_mac_addr s + of_nat i) [0..<nat (num_free_macs s)]"

text \<open>The FRU's range: \<open>num_macs\<close> addresses from the base address on.\<close>

definition mac_range :: "ops_utils \<Rightarrow> fru_eeprom \<Rightarrow> u64 list" where
  "mac_range U fru =
     map (\<lambda>i. ops_char_array_to_ulong_long U (base_mac_address fru) + of_nat i) [0..<unat (num_macs fru)]"

lemma distinct_mac_range: "distinct (mac_range U fru)"
proof -
  have "i = j" if "i < unat (num_macs fru)" "j < unat (num_macs fru)" "(of_nat i :: u64) = of_nat j" for i j
  proof -
    have "i < 2 ^ LENGTH(64)" "j < 2 ^ LENGTH(64)"
      using that(1,2) unsigned_less [of "num_macs fru", where ?'a = nat] by simp_all
    with that(3) show ?thesis by (simp add: word_of_nat_eq_iff take_bit_nat_eq_self)
  qed
  then show ?thesis by (auto simp: mac_range_def distinct_map inj_on_def)
qed

lemma upt_Suc_shift: "[0..<Suc n] = 0 # map Suc [0..<n]"
  by (simp add: upt_conv_Cons map_Suc_upt del: upt_Suc)

lemma shift_range: "map (\<lambda>i. (b :: u64) + of_nat i) [0..<Suc n] = b # map (\<lambda>i. b + 1 + of_nat i) [0..<n]"
  by (simp add: upt_Suc_shift o_def add.assoc del: upt_Suc)

lemma taken_macs:
  assumes "num_free_macs s = int n" "nxt_mac_addr s = b" "s' = take_system_mac (take_mgmt_mac s)"
  shows "(if 0 < n then [mgmt_mac_addr s'] else []) @ (if 1 < n then [system_mac_addr s'] else []) @ mac_pool s' =
    map (\<lambda>i. b + of_nat i) [0..<n]"
proof (cases n)
  case 0
  with assms show ?thesis by (simp add: take_mgmt_mac_def take_system_mac_def mac_pool_def)
next
  case (Suc m)
  show ?thesis
  proof (cases m)
    case 0
    with assms Suc show ?thesis by (simp add: take_mgmt_mac_def take_system_mac_def mac_pool_def)
  next
    case (Suc k)
    with \<open>n = Suc m\<close> assms have "s' = s\<lparr>mgmt_mac_addr := b, system_mac_addr := b + 1, num_free_macs := int k,
        nxt_mac_addr := b + 1 + 1\<rparr>"
      by (simp add: take_mgmt_mac_def take_system_mac_def)
    with Suc \<open>n = Suc m\<close> show ?thesis by (simp only: shift_range mac_pool_def) simp
  qed
qed

lemma no_macs:
  assumes "num_free_macs s = int n" "mgmt_mac_addr s = 0" "system_mac_addr s = 0"
    and "s' = take_system_mac (take_mgmt_mac s)"
  shows "\<not> 0 < n \<Longrightarrow> mgmt_mac_addr s' = 0" "\<not> 1 < n \<Longrightarrow> system_mac_addr s' = 0"
  using assms by (simp_all add: take_mgmt_mac_def take_system_mac_def)

lemma subsystem_macs:
  assumes "sysd_get_subsystem_info Y U crc32 rnd allocs st = Inr (0, Some s)"
  shows "(if 0 < num_macs (sub_fru s) then [mgmt_mac_addr s] else []) @
      (if 1 < num_macs (sub_fru s) then [system_mac_addr s] else []) @ mac_pool s = mac_range U (sub_fru s) \<and>
    distinct (mac_range U (sub_fru s)) \<and>
    (num_macs (sub_fru s) = 0 \<longrightarrow> mgmt_mac_addr s = 0) \<and> (num_macs (sub_fru s) \<le> 1 \<longrightarrow> system_mac_addr s = 0)"
proof -
  obtain fru s1 where s1: "s1 = subsystem_zero\<lparr>sub_fru := fru, sub_name := ''base'', sub_type := ''system'',
      num_free_macs := int (unat (num_macs fru)),
      nxt_mac_addr := ops_char_array_to_ulong_long U (base_mac_address fru)\<rparr>"
    and s: "s = take_system_mac (take_mgmt_mac s1)"
    using assms by (auto simp: sysd_get_subsystem_info_def bindE_eq_Inr Let_def split: prod.splits if_splits)
  have fru: "sub_fru s = fru" by (simp add: s s1 take_mgmt_mac_def take_system_mac_def)
  have num: "num_free_macs s1 = int (unat (num_macs fru))"
    and nxt: "nxt_mac_addr s1 = ops_char_array_to_ulong_long U (base_mac_address fru)" by (simp_all add: s1)
  have less: "0 < num_macs fru \<longleftrightarrow> 0 < unat (num_macs fru)" "1 < num_macs fru \<longleftrightarrow> 1 < unat (num_macs fru)"
    by (simp_all add: word_less_nat_alt)
  have "mgmt_mac_addr s1 = 0" "system_mac_addr s1 = 0" by (simp_all add: s1 subsystem_zero_def)
  note zero = no_macs [OF num this s]
  show ?thesis
    using taken_macs [OF num nxt s] distinct_mac_range [of U fru] zero
    unfolding fru less mac_range_def not_less [symmetric] unat_eq_zero [symmetric] not_gr_zero [symmetric] by blast
qed

text \<open>
  Claim C11. When the base subsystem is read, the management address (if the FRU has any), the system
  address (if it has two) and the addresses left over are, in this order, exactly the FRU's range,
  which has no duplicates: every address is handed out once and none is lost. Addresses there were
  none for stay zero.
\<close>

theorem mac_addresses_conserved:
  assumes "sysd_get_subsystem_info Y U crc32 rnd allocs st = Inr (0, Some s)"
  shows "(if 0 < num_macs (sub_fru s) then [mgmt_mac_addr s] else []) @
      (if 1 < num_macs (sub_fru s) then [system_mac_addr s] else []) @ mac_pool s = mac_range U (sub_fru s) \<and>
    distinct (mac_range U (sub_fru s)) \<and>
    (num_macs (sub_fru s) = 0 \<longrightarrow> mgmt_mac_addr s = 0) \<and> (num_macs (sub_fru s) \<le> 1 \<longrightarrow> system_mac_addr s = 0)"
  using subsystem_macs [OF assms] .

definition ex_utils :: ops_utils where
  "ex_utils = \<lparr>ops_char_array_to_ulong_long = foldl (\<lambda>a b. 256 * a + ucast b) 0,
     ops_ether_ulong_long_to_string = (\<lambda>w. concat (map (\<lambda>k. (if k = 5 then [] else [CHR '':'']) @
        fmt_02x (ucast (drop_bit (8 * k) w))) [5, 4, 3, 2, 1, 0]))\<rparr>"

definition ex_subsystem :: subsystem where
  "ex_subsystem = (case sysd_get_subsystem_info ex_yaml ex_utils sum_crc (7, 8, 9) (True, True, True) \<lparr>fru_yaml = False, fru_dev = True\<rparr> of
     Inr (rc, Some s) \<Rightarrow> s | _ \<Rightarrow> subsystem_zero)"

theorem mac_addresses_conserved_witness:
  "[mgmt_mac_addr ex_subsystem, system_mac_addr ex_subsystem] @ mac_pool ex_subsystem =
     mac_range ex_utils (sub_fru ex_subsystem) \<and>
   mgmt_mac_addr ex_subsystem = 0x7072cf000001 \<and> num_free_macs ex_subsystem = 72"
proof -
  have "sysd_get_subsystem_info ex_yaml ex_utils sum_crc (7, 8, 9) (True, True, True) \<lparr>fru_yaml = False, fru_dev = True\<rparr> = Inr (0, Some ex_subsystem)"
    by code_simp
  moreover have "mgmt_mac_addr ex_subsystem = 0x7072cf000001" "num_free_macs ex_subsystem = 72"
    "num_macs (sub_fru ex_subsystem) = 74" by code_simp+
  ultimately show ?thesis
    using mac_addresses_conserved [of ex_yaml ex_utils sum_crc "(7, 8, 9)" "(True, True, True)"
      "\<lparr>fru_yaml = False, fru_dev = True\<rparr>" ex_subsystem]
    by simp
qed

lemma get_ports_Some:
  "get_ports Y idx n = Some ps \<longleftrightarrow> length ps = n \<and> (\<forall>i < n. y_port Y (idx + i) = Some (ps ! i))"
proof (induction n arbitrary: idx ps)
  case (Suc n)
  show ?case
  proof (cases ps)
    case (Cons p qs)
    have "(\<forall>i < Suc n. y_port Y (idx + i) = Some ((p # qs) ! i)) \<longleftrightarrow>
        y_port Y idx = Some p \<and> (\<forall>i < n. y_port Y (Suc idx + i) = Some (qs ! i))"
      by (auto simp: less_Suc_eq_0_disj)
    moreover have "get_ports Y idx (Suc n) = Some (p # qs) \<longleftrightarrow>
        y_port Y idx = Some p \<and> get_ports Y (Suc idx) n = Some qs"
      by (auto split: option.splits)
    ultimately show ?thesis using Suc [of "Suc idx" qs] Cons by auto
  qed (auto split: option.splits)
qed auto

text \<open>
  The interface table is taken over exactly when the library gives the port information, a
  positive count and every port below it, and memory is there; it then holds the ports in order, and
  otherwise the subsystem is unchanged.
\<close>

lemma interface_table:
  assumes "sysd_get_interface_info Y alloc_ok s = (rc, s')"
  shows "(rc = 0 \<longleftrightarrow> y_port_info Y \<noteq> None \<and> 0 < y_port_count Y \<and> alloc_ok \<and>
            (\<forall>i < nat (y_port_count Y). y_port Y i \<noteq> None)) \<and>
    (rc = 0 \<longrightarrow> intf_count s' = y_port_count Y \<and> intf_cmn_info s' = y_port_info Y \<and>
       interfaces s' = map (\<lambda>i. the (y_port Y i)) [0..<nat (y_port_count Y)]) \<and>
    (rc \<noteq> 0 \<longrightarrow> rc = -1 \<and> s' = s)"
proof (cases "get_ports Y 0 (nat (y_port_count Y))")
  case None
  let ?ps = "map (\<lambda>i. the (y_port Y i)) [0..<nat (y_port_count Y)]"
  have "get_ports Y 0 (nat (y_port_count Y)) \<noteq> Some ?ps" using None by simp
  then have "\<not> (\<forall>i < nat (y_port_count Y). y_port Y i \<noteq> None)"
    unfolding get_ports_Some by fastforce
  with assms None show ?thesis
    by (auto simp: sysd_get_interface_info_def split: option.splits if_splits)
next
  case (Some ps)
  then have ps: "length ps = nat (y_port_count Y)" "\<forall>i < nat (y_port_count Y). y_port Y i = Some (ps ! i)"
    by (auto simp: get_ports_Some)
  then have "ps = map (\<lambda>i. the (y_port Y i)) [0..<nat (y_port_count Y)]"
    by (intro nth_equalityI) auto
  with assms Some ps(2) show ?thesis
    by (auto simp: sysd_get_interface_info_def split: option.splits if_splits)
qed

end
