(* ===== verification/Sys_Files.thy ===== *)
theory Sys_Files
  imports Prelude
begin

text \<open>
  Locating the hardware description (\<open>src/sysd_util.c\<close>): the first useful line of two commands gives
  manufacturer and product name, and a symbolic link is made to the directory of that name. The
  commands' output and the answers of the file system are arguments, what the code does to the file
  system is a list of calls. The properties say which names are found, what link is made and what
  happens on each failure.
\<close>

section \<open>Reading a command's output\<close>

abbreviation quote_char :: char where "quote_char \<equiv> CHR 0x22"

text \<open>
  \<open>strip_quotes\<close>: a terminator over the closing quote, then \<open>memmove\<close> of the \<open>len - 1\<close> bytes from
  the second one on.
\<close>

definition strip_quotes :: "string \<Rightarrow> string" where
  "strip_quotes s =
     (if s \<noteq> [] \<and> hd s = quote_char \<and> last s = quote_char
      then let n = length s; s1 = s[n - 1 := CHR 0x00] in cstr (tl s1 @ drop (n - 1) s1)
      else s)"

text \<open>
  The loop of \<open>get_sys_cmd_out\<close> over what \<open>getline\<close> returns: comment lines and lines that begin with
  a NUL are skipped, and the last byte of the line found is overwritten.
\<close>

fun first_line :: "string list \<Rightarrow> string option" where
  "first_line [] = None"
| "first_line (l # ls) =
     (if l = [] then None
      else if hd l = CHR ''#'' then first_line ls
      else if hd l \<noteq> CHR 0x00 then Some (cstr (butlast l))
      else first_line ls)"

text \<open>The output is absent when \<open>popen\<close> fails.\<close>

definition get_sys_cmd_out :: "string list option \<Rightarrow> string option" where
  "get_sys_cmd_out output = (case output of None \<Rightarrow> None | Some ls \<Rightarrow> first_line ls)"

definition get_manuf_and_prodname ::
  "string list option \<Rightarrow> string list option \<Rightarrow> string option \<times> string option" where
  "get_manuf_and_prodname manuf_out prod_out =
     (case get_sys_cmd_out manuf_out of
        None \<Rightarrow> (None, None)
      | Some m \<Rightarrow>
          (case get_sys_cmd_out prod_out of
             None \<Rightarrow> (Some (strip_quotes m), None)
           | Some p \<Rightarrow> (Some (strip_quotes m), Some (strip_quotes p))))"

section \<open>The link\<close>

text \<open>The configured paths, and what the file system answers.\<close>

record hw_paths =
  HWDESC_FILES_PATH :: string
  HWDESC_FILE_LINK :: string
  HWDESC_FILE_LINK_PATH :: string

datatype mkdir_result = Mkdir_Ok | Mkdir_Exists | Mkdir_Error

record fs_env =
  stat_ok :: "string \<Rightarrow> bool"
  mkdir_rc :: mkdir_result
  symlink_ok :: bool

datatype fs_call = Remove string | Mkdir string | Symlink string string

text \<open>\<open>create_link_to_desc_files\<close>: the result code, the directory kept in \<open>g_hw_desc_dir\<close>, the calls.\<close>

definition create_link_to_desc_files ::
  "hw_paths \<Rightarrow> fs_env \<Rightarrow> string \<Rightarrow> string \<Rightarrow> int \<times> string \<times> fs_call list" where
  "create_link_to_desc_files P fs manufacturer product_name =
     (let dir = snprintf_str 1024 (HWDESC_FILES_PATH P @ ''/'' @ manufacturer @ ''/'' @ product_name);
          removed = [Remove (HWDESC_FILE_LINK P), Mkdir (HWDESC_FILE_LINK_PATH P)]
      in if \<not> stat_ok fs dir then (-1, dir, [])
         else if mkdir_rc fs = Mkdir_Error then (-1, dir, removed)
         else if \<not> symlink_ok fs then (-1, dir, removed @ [Symlink dir (HWDESC_FILE_LINK P)])
         else (0, dir, removed @ [Symlink dir (HWDESC_FILE_LINK P)]))"

text \<open>
  \<open>sysd_create_link_to_hwdesc_files\<close>: \<open>sim\<close> is the build with \<open>PLATFORM_SIMULATION\<close>; \<open>old\<close> is the
  value \<open>g_hw_desc_dir\<close> had.
\<close>

definition sysd_create_link_to_hwdesc_files ::
  "bool \<Rightarrow> hw_paths \<Rightarrow> fs_env \<Rightarrow> string list option \<Rightarrow> string list option \<Rightarrow> string \<Rightarrow>
   int \<times> string \<times> fs_call list" where
  "sysd_create_link_to_hwdesc_files sim P fs manuf_out prod_out old =
     (case (if sim then (Some ''Generic-x86'', Some ''X86-64'') else get_manuf_and_prodname manuf_out prod_out) of
        (Some m, Some p) \<Rightarrow>
          (let (rc, dir, calls) = create_link_to_desc_files P fs m p
           in (if rc \<noteq> 0 then -1 else 0, dir, calls))
      | _ \<Rightarrow> (-1, old, []))"

text \<open>\<open>sysd_find_hw_desc_files\<close> of \<open>src/sysd.c\<close>.\<close>

definition sysd_find_hw_desc_files ::
  "bool \<Rightarrow> hw_paths \<Rightarrow> fs_env \<Rightarrow> string list option \<Rightarrow> string list option \<Rightarrow> string \<Rightarrow>
   int \<times> string \<times> fs_call list" where
  "sysd_find_hw_desc_files sim P fs manuf_out prod_out old =
     (let (rc, dir, calls) = sysd_create_link_to_hwdesc_files sim P fs manuf_out prod_out old
      in (if rc \<noteq> 0 then -1 else rc, dir, calls))"

section \<open>Properties\<close>

lemma strip_quotes_quoted:
  assumes "CHR 0x00 \<notin> set s"
  shows "strip_quotes (quote_char # s @ [quote_char]) = s"
proof -
  have "tl ((quote_char # s @ [quote_char])[length s + 1 := CHR 0x00]) = s @ [CHR 0x00]"
    by (simp add: list_update_append)
  then show ?thesis using assms by (simp add: strip_quotes_def Let_def cstr_simps)
qed

text \<open>A name the command prints, with or without quotes around it.\<close>

definition printable :: "string \<Rightarrow> bool" where
  "printable s \<longleftrightarrow> s \<noteq> [] \<and> CHR 0x00 \<notin> set s \<and> hd s \<noteq> CHR ''#'' \<and> quote_char \<notin> set s"

definition name_line :: "bool \<Rightarrow> string \<Rightarrow> string" where
  "name_line quoted s = (if quoted then quote_char # s @ [quote_char] else s) @ [CHR 0x0A]"

definition comment_line :: "string \<Rightarrow> bool" where
  "comment_line l \<longleftrightarrow> l \<noteq> [] \<and> hd l = CHR ''#''"

lemma first_line_name:
  assumes "list_all comment_line cs" "printable s"
  shows "map_option strip_quotes (first_line (cs @ name_line q s # rest)) = Some s"
  using assms(1)
proof (induction cs)
  case Nil
  have "hd s \<noteq> CHR 0x00" "hd s \<noteq> quote_char" using assms(2) by (auto simp: printable_def dest: hd_in_set)
  moreover have "cstr s = s" "cstr (quote_char # s @ [quote_char]) = quote_char # s @ [quote_char]"
    using assms(2) by (simp_all add: printable_def cstr_simps)
  ultimately show ?case
    using assms(2) strip_quotes_quoted [of s]
    by (cases q) (simp_all add: name_line_def printable_def hd_append butlast_append strip_quotes_def [of s])
qed (simp add: comment_line_def)

text \<open>
  Claim C40. When both commands print their name on a line of its own, quoted or not, after any
  number of comment lines, and the directory exists and the link can be made, the old link is
  removed, the directory for it is made and the link is made to
  \<open>path/manufacturer/product\<close>, cut to 1023 characters; the result is 0.
\<close>

theorem hwdesc_link_made:
  assumes "list_all comment_line cs" "list_all comment_line ds" "printable m" "printable p"
    and "dir = take 1023 (HWDESC_FILES_PATH P @ ''/'' @ m @ ''/'' @ p)"
    and "stat_ok fs dir" "mkdir_rc fs \<noteq> Mkdir_Error" "symlink_ok fs"
  shows "sysd_find_hw_desc_files False P fs (Some (cs @ name_line q m # rest)) (Some (ds @ name_line q' p # rest')) old =
    (0, dir, [Remove (HWDESC_FILE_LINK P), Mkdir (HWDESC_FILE_LINK_PATH P), Symlink dir (HWDESC_FILE_LINK P)])"
proof -
  obtain x y where "first_line (cs @ name_line q m # rest) = Some x" "strip_quotes x = m"
    "first_line (ds @ name_line q' p # rest') = Some y" "strip_quotes y = p"
    using first_line_name [OF assms(1,3), of q rest] first_line_name [OF assms(2,4), of q' rest'] by auto
  then show ?thesis
    using assms(5-)
    by (simp add: sysd_find_hw_desc_files_def sysd_create_link_to_hwdesc_files_def
          create_link_to_desc_files_def get_manuf_and_prodname_def get_sys_cmd_out_def snprintf_str_def Let_def)
qed

theorem hwdesc_link_made_witness:
  "sysd_find_hw_desc_files False
      \<lparr>HWDESC_FILES_PATH = ''/etc/openswitch/platform'', HWDESC_FILE_LINK = ''/etc/openswitch/hwdesc'',
       HWDESC_FILE_LINK_PATH = ''/etc/openswitch''\<rparr>
      \<lparr>stat_ok = (\<lambda>d. d = ''/etc/openswitch/platform/Acme/AS5712''), mkdir_rc = Mkdir_Exists, symlink_ok = True\<rparr>
      (Some [''# comment'' @ [CHR 0x0A], quote_char # ''Acme'' @ [quote_char, CHR 0x0A]]) (Some [''AS5712'' @ [CHR 0x0A]]) ''/'' =
   (0, ''/etc/openswitch/platform/Acme/AS5712'',
    [Remove ''/etc/openswitch/hwdesc'', Mkdir ''/etc/openswitch'',
     Symlink ''/etc/openswitch/platform/Acme/AS5712'' ''/etc/openswitch/hwdesc''])"
  using hwdesc_link_made [of "[''# comment'' @ [CHR 0x0A]]" "[]" "''Acme''" "''AS5712''"
      "''/etc/openswitch/platform/Acme/AS5712''"
      "\<lparr>HWDESC_FILES_PATH = ''/etc/openswitch/platform'', HWDESC_FILE_LINK = ''/etc/openswitch/hwdesc'',
       HWDESC_FILE_LINK_PATH = ''/etc/openswitch''\<rparr>"
      "\<lparr>stat_ok = (\<lambda>d. d = ''/etc/openswitch/platform/Acme/AS5712''), mkdir_rc = Mkdir_Exists, symlink_ok = True\<rparr>"
      True "[]" False "[]" "''/''"]
  by (simp add: comment_line_def printable_def name_line_def)

text \<open>
  A result of 0 means that the directory kept in \<open>g_hw_desc_dir\<close> exists and that the
  last call made the link to it; on any other result no link to a missing directory was made, and
  when a name could not be read nothing was done at all.
\<close>

lemma hwdesc_result:
  assumes "sysd_find_hw_desc_files sim P fs manuf_out prod_out old = (rc, dir, calls)"
  shows "rc \<in> {0, -1} \<and>
    (rc = 0 \<longrightarrow> stat_ok fs dir \<and> symlink_ok fs \<and> calls \<noteq> [] \<and> last calls = Symlink dir (HWDESC_FILE_LINK P)) \<and>
    (\<forall>d l. Symlink d l \<in> set calls \<longrightarrow> d = dir \<and> stat_ok fs dir) \<and>
    (\<not> sim \<and> (get_sys_cmd_out manuf_out = None \<or> get_sys_cmd_out prod_out = None) \<longrightarrow>
       rc = -1 \<and> dir = old \<and> calls = [])"
  using assms
  by (auto simp: sysd_find_hw_desc_files_def sysd_create_link_to_hwdesc_files_def
        create_link_to_desc_files_def get_manuf_and_prodname_def Let_def
        split: if_splits option.splits prod.splits)

end
