(* ===== verification/Interfaces.thy ===== *)
theory Interfaces
  imports Ovs_Lib Subsystem Manifest
begin

text \<open>
  Interface, daemon and subsystem rows of the start-up transaction (\<open>src/sysd_ovsdb_if.c\<close>): the text
  of the supported speeds, built in a buffer of 128 bytes; the interface row and its string map; the
  links between a splittable port and its subports; the daemon row; the subsystem row with the FRU
  information, the interfaces and the MAC addresses left over. The names the code takes from the
  generated headers of the schema are the fields of a record \<open>K\<close>.
\<close>

section \<open>Names from the schema headers\<close>

record idl_names =
  k_pluggable :: string
  k_pluggable_true :: string
  k_pluggable_false :: string
  k_connector :: string
  k_max_speed :: string
  k_speeds :: string
  k_switch_unit :: string
  k_switch_intf_id :: string
  k_mac_addr :: string
  k_bridge :: string
  k_bridge_true :: string
  k_admin :: string
  k_admin_up :: string
  k_type_system :: string
  k_type_internal :: string
  k_admin_down :: string
  k_bridge_name :: string
  k_vrf_name :: string
  k_vrf_status :: string
  k_vrf_status_value :: string
  k_mgmt_name :: string

section \<open>The text of the speeds\<close>

text \<open>
  \<open>sysd_get_speeds_string\<close>: each speed is printed into ten bytes, all but the first after a comma,
  and appended with \<open>strncat\<close>, whose bound is the size of the whole buffer and not what is left of
  it; writing the terminator past \<open>sz\<close> bytes is a fault.
\<close>

definition strncat_in :: "nat \<Rightarrow> string \<Rightarrow> string \<Rightarrow> nat \<Rightarrow> fault + string" where
  "strncat_in sz s piece len =
     (let r = s @ take len piece in if sz \<le> length r then Inl Out_Of_Bounds else Inr r)"

fun speeds_from :: "nat \<Rightarrow> bool \<Rightarrow> int list \<Rightarrow> string \<Rightarrow> fault + string" where
  "speeds_from len first [] s = Inr s"
| "speeds_from len first (v # vs) s =
     bindE (strncat_in len s (snprintf_str 10 (if first then fmt_d v else CHR '','' # fmt_d v)) len)
       (speeds_from len False vs)"

definition sysd_get_speeds_string :: "string \<Rightarrow> nat \<Rightarrow> int list \<Rightarrow> fault + string" where
  "sysd_get_speeds_string speed_str len speeds = speeds_from len True speeds speed_str"

section \<open>Rows\<close>

text \<open>\<open>sysd_initial_interface_add\<close>; the capabilities are added in turn, known or not.\<close>

definition hw_intf_info ::
  "('db, 'm) ovs_lib \<Rightarrow> idl_names \<Rightarrow> ops_utils \<Rightarrow> u64 \<Rightarrow> yaml_port \<Rightarrow> string \<Rightarrow> 'm" where
  "hw_intf_info L K U system_mac p speeds =
     (let m1 = smap_add L (k_pluggable K) (if yp_pluggable p then k_pluggable_true K else k_pluggable_false K) (smap_init L);
          m2 = smap_add L (k_connector K) (yp_connector p) m1;
          m3 = smap_add L (k_max_speed K) (fmt_d (yp_max_speed p)) m2;
          m4 = smap_add L (k_speeds K) speeds m3;
          m5 = smap_add L (k_switch_unit K) (fmt_d (yp_device p)) m4;
          m6 = smap_add L (k_switch_intf_id K) (fmt_d (yp_device_port p)) m5;
          m7 = fold (\<lambda>c m. smap_add L c ''true'' m) (yp_capabilities p) m6
      in if system_mac \<noteq> 0
         then smap_add L (k_mac_addr K) (ops_ether_ulong_long_to_string U system_mac) m7 else m7)"

definition sysd_initial_interface_add ::
  "('db, 'm) ovs_lib \<Rightarrow> idl_names \<Rightarrow> ops_utils \<Rightarrow> u64 \<Rightarrow> yaml_port \<Rightarrow> 'db \<Rightarrow> fault + (row \<times> 'db)" where
  "sysd_initial_interface_add L K U system_mac p db =
     (let (r, db1) = idl_insert L T_Interface db;
          db2 = idl_set L r ''name'' (VStr (yp_name p)) db1;
          db3 = idl_set L r ''type'' (VStr (k_type_system K)) db2;
          db4 = idl_set L r ''admin_state'' (VStr (k_admin_down K)) db3
      in bindE (sysd_get_speeds_string [] 128 (yp_speeds p)) (\<lambda>speeds.
           Inr (r, idl_set L r ''hw_intf_info'' (VSmap (hw_intf_info L K U system_mac p speeds)) db4)))"

text \<open>
  \<open>sysd_set_splittable_port_info\<close>: the table of the ports that take part in a split, by the name of
  their rows (\<open>shash_add\<close> puts a pair in front, \<open>shash_find_data\<close> looks from there), then the
  references. \<open>subports\<close> is an array of four.
\<close>

definition splittable :: "yaml_port \<Rightarrow> bool" where
  "splittable p \<longleftrightarrow> yp_subports p \<noteq> [] \<or> yp_parent_port p \<noteq> None"

definition split_table ::
  "('db, 'm) ovs_lib \<Rightarrow> 'db \<Rightarrow> (yaml_port \<times> row) list \<Rightarrow> (string \<times> row) list" where
  "split_table L db prs =
     rev (map (\<lambda>(p, r). (case get_str L r ''name'' db of Some n \<Rightarrow> n | None \<Rightarrow> [], r))
            (filter (\<lambda>(p, r). splittable p) prs))"

definition SYSD_MAX_SPLIT_PORTS :: nat where "SYSD_MAX_SPLIT_PORTS = 4"

text \<open>The rows of the subports found, in order; a name not found leaves no gap.\<close>

fun find_subports :: "(string \<times> row) list \<Rightarrow> string list \<Rightarrow> row list \<Rightarrow> fault + row list" where
  "find_subports tab [] acc = Inr acc"
| "find_subports tab (n # ns) acc =
     (if SYSD_MAX_SPLIT_PORTS \<le> length acc then Inl Out_Of_Bounds
      else case map_of tab n of
             None \<Rightarrow> find_subports tab ns acc
           | Some r \<Rightarrow> find_subports tab ns (acc @ [r]))"

definition set_split_refs ::
  "('db, 'm) ovs_lib \<Rightarrow> (string \<times> row) list \<Rightarrow> yaml_port \<times> row \<Rightarrow> 'db \<Rightarrow> fault + 'db" where
  "set_split_refs L tab pr db =
     (case pr of (p, r) \<Rightarrow>
        (let db1 = (case yp_parent_port p of
                      None \<Rightarrow> db
                    | Some n \<Rightarrow> (case map_of tab n of None \<Rightarrow> db
                                 | Some parent \<Rightarrow> idl_set L r ''split_parent'' (VRef parent) db))
         in if yp_subports p = [] then Inr db1
            else bindE (find_subports tab (yp_subports p) [])
                   (\<lambda>rs. Inr (idl_set L r ''split_children'' (VRefs rs) db1))))"

definition sysd_set_splittable_port_info ::
  "('db, 'm) ovs_lib \<Rightarrow> (yaml_port \<times> row) list \<Rightarrow> 'db \<Rightarrow> fault + 'db" where
  "sysd_set_splittable_port_info L prs db = foldE (set_split_refs L (split_table L db prs)) prs db"

definition sysd_initial_daemon_add :: "('db, 'm) ovs_lib \<Rightarrow> daemon_info \<Rightarrow> 'db \<Rightarrow> row \<times> 'db" where
  "sysd_initial_daemon_add L d db =
     (let (r, db1) = idl_insert L T_Daemon db;
          db2 = idl_set L r ''name'' (VStr (d_name d)) db1;
          db3 = idl_set L r ''cur_hw'' (VInt (d_cur_hw d)) db2
      in (r, idl_set L r ''is_hw_handler'' (VBool (d_is_hw_handler d)) db3))"

section \<open>The subsystem row\<close>

definition or_empty :: "string option \<Rightarrow> string" where
  "or_empty p = (case p of None \<Rightarrow> [] | Some s \<Rightarrow> s)"

definition mac_bytes_str :: "u8 list \<Rightarrow> string" where
  "mac_bytes_str bs =
     fmt_02x (bs ! 0) @ '':'' @ fmt_02x (bs ! 1) @ '':'' @ fmt_02x (bs ! 2) @ '':'' @
     fmt_02x (bs ! 3) @ '':'' @ fmt_02x (bs ! 4) @ '':'' @ fmt_02x (bs ! 5)"

text \<open>The pairs of \<open>other_info\<close> in the order they are added; \<open>"%c"\<close> of a NUL prints an empty string.\<close>

definition other_info_pairs :: "fru_eeprom \<Rightarrow> yaml_port_info \<Rightarrow> (string \<times> string) list" where
  "other_info_pairs fru cmn =
     [(''country_code'', country_code fru),
      (''device_version'', cstr [char_of (unat (device_version fru))]),
      (''diag_version'', or_empty (diag_version fru)),
      (''label_revision'', or_empty (label_revision fru)),
      (''base_mac_address'', mac_bytes_str (base_mac_address fru)),
      (''number_of_macs'', fmt_d (uint (num_macs fru))),
      (''manufacturer'', or_empty (manufacturer fru)),
      (''manufacture_date'', manufacture_date fru),
      (''onie_version'', or_empty (onie_version fru)),
      (''part_number'', or_empty (part_number fru)),
      (''Product Name'', or_empty (product_name fru)),
      (''platform_name'', or_empty (platform_name fru)),
      (''serial_number'', or_empty (serial_number fru)),
      (''vendor'', or_empty (vendor fru)),
      (''interface_count'', fmt_d (number_ports cmn)),
      (''max_interface_speed'', fmt_d (max_port_speed cmn)),
      (''max_transmission_unit'', fmt_d (max_transmission_unit cmn)),
      (''max_bond_count'', fmt_d (max_lag_count cmn)),
      (''max_bond_member_count'', fmt_d (max_lag_member_count cmn)),
      (''l3_port_requires_internal_vlan'', fmt_d (l3_port_requires_internal_vlan cmn))]"

definition add_pairs :: "('db, 'm) ovs_lib \<Rightarrow> (string \<times> string) list \<Rightarrow> 'm" where
  "add_pairs L ps = fold (\<lambda>(k, v) m. smap_add L k v m) ps (smap_init L)"

fun add_interfaces ::
  "('db, 'm) ovs_lib \<Rightarrow> idl_names \<Rightarrow> ops_utils \<Rightarrow> u64 \<Rightarrow> yaml_port list \<Rightarrow> 'db \<Rightarrow> fault + ((yaml_port \<times> row) list \<times> 'db)"
  where
  "add_interfaces L K U mac [] db = Inr ([], db)"
| "add_interfaces L K U mac (p # ps) db =
     bindE (sysd_initial_interface_add L K U mac p db) (\<lambda>(r, db1).
     bindE (add_interfaces L K U mac ps db1) (\<lambda>(prs, db2). Inr ((p, r) # prs, db2)))"

text \<open>
  \<open>sysd_initial_subsystem_add\<close>: \<open>alloc_ok\<close> is the allocation of the row array, without which the
  function returns early; the port information is read through its pointer.
\<close>

definition sysd_initial_subsystem_add ::
  "('db, 'm) ovs_lib \<Rightarrow> idl_names \<Rightarrow> ops_utils \<Rightarrow> string \<Rightarrow> bool \<Rightarrow> subsystem \<Rightarrow> 'db \<Rightarrow> fault + (row \<times> 'db)" where
  "sysd_initial_subsystem_add L K U hw_desc_dir alloc_ok s db =
     (let (r, db1) = idl_insert L T_Subsystem db;
          db2 = idl_set L r ''name'' (VStr (sub_name s)) db1;
          db3 = idl_set L r ''asset_tag_number'' (VStr ''OpenSwitch asset tag'') db2;
          db4 = idl_set L r ''hw_desc_dir'' (VStr hw_desc_dir) db3
      in case intf_cmn_info s of
           None \<Rightarrow> Inl Null_Deref
         | Some cmn \<Rightarrow>
             (let db5 = idl_set L r ''other_info'' (VSmap (add_pairs L (other_info_pairs (sub_fru s) cmn))) db4
              in if \<not> alloc_ok then Inr (r, db5)
                 else bindE (add_interfaces L K U (system_mac_addr s) (interfaces s) db5) (\<lambda>(prs, db6).
                      bindE (sysd_set_splittable_port_info L prs db6) (\<lambda>db7.
                        let db8 = idl_set L r ''next_mac_address''
                                    (VStr (ops_ether_ulong_long_to_string U (nxt_mac_addr s))) db7;
                            db9 = idl_set L r ''macs_remaining'' (VInt (num_free_macs s)) db8
                        in Inr (r, idl_set L r ''interfaces'' (VRefs (map snd prs)) db9)))))"

section \<open>The speeds fit or not\<close>

fun comma_join :: "string list \<Rightarrow> string" where
  "comma_join [] = []"
| "comma_join [s] = s"
| "comma_join (s # ss) = s @ CHR '','' # comma_join ss"

definition speed_fits :: "int \<Rightarrow> bool" where
  "speed_fits v \<longleftrightarrow> 0 \<le> v \<and> v < 10 ^ 8"

lemma length_speed: "speed_fits v \<Longrightarrow> length (fmt_d v) \<le> 8"
  using length_dec_digits [of "nat v" 8] by (auto simp: speed_fits_def fmt_d_def nat_less_iff)

lemma speeds_rest:
  assumes "list_all speed_fits vs" "length s + 9 * length vs < sz" "9 \<le> sz"
  shows "speeds_from sz False vs s = Inr (s @ concat (map (\<lambda>v. CHR '','' # fmt_d v) vs))"
  using assms(1,2)
proof (induction vs arbitrary: s)
  case (Cons v vs)
  have len: "length (fmt_d v) \<le> 8" using Cons.prems(1) length_speed by simp
  then have "strncat_in sz s (snprintf_str 10 (CHR '','' # fmt_d v)) sz = Inr (s @ CHR '','' # fmt_d v)"
    using Cons.prems(2) assms(3) by (simp add: strncat_in_def Let_def)
  then show ?case using Cons.IH [of "s @ CHR '','' # fmt_d v"] Cons.prems len by simp
qed simp

lemma comma_join_Cons: "comma_join (s # ss) = s @ concat (map (\<lambda>t. CHR '','' # t) ss)"
  by (induction ss arbitrary: s) simp_all

lemma speeds_join:
  assumes "list_all speed_fits speeds" "length speeds \<le> 14"
  shows "sysd_get_speeds_string [] 128 speeds = Inr (comma_join (map fmt_d speeds))"
proof (cases speeds)
  case Nil
  then show ?thesis by (simp add: sysd_get_speeds_string_def)
next
  case (Cons v vs)
  have len: "length (fmt_d v) \<le> 8" using assms(1) length_speed Cons by simp
  then have "strncat_in 128 [] (snprintf_str 10 (fmt_d v)) 128 = Inr (fmt_d v)"
    by (simp add: strncat_in_def Let_def)
  moreover have "speeds_from 128 False vs (fmt_d v) = Inr (fmt_d v @ concat (map (\<lambda>v. CHR '','' # fmt_d v) vs))"
    using assms Cons len by (intro speeds_rest) simp_all
  ultimately show ?thesis
    by (simp add: Cons sysd_get_speeds_string_def comma_join_Cons o_def)
qed

text \<open>
  At most fourteen speeds of at most eight digits are joined with commas without
  leaving the buffer of 128 bytes.
\<close>

lemma speeds_joined:
  assumes "list_all speed_fits speeds" "length speeds \<le> 14"
  shows "sysd_get_speeds_string [] 128 speeds = Inr (comma_join (map fmt_d speeds))"
  using assms by (rule speeds_join)

lemma length_speed8: "10 ^ 7 \<le> v \<Longrightarrow> v < 10 ^ 8 \<Longrightarrow> length (fmt_d v) = 8"
proof -
  assume v: "10 ^ 7 \<le> v" "v < 10 ^ 8"
  have "nat v < 10 ^ length (dec_digits (nat v))" by (rule dec_digits_upper)
  moreover have "(10::nat) ^ 7 \<le> nat v" using v by simp
  ultimately have "(10::nat) ^ 7 < 10 ^ length (dec_digits (nat v))" by (rule le_less_trans [rotated])
  then have "7 < length (dec_digits (nat v))" by (rule power_less_imp_less_exp [rotated]) simp
  with v length_speed [of v] show ?thesis by (simp add: fmt_d_def speed_fits_def)
qed

lemma speeds_run_over:
  assumes "list_all (\<lambda>v. 10 ^ 7 \<le> v \<and> v < 10 ^ 8) vs" "length s < 128" "128 \<le> length s + 9 * length vs"
  shows "speeds_from 128 False vs s = Inl Out_Of_Bounds"
  using assms
proof (induction vs arbitrary: s)
  case (Cons v vs)
  have len: "length (fmt_d v) = 8" using Cons.prems(1) by (simp add: length_speed8)
  show ?case
  proof (cases "128 \<le> length s + 9")
    case True
    with len show ?thesis by (simp add: strncat_in_def)
  next
    case False
    then have "strncat_in 128 s (snprintf_str 10 (CHR '','' # fmt_d v)) 128 = Inr (s @ CHR '','' # fmt_d v)"
      using len by (simp add: strncat_in_def)
    moreover have "speeds_from 128 False vs (s @ CHR '','' # fmt_d v) = Inl Out_Of_Bounds"
      using Cons.prems False len by (intro Cons.IH) simp_all
    ultimately show ?thesis by simp
  qed
qed simp

text \<open>
  Fifteen or more speeds of eight digits leave the buffer: the bound given to
  \<open>strncat\<close> is the size of the buffer, not what is left of it.
\<close>

lemma speeds_overflow:
  assumes "list_all (\<lambda>v. 10 ^ 7 \<le> v \<and> v < 10 ^ 8) speeds" "15 \<le> length speeds"
  shows "sysd_get_speeds_string [] 128 speeds = Inl Out_Of_Bounds"
proof (cases speeds)
  case (Cons v vs)
  have "length (fmt_d v) = 8" using assms(1) Cons by (simp add: length_speed8)
  then have "strncat_in 128 [] (snprintf_str 10 (fmt_d v)) 128 = Inr (fmt_d v)"
    by (simp add: strncat_in_def Let_def)
  moreover have "speeds_from 128 False vs (fmt_d v) = Inl Out_Of_Bounds"
    using assms Cons \<open>length (fmt_d v) = 8\<close> by (intro speeds_run_over) simp_all
  ultimately show ?thesis by (simp add: Cons sysd_get_speeds_string_def)
qed (use assms in simp)

section \<open>Interface rows\<close>

text \<open>The pairs of an interface's \<open>hw_intf_info\<close>.\<close>

definition hw_pairs :: "idl_names \<Rightarrow> ops_utils \<Rightarrow> u64 \<Rightarrow> yaml_port \<Rightarrow> string \<Rightarrow> (string \<times> string) list" where
  "hw_pairs K U system_mac p speeds =
     [(k_pluggable K, if yp_pluggable p then k_pluggable_true K else k_pluggable_false K),
      (k_connector K, yp_connector p), (k_max_speed K, fmt_d (yp_max_speed p)), (k_speeds K, speeds),
      (k_switch_unit K, fmt_d (yp_device p)), (k_switch_intf_id K, fmt_d (yp_device_port p))] @
     map (\<lambda>c. (c, ''true'')) (yp_capabilities p) @
     (if system_mac \<noteq> 0 then [(k_mac_addr K, ops_ether_ulong_long_to_string U system_mac)] else [])"

definition wf_port_keys :: "idl_names \<Rightarrow> yaml_port \<Rightarrow> bool" where
  "wf_port_keys K p \<longleftrightarrow> distinct ([k_pluggable K, k_connector K, k_max_speed K, k_speeds K, k_switch_unit K,
     k_switch_intf_id K, k_mac_addr K] @ yp_capabilities p)"

lemma hw_intf_info_pairs: "hw_intf_info L K U mac p speeds = add_pairs L (hw_pairs K U mac p speeds)"
proof -
  have "fold (\<lambda>(k, v) m. smap_add L k v m) (map (\<lambda>c. (c, ''true'')) cs) m = fold (\<lambda>c m. smap_add L c ''true'' m) cs m"
    for cs m by (induction cs arbitrary: m) simp_all
  then show ?thesis by (simp add: hw_intf_info_def add_pairs_def hw_pairs_def Let_def)
qed

lemma distinct_hw_pairs: "wf_port_keys K p \<Longrightarrow> distinct (map fst (hw_pairs K U mac p speeds))"
  by (auto simp: wf_port_keys_def hw_pairs_def o_def)

context smap_lib
begin

lemma add_pairs_get:
  assumes "distinct (map fst ps)"
  shows "smap_get L (add_pairs L ps) = map_of ps" "distinct (smap_keys L (add_pairs L ps))"
    "set (smap_keys L (add_pairs L ps)) = fst ` set ps"
proof -
  have "smap_get L (add_pairs L ps) = map_of ps \<and> distinct (smap_keys L (add_pairs L ps)) \<and>
      set (smap_keys L (add_pairs L ps)) = fst ` set ps"
    using assms
  proof (induction ps rule: rev_induct)
    case Nil
    then show ?case by (simp add: add_pairs_def fun_eq_iff keys_init)
  next
    case (snoc kv ps)
    obtain k v where kv: "kv = (k, v)" by (cases kv)
    have new: "k \<notin> fst ` set ps" using snoc.prems kv by simp
    have step: "add_pairs L (ps @ [(k, v)]) = smap_add L k v (add_pairs L ps)" by (simp add: add_pairs_def)
    have IH: "smap_get L (add_pairs L ps) = map_of ps" "distinct (smap_keys L (add_pairs L ps))"
      "set (smap_keys L (add_pairs L ps)) = fst ` set ps"
      using snoc by simp_all
    have "smap_get L (add_pairs L (ps @ [kv])) j = map_of (ps @ [kv]) j" for j
      using IH(1,3) new by (auto simp: step kv get_add map_add_def map_of_eq_None_iff [symmetric] split: option.split)
    then show ?case using IH new by (auto simp: step kv distinct_keys_add fun_eq_iff)
  qed
  then show "smap_get L (add_pairs L ps) = map_of ps" "distinct (smap_keys L (add_pairs L ps))"
    "set (smap_keys L (add_pairs L ps)) = fst ` set ps" by simp_all
qed

end

text \<open>An interface row that describes a port.\<close>

definition describes_port ::
  "('db, 'm) ovs_lib \<Rightarrow> idl_names \<Rightarrow> ops_utils \<Rightarrow> u64 \<Rightarrow> yaml_port \<Rightarrow> row \<Rightarrow> 'db \<Rightarrow> bool" where
  "describes_port L K U mac p r db \<longleftrightarrow>
     get_str L r ''name'' db = Some (yp_name p) \<and> get_str L r ''type'' db = Some (k_type_system K) \<and>
     get_str L r ''admin_state'' db = Some (k_admin_down K) \<and>
     (case sysd_get_speeds_string [] 128 (yp_speeds p) of
        Inl _ \<Rightarrow> False
      | Inr speeds \<Rightarrow>
          smap_get L (get_smap L r ''hw_intf_info'' db) = map_of (hw_pairs K U mac p speeds))"

text \<open>New rows of one table: they are in it, nothing else moved, old cells are as before.\<close>

definition new_rows :: "('db, 'm) ovs_lib \<Rightarrow> ovs_table \<Rightarrow> row list \<Rightarrow> 'db \<Rightarrow> 'db \<Rightarrow> bool" where
  "new_rows L t rs db db' \<longleftrightarrow> distinct rs \<and> (\<forall>r \<in> set rs. \<forall>t'. r \<notin> set (idl_rows L t' db)) \<and>
     (\<forall>t'. set (idl_rows L t' db') = (if t' = t then set rs \<union> set (idl_rows L t' db) else set (idl_rows L t' db))) \<and>
     (\<forall>r c. r \<notin> set rs \<longrightarrow> idl_get L r c db' = idl_get L r c db)"

lemma new_rows_Nil [simp]: "new_rows L t [] db db"
  by (simp add: new_rows_def)

lemma new_rows_Cons:
  assumes "new_rows L t [r] db db1" "new_rows L t rs db1 db2"
  shows "new_rows L t (r # rs) db db2"
proof -
  have r: "\<And>t'. r \<notin> set (idl_rows L t' db)"
    "\<And>t'. set (idl_rows L t' db1) = (if t' = t then insert r (set (idl_rows L t' db)) else set (idl_rows L t' db))"
    using assms(1) by (simp_all add: new_rows_def)
  then have "r \<in> set (idl_rows L t db1)" by simp
  then have "r \<notin> set rs" using assms(2) by (auto simp: new_rows_def)
  moreover have "x \<notin> set (idl_rows L t' db)" if "x \<in> set rs" for x t'
    using that assms(2) r(2) [of t'] by (metis insertCI new_rows_def)
  ultimately show ?thesis using assms r by (auto simp: new_rows_def)
qed

lemma new_rows_fresh: "new_rows L t rs db db' \<Longrightarrow> r \<in> set rs \<Longrightarrow> r \<notin> set (idl_rows L t' db)"
  by (simp add: new_rows_def)

lemma new_rows_old: "new_rows L t rs db db' \<Longrightarrow> r \<notin> set rs \<Longrightarrow> idl_get L r c db' = idl_get L r c db"
  by (simp add: new_rows_def)

context ovs_idl
begin

lemma insert_new: "idl_insert L t db = (r, db') \<Longrightarrow> new_rows L t [r] db db'"
  using insert_fresh [of t db r db'] insert_rows [of t db r db'] insert_get [of t db r db']
  by (simp add: new_rows_def)

lemma new_rows_set: "new_rows L t [r] db db' \<Longrightarrow> new_rows L t [r] db (idl_set L r c v db')"
  by (simp add: new_rows_def rows_set get_set_other)

lemma interface_added:
  assumes "sysd_initial_interface_add L K U mac p db = Inr (r, db')" "wf_port_keys K p"
  shows "new_rows L T_Interface [r] db db' \<and> describes_port L K U mac p r db'"
proof -
  obtain r0 db1 where ins: "idl_insert L T_Interface db = (r0, db1)" by fastforce
  with assms(1) obtain speeds where sp: "sysd_get_speeds_string [] 128 (yp_speeds p) = Inr speeds"
    and r: "r = r0" and db': "db' = idl_set L r ''hw_intf_info'' (VSmap (add_pairs L (hw_pairs K U mac p speeds)))
        (idl_set L r ''admin_state'' (VStr (k_admin_down K)) (idl_set L r ''type'' (VStr (k_type_system K))
        (idl_set L r ''name'' (VStr (yp_name p)) db1)))"
    by (auto simp: sysd_initial_interface_add_def Let_def bindE_eq_Inr hw_intf_info_pairs)
  note pairs = add_pairs_get [OF distinct_hw_pairs [OF assms(2)], of U mac speeds]
  have "new_rows L T_Interface [r] db db'"
    unfolding db' r by (intro new_rows_set insert_new [OF ins])
  moreover have "describes_port L K U mac p r db'"
    using get_smap_same(1) [OF pairs(2)] pairs(1)
    by (simp add: describes_port_def sp db' get_other get_same)
  ultimately show ?thesis ..
qed

lemma describes_port_cong:
  "(\<And>c. idl_get L r c db' = idl_get L r c db) \<Longrightarrow> describes_port L K U mac p r db' = describes_port L K U mac p r db"
proof -
  assume "\<And>c. idl_get L r c db' = idl_get L r c db"
  then have "get_str L r c db' = get_str L r c db" "get_smap L r c db' = get_smap L r c db" for c
    by (simp_all add: get_defs)
  then show ?thesis unfolding describes_port_def by presburger
qed

lemma interfaces_added:
  assumes "add_interfaces L K U mac ps db = Inr (prs, db')" "list_all (wf_port_keys K) ps"
  shows "map fst prs = ps \<and> new_rows L T_Interface (map snd prs) db db' \<and>
    (\<forall>(p, r) \<in> set prs. describes_port L K U mac p r db')"
  using assms
proof (induction ps arbitrary: db prs)
  case Nil
  then show ?case by simp
next
  case (Cons p ps)
  from Cons.prems(1) obtain r db1 qrs where one: "sysd_initial_interface_add L K U mac p db = Inr (r, db1)"
    and rest: "add_interfaces L K U mac ps db1 = Inr (qrs, db')" and prs: "prs = (p, r) # qrs"
    by (auto simp: bindE_eq_Inr)
  have new: "new_rows L T_Interface [r] db db1" "describes_port L K U mac p r db1"
    using interface_added [OF one] Cons.prems(2) by simp_all
  have IH: "map fst qrs = ps" "new_rows L T_Interface (map snd qrs) db1 db'"
    "\<forall>(q, x) \<in> set qrs. describes_port L K U mac q x db'"
    using Cons.IH [OF rest] Cons.prems(2) by simp_all
  have "r \<in> set (idl_rows L T_Interface db1)" using new(1) by (simp add: new_rows_def)
  then have "r \<notin> set (map snd qrs)" using new_rows_fresh [OF IH(2)] by blast
  then have "describes_port L K U mac p r db'"
    using new(2) describes_port_cong new_rows_old [OF IH(2)] by blast
  then show ?case using new_rows_Cons [OF new(1) IH(2)] IH(1,3) prs by simp
qed

end

section \<open>Split ports\<close>

text \<open>
  The ports of the array with their rows: different rows that carry different port names, at most
  four subports each, and references only between ports of the array.
\<close>

definition wf_ports :: "('db, 'm) ovs_lib \<Rightarrow> 'db \<Rightarrow> (yaml_port \<times> row) list \<Rightarrow> bool" where
  "wf_ports L db prs \<longleftrightarrow> distinct (map snd prs) \<and> distinct (map (\<lambda>pr. yp_name (fst pr)) prs) \<and>
     (\<forall>(p, r) \<in> set prs. get_str L r ''name'' db = Some (yp_name p) \<and>
        length (yp_subports p) \<le> SYSD_MAX_SPLIT_PORTS)"

lemma split_table_get:
  assumes "wf_ports L db prs"
  shows "map_of (split_table L db prs) n = Some r \<longleftrightarrow>
    (\<exists>p. (p, r) \<in> set prs \<and> yp_name p = n \<and> splittable p)"
proof -
  let ?f = "\<lambda>(p, r). (case get_str L r ''name'' db of Some n \<Rightarrow> n | None \<Rightarrow> [], r)"
  have f: "map ?f (filter (\<lambda>(p, r). splittable p) prs) = map (\<lambda>(p, r). (yp_name p, r)) (filter (\<lambda>(p, r). splittable p) prs)"
    using assms by (auto simp: wf_ports_def)
  have "distinct (map fst (map (\<lambda>(p, r). (yp_name p, r)) (filter (\<lambda>(p, r). splittable p) prs)))"
    using assms by (auto simp: wf_ports_def distinct_map inj_on_def split_beta)
  then have dist: "distinct (map fst (split_table L db prs))"
    unfolding split_table_def f by (simp add: rev_map [symmetric])
  show ?thesis
    unfolding map_of_eq_Some_iff [OF dist] by (auto simp: split_table_def f)
qed

lemma find_subports_all:
  "length acc + length ns \<le> SYSD_MAX_SPLIT_PORTS \<Longrightarrow>
   find_subports tab ns acc = Inr (acc @ List.map_filter (map_of tab) ns)"
  by (induction ns arbitrary: acc) (auto simp: map_filter_simps split: option.split)

text \<open>The rows of a port's subports.\<close>

definition child_rows :: "(yaml_port \<times> row) list \<Rightarrow> yaml_port \<Rightarrow> row set" where
  "child_rows prs p = {r. \<exists>q. (q, r) \<in> set prs \<and> yp_name q \<in> set (yp_subports p) \<and> splittable q}"

lemma child_rows_found:
  assumes "wf_ports L db prs"
  shows "set (List.map_filter (map_of (split_table L db prs)) ns) =
    {r. \<exists>q. (q, r) \<in> set prs \<and> yp_name q \<in> set ns \<and> splittable q}"
proof -
  have "set (List.map_filter f ns) = {r. \<exists>n \<in> set ns. f n = Some r}" for f :: "string \<Rightarrow> row option"
    by (force simp: map_filter_def)
  then show ?thesis using split_table_get [OF assms] by auto
qed

context ovs_idl
begin

lemma split_refs_step:
  assumes "wf_ports L db0 prs" "(p, r) \<in> set prs"
  shows "\<exists>db'. set_split_refs L (split_table L db0 prs) (p, r) db = Inr db' \<and>
    (\<forall>t. idl_rows L t db' = idl_rows L t db) \<and>
    (\<forall>x c. x \<noteq> r \<or> c \<notin> {''split_parent'', ''split_children''} \<longrightarrow> idl_get L x c db' = idl_get L x c db) \<and>
    (\<forall>q x. (q, x) \<in> set prs \<and> yp_parent_port p = Some (yp_name q) \<and> splittable q \<longrightarrow>
       idl_get L r ''split_parent'' db' = VRef x) \<and>
    ((\<forall>q x. (q, x) \<in> set prs \<and> splittable q \<longrightarrow> yp_parent_port p \<noteq> Some (yp_name q)) \<longrightarrow>
       idl_get L r ''split_parent'' db' = idl_get L r ''split_parent'' db) \<and>
    (yp_subports p \<noteq> [] \<longrightarrow> set (get_refs L r ''split_children'' db') = child_rows prs p) \<and>
    (yp_subports p = [] \<longrightarrow> idl_get L r ''split_children'' db' = idl_get L r ''split_children'' db)"
proof -
  let ?tab = "split_table L db0 prs"
  note tab = split_table_get [OF assms(1)]
  define db1 where "db1 = (case yp_parent_port p of None \<Rightarrow> db | Some n \<Rightarrow>
    (case map_of ?tab n of None \<Rightarrow> db | Some parent \<Rightarrow> idl_set L r ''split_parent'' (VRef parent) db))"
  have len: "length (yp_subports p) \<le> SYSD_MAX_SPLIT_PORTS" using assms by (auto simp: wf_ports_def)
  let ?rs = "List.map_filter (map_of ?tab) (yp_subports p)"
  let ?db' = "if yp_subports p = [] then db1 else idl_set L r ''split_children'' (VRefs ?rs) db1"
  have res: "set_split_refs L ?tab (p, r) db = Inr ?db'"
    using find_subports_all [of "[]" "yp_subports p" ?tab] len
    by (simp add: set_split_refs_def db1_def [symmetric] Let_def)
  have get1: "x \<noteq> r \<or> c \<noteq> ''split_parent'' \<Longrightarrow> idl_get L x c db1 = idl_get L x c db" for x c
    by (auto simp: db1_def get_set_other split: option.split)
  have rows1: "idl_rows L t db1 = idl_rows L t db" for t
    by (simp add: db1_def rows_set split: option.split)
  have "idl_get L r ''split_parent'' db1 = VRef x"
    if "(q, x) \<in> set prs" "yp_parent_port p = Some (yp_name q)" "splittable q" for q x
  proof -
    have "map_of ?tab (yp_name q) = Some x" using that tab by blast
    with that(2) show ?thesis by (simp add: db1_def get_set_scalar)
  qed
  moreover have "idl_get L r ''split_parent'' db1 = idl_get L r ''split_parent'' db"
    if "\<forall>q x. (q, x) \<in> set prs \<and> splittable q \<longrightarrow> yp_parent_port p \<noteq> Some (yp_name q)"
  proof (cases "yp_parent_port p")
    case (Some n)
    have "map_of ?tab n \<noteq> Some x" for x using that Some tab [of n x] by blast
    then have "map_of ?tab n = None" by (cases "map_of ?tab n") auto
    with Some show ?thesis by (simp add: db1_def)
  qed (simp add: db1_def)
  moreover have "set (get_refs L r ''split_children'' (idl_set L r ''split_children'' (VRefs ?rs) db1)) = child_rows prs p"
    by (simp add: get_refs_same child_rows_found [OF assms(1)] child_rows_def)
  ultimately show ?thesis
    using res get1 by (intro exI [of _ ?db']) (auto simp: rows1 rows_set get_set_other)
qed

text \<open>What the loop has established for the ports it has passed.\<close>

definition split_done :: "(yaml_port \<times> row) list \<Rightarrow> 'db \<Rightarrow> yaml_port \<times> row \<Rightarrow> 'db \<Rightarrow> bool" where
  "split_done prs db0 pr db \<longleftrightarrow>
     (\<forall>q x. (q, x) \<in> set prs \<and> yp_parent_port (fst pr) = Some (yp_name q) \<and> splittable q \<longrightarrow>
        idl_get L (snd pr) ''split_parent'' db = VRef x) \<and>
     ((\<forall>q x. (q, x) \<in> set prs \<and> splittable q \<longrightarrow> yp_parent_port (fst pr) \<noteq> Some (yp_name q)) \<longrightarrow>
        idl_get L (snd pr) ''split_parent'' db = idl_get L (snd pr) ''split_parent'' db0) \<and>
     (yp_subports (fst pr) \<noteq> [] \<longrightarrow> set (get_refs L (snd pr) ''split_children'' db) = child_rows prs (fst pr)) \<and>
     (yp_subports (fst pr) = [] \<longrightarrow>
        idl_get L (snd pr) ''split_children'' db = idl_get L (snd pr) ''split_children'' db0)"

lemma split_done_parent:
  assumes "split_done prs db0 (q, x) db" "(p, r) \<in> set prs" "yp_parent_port q = Some (yp_name p)" "splittable p"
  shows "idl_get L x ''split_parent'' db = VRef r"
proof -
  have "\<forall>p r. (p, r) \<in> set prs \<and> yp_parent_port q = Some (yp_name p) \<and> splittable p \<longrightarrow>
      idl_get L x ''split_parent'' db = VRef r"
    using assms(1) unfolding split_done_def fst_conv snd_conv by (elim conjE)
  with assms(2-4) show ?thesis by blast
qed

lemma split_done_no_parent:
  assumes "split_done prs db0 (q, x) db"
    "\<forall>p r. (p, r) \<in> set prs \<and> splittable p \<longrightarrow> yp_parent_port q \<noteq> Some (yp_name p)"
  shows "idl_get L x ''split_parent'' db = idl_get L x ''split_parent'' db0"
proof -
  have "(\<forall>p r. (p, r) \<in> set prs \<and> splittable p \<longrightarrow> yp_parent_port q \<noteq> Some (yp_name p)) \<longrightarrow>
      idl_get L x ''split_parent'' db = idl_get L x ''split_parent'' db0"
    using assms(1) unfolding split_done_def fst_conv snd_conv by (elim conjE)
  with assms(2) show ?thesis by blast
qed

lemma split_done_cong:
  assumes "\<And>c. idl_get L (snd pr) c db' = idl_get L (snd pr) c db"
  shows "split_done prs db0 pr db' = split_done prs db0 pr db"
proof -
  have "get_refs L (snd pr) c db' = get_refs L (snd pr) c db" for c by (simp add: get_refs_def assms)
  then show ?thesis unfolding split_done_def by (simp add: assms)
qed

lemma split_refs_fold:
  assumes "wf_ports L db0 prs" "set xs \<subseteq> set prs" "distinct (map snd xs)"
    "\<forall>x c. x \<in> snd ` set xs \<longrightarrow> idl_get L x c db = idl_get L x c db0"
  shows "\<exists>db'. foldE (set_split_refs L (split_table L db0 prs)) xs db = Inr db' \<and>
    (\<forall>t. idl_rows L t db' = idl_rows L t db) \<and>
    (\<forall>x c. x \<notin> snd ` set xs \<or> c \<notin> {''split_parent'', ''split_children''} \<longrightarrow> idl_get L x c db' = idl_get L x c db) \<and>
    (\<forall>pr \<in> set xs. split_done prs db0 pr db')"
  using assms(2-)
proof (induction xs arbitrary: db)
  case (Cons pr xs)
  obtain p r where pr: "pr = (p, r)" by (cases pr)
  have "(p, r) \<in> set prs" using Cons.prems(1) pr by simp
  from split_refs_step [OF assms(1) this, of db] obtain db1 where
    one: "set_split_refs L (split_table L db0 prs) (p, r) db = Inr db1"
    and rows: "\<forall>t. idl_rows L t db1 = idl_rows L t db"
    and frame: "\<forall>x c. x \<noteq> r \<or> c \<notin> {''split_parent'', ''split_children''} \<longrightarrow> idl_get L x c db1 = idl_get L x c db"
    and upd: "(\<forall>q x. (q, x) \<in> set prs \<and> yp_parent_port p = Some (yp_name q) \<and> splittable q \<longrightarrow>
         idl_get L r ''split_parent'' db1 = VRef x)"
      "((\<forall>q x. (q, x) \<in> set prs \<and> splittable q \<longrightarrow> yp_parent_port p \<noteq> Some (yp_name q)) \<longrightarrow>
         idl_get L r ''split_parent'' db1 = idl_get L r ''split_parent'' db)"
      "(yp_subports p \<noteq> [] \<longrightarrow> set (get_refs L r ''split_children'' db1) = child_rows prs p)"
      "(yp_subports p = [] \<longrightarrow> idl_get L r ''split_children'' db1 = idl_get L r ''split_children'' db)"
    by (elim exE conjE) (rule that)
  have r0: "idl_get L r c db = idl_get L r c db0" for c using Cons.prems(3) pr by simp
  have d: "split_done prs db0 (p, r) db1"
    using upd by (simp add: split_done_def r0)
  have rest: "r \<notin> snd ` set xs" using Cons.prems(2) pr by simp
  have "idl_get L x c db1 = idl_get L x c db0" if "x \<in> snd ` set xs" for x c
  proof -
    have "x \<noteq> r" using that rest by blast
    then have "idl_get L x c db1 = idl_get L x c db" using frame by blast
    also have "\<dots> = idl_get L x c db0" using Cons.prems(3) that by simp
    finally show ?thesis .
  qed
  with Cons.IH [of db1] Cons.prems obtain db' where
    fold: "foldE (set_split_refs L (split_table L db0 prs)) xs db1 = Inr db'"
    and rows': "\<forall>t. idl_rows L t db' = idl_rows L t db1"
    and frame': "\<forall>x c. x \<notin> snd ` set xs \<or> c \<notin> {''split_parent'', ''split_children''} \<longrightarrow> idl_get L x c db' = idl_get L x c db1"
    and done': "\<forall>pr \<in> set xs. split_done prs db0 pr db'"
    by auto
  have "split_done prs db0 (p, r) db'"
    using d split_done_cong [of "(p, r)" db' db1] frame' rest by simp
  then show ?case
    using one fold rows rows' frame frame' done' by (intro exI [of _ db']) (auto simp: pr)
qed simp

lemma split_info:
  assumes "wf_ports L db prs"
  shows "\<exists>db'. sysd_set_splittable_port_info L prs db = Inr db' \<and>
    (\<forall>t. idl_rows L t db' = idl_rows L t db) \<and>
    (\<forall>x c. x \<notin> snd ` set prs \<or> c \<notin> {''split_parent'', ''split_children''} \<longrightarrow> idl_get L x c db' = idl_get L x c db) \<and>
    (\<forall>pr \<in> set prs. split_done prs db pr db')"
  unfolding sysd_set_splittable_port_info_def
  using assms by (intro split_refs_fold) (simp_all add: wf_ports_def)

end

text \<open>
  An interface is added as one new row that carries the port's name, type, administrative
  state and string map: each key of the map (the names of the schema and the capabilities, all
  different) has the value the port gives. No existing row changes.
\<close>

lemma interface_row_written:
  assumes "ovs_idl L" "wf_port_keys K p" "sysd_get_speeds_string [] 128 (yp_speeds p) = Inr speeds"
  shows "\<exists>r db'. sysd_initial_interface_add L K U mac p db = Inr (r, db') \<and>
    new_rows L T_Interface [r] db db' \<and> get_str L r ''name'' db' = Some (yp_name p) \<and>
    get_str L r ''type'' db' = Some (k_type_system K) \<and> get_str L r ''admin_state'' db' = Some (k_admin_down K) \<and>
    smap_get L (get_smap L r ''hw_intf_info'' db') = map_of (hw_pairs K U mac p speeds)"
proof -
  obtain r db' where add: "sysd_initial_interface_add L K U mac p db = Inr (r, db')"
    by (cases "idl_insert L T_Interface db") (simp add: sysd_initial_interface_add_def assms(3) Let_def)
  from ovs_idl.interface_added [OF assms(1) this assms(2)] show ?thesis
    by (intro exI [of _ r] exI [of _ db']) (simp add: add describes_port_def assms(3))
qed

definition ex_names :: idl_names where
  "ex_names = \<lparr>k_pluggable = ''pluggable'', k_pluggable_true = ''true'', k_pluggable_false = ''false'',
     k_connector = ''connector'', k_max_speed = ''max_speed'', k_speeds = ''speeds'',
     k_switch_unit = ''switch_unit'', k_switch_intf_id = ''switch_intf_id'', k_mac_addr = ''mac_addr'',
     k_bridge = ''bridge'', k_bridge_true = ''true'', k_admin = ''admin'', k_admin_up = ''up'',
     k_type_system = ''system'', k_type_internal = ''internal'', k_admin_down = ''down'',
     k_bridge_name = ''bridge_normal'', k_vrf_name = ''vrf_default'', k_vrf_status = ''namespace_ready'',
     k_vrf_status_value = ''true'', k_mgmt_name = ''name''\<rparr>"

definition ex_port :: "string \<Rightarrow> string list \<Rightarrow> string option \<Rightarrow> yaml_port" where
  "ex_port n subs parent = \<lparr>yp_name = n, yp_pluggable = True, yp_connector = ''QSFP_PLUS'', yp_max_speed = 40000,
     yp_speeds = [], yp_device = 0, yp_device_port = 7, yp_capabilities = [''enet_40G''],
     yp_subports = subs, yp_parent_port = parent\<rparr>"

text \<open>A hardware description in which a port and its subports name each other.\<close>

definition split_consistent :: "yaml_port list \<Rightarrow> bool" where
  "split_consistent ps \<longleftrightarrow>
     (\<forall>p \<in> set ps. \<forall>q \<in> set ps. yp_parent_port q = Some (yp_name p) \<longleftrightarrow> yp_name q \<in> set (yp_subports p))"

context ovs_idl
begin

lemma split_links:
  assumes wf: "wf_ports L db prs" and cons: "split_consistent (map fst prs)"
    and blank: "\<forall>pr \<in> set prs. idl_get L (snd pr) ''split_parent'' db = VNone \<and>
                  idl_get L (snd pr) ''split_children'' db = VNone"
    and "\<forall>pr \<in> set prs. split_done prs db pr db'"
    and pr: "(p, r) \<in> set prs" and qx: "(q, x) \<in> set prs"
  shows "x \<in> set (get_refs L r ''split_children'' db') \<longleftrightarrow> idl_get L x ''split_parent'' db' = VRef r"
proof -
  have d: "split_done prs db (p, r) db'" "split_done prs db (q, x) db'" using assms(4) pr qx by blast+
  have "inj_on snd (set prs)" using wf by (simp add: wf_ports_def distinct_map)
  from inj_onD [OF this] have inj: "p1 = p2" if "(p1, y) \<in> set prs" "(p2, y) \<in> set prs" for p1 p2 y
    using that by fastforce
  have named: "yp_parent_port q = Some (yp_name p') \<longleftrightarrow> yp_name q \<in> set (yp_subports p')" if "(p', r') \<in> set prs" for p' r'
    using cons qx that by (force simp: split_consistent_def)
  have child: "x \<in> set (get_refs L r ''split_children'' db') \<longleftrightarrow> yp_name q \<in> set (yp_subports p)"
  proof (cases "yp_subports p = []")
    case True
    then have "get_refs L r ''split_children'' db' = []"
      using d(1) blank pr by (auto simp: split_done_def get_refs_def)
    with True show ?thesis by simp
  next
    case False
    then have "set (get_refs L r ''split_children'' db') = child_rows prs p" using d(1) by (simp add: split_done_def)
    moreover have "splittable q" if "yp_name q \<in> set (yp_subports p)"
      using named [OF pr] that by (simp add: splittable_def)
    moreover have "x \<in> child_rows prs p \<longleftrightarrow> yp_name q \<in> set (yp_subports p) \<and> splittable q"
    proof
      assume "x \<in> child_rows prs p"
      then obtain q' where "(q', x) \<in> set prs" "yp_name q' \<in> set (yp_subports p)" "splittable q'"
        unfolding child_rows_def by blast
      moreover from this(1) have "q' = q" by (rule inj [OF _ qx])
      ultimately show "yp_name q \<in> set (yp_subports p) \<and> splittable q" by simp
    qed (use qx in \<open>unfold child_rows_def, blast\<close>)
    ultimately show ?thesis by blast
  qed
  have parent: "idl_get L x ''split_parent'' db' = VRef r \<longleftrightarrow> yp_parent_port q = Some (yp_name p)"
  proof
    assume "yp_parent_port q = Some (yp_name p)"
    moreover from this have "splittable p" using named [OF pr] by (auto simp: splittable_def)
    ultimately show "idl_get L x ''split_parent'' db' = VRef r" using split_done_parent [OF d(2) pr] by blast
  next
    assume ref: "idl_get L x ''split_parent'' db' = VRef r"
    have "\<exists>q' y. (q', y) \<in> set prs \<and> splittable q' \<and> yp_parent_port q = Some (yp_name q')"
    proof (rule ccontr)
      assume "\<not> ?thesis"
      then have "idl_get L x ''split_parent'' db' = idl_get L x ''split_parent'' db"
        by (intro split_done_no_parent [OF d(2)]) blast
      with ref blank qx show False by auto
    qed
    then obtain q' y where q': "(q', y) \<in> set prs" "splittable q'" "yp_parent_port q = Some (yp_name q')" by blast
    then have "idl_get L x ''split_parent'' db' = VRef y" using split_done_parent [OF d(2)] by blast
    with ref q' pr inj show "yp_parent_port q = Some (yp_name p)" by (metis val.inject(4))
  qed
  show ?thesis using child parent named [OF pr] by blast
qed

end

text \<open>
  Claim C17. For ports with different names, at most four subports each, whose parent and subport
  entries agree, the split links are set without error and agree as well: a row is among the split
  children of another exactly when that other is its split parent. No other column changes.
\<close>

theorem split_links_agree:
  assumes "ovs_idl L" "wf_ports L db prs" "split_consistent (map fst prs)"
    and "\<forall>pr \<in> set prs. idl_get L (snd pr) ''split_parent'' db = VNone \<and>
           idl_get L (snd pr) ''split_children'' db = VNone"
  shows "\<exists>db'. sysd_set_splittable_port_info L prs db = Inr db' \<and>
    (\<forall>pr \<in> set prs. \<forall>qx \<in> set prs. snd qx \<in> set (get_refs L (snd pr) ''split_children'' db') \<longleftrightarrow>
       idl_get L (snd qx) ''split_parent'' db' = VRef (snd pr)) \<and>
    (\<forall>pr \<in> set prs. \<forall>qx \<in> set prs. yp_parent_port (fst qx) = Some (yp_name (fst pr)) \<longrightarrow>
       idl_get L (snd qx) ''split_parent'' db' = VRef (snd pr)) \<and>
    (\<forall>x c. x \<notin> snd ` set prs \<or> c \<notin> {''split_parent'', ''split_children''} \<longrightarrow> idl_get L x c db' = idl_get L x c db)"
proof -
  obtain db' where
    db': "sysd_set_splittable_port_info L prs db = Inr db'"
    "\<forall>x c. x \<notin> snd ` set prs \<or> c \<notin> {''split_parent'', ''split_children''} \<longrightarrow> idl_get L x c db' = idl_get L x c db"
    "\<forall>pr \<in> set prs. ovs_idl.split_done L prs db pr db'"
    using ovs_idl.split_info [OF assms(1,2)] by (elim exE conjE) (rule that)
  note links = ovs_idl.split_links [OF assms(1-4) db'(3)]
  have "idl_get L x ''split_parent'' db' = VRef r"
    if "(p, r) \<in> set prs" "(q, x) \<in> set prs" "yp_parent_port q = Some (yp_name p)" for p r q x
  proof -
    have "yp_name q \<in> set (yp_subports p)" using that assms(3) by (force simp: split_consistent_def)
    then have "splittable p" by (auto simp: splittable_def)
    with that show ?thesis
      using ovs_idl.split_done_parent [OF assms(1) bspec [OF db'(3) that(2)] that(1,3)] by blast
  qed
  then show ?thesis using db'(1,2) links by (intro exI [of _ db']) (simp add: split_paired_all)
qed

theorem split_links_agree_witness:
  "\<exists>db'. sysd_set_splittable_port_info mem_lib
      [(ex_port ''49'' [''49-1''] None, 1), (ex_port ''49-1'' [] (Some ''49''), 2)]
      (mem_set 2 ''name'' (VStr ''49-1'') (mem_set 1 ''name'' (VStr ''49'') mem_init)) = Inr db' \<and>
    idl_get mem_lib 2 ''split_parent'' db' = VRef 1 \<and> 2 \<in> set (get_refs mem_lib 1 ''split_children'' db')"
proof -
  let ?prs = "[(ex_port ''49'' [''49-1''] None, 1), (ex_port ''49-1'' [] (Some ''49''), 2)]"
  let ?db = "mem_set 2 ''name'' (VStr ''49-1'') (mem_set 1 ''name'' (VStr ''49'') mem_init)"
  have wf: "wf_ports mem_lib ?db ?prs"
    by (simp add: wf_ports_def ex_port_def get_str_def mem_set_def SYSD_MAX_SPLIT_PORTS_def)
  have con: "split_consistent (map fst ?prs)" by (simp add: split_consistent_def ex_port_def)
  have blank: "\<forall>pr \<in> set ?prs. idl_get mem_lib (snd pr) ''split_parent'' ?db = VNone \<and>
      idl_get mem_lib (snd pr) ''split_children'' ?db = VNone"
    by (simp add: mem_set_def mem_init_def)
  obtain db' where db': "sysd_set_splittable_port_info mem_lib ?prs ?db = Inr db'"
    and links: "\<forall>pr \<in> set ?prs. \<forall>qx \<in> set ?prs. snd qx \<in> set (get_refs mem_lib (snd pr) ''split_children'' db') \<longleftrightarrow>
      idl_get mem_lib (snd qx) ''split_parent'' db' = VRef (snd pr)"
    and parent: "\<forall>pr \<in> set ?prs. \<forall>qx \<in> set ?prs. yp_parent_port (fst qx) = Some (yp_name (fst pr)) \<longrightarrow>
      idl_get mem_lib (snd qx) ''split_parent'' db' = VRef (snd pr)"
    using split_links_agree [OF mem_db.ovs_idl_axioms wf con blank] by (elim exE conjE) (rule that)
  have "idl_get mem_lib 2 ''split_parent'' db' = VRef 1"
    using bspec [OF bspec [OF parent], of "(ex_port ''49'' [''49-1''] None, 1)" "(ex_port ''49-1'' [] (Some ''49''), 2)"]
    by (simp add: ex_port_def)
  moreover from this have "2 \<in> set (get_refs mem_lib 1 ''split_children'' db')"
    using bspec [OF bspec [OF links], of "(ex_port ''49'' [''49-1''] None, 1)" "(ex_port ''49-1'' [] (Some ''49''), 2)"]
    by (simp add: ex_port_def)
  ultimately show ?thesis using db' by blast
qed

section \<open>The subsystem\<close>

definition port_ok :: "idl_names \<Rightarrow> yaml_port \<Rightarrow> bool" where
  "port_ok K p \<longleftrightarrow> wf_port_keys K p \<and> length (yp_subports p) \<le> SYSD_MAX_SPLIT_PORTS \<and>
     list_all speed_fits (yp_speeds p) \<and> length (yp_speeds p) \<le> 14"

text \<open>The subsystem row in terms of the structure.\<close>

definition describes_subsystem ::
  "('db, 'm) ovs_lib \<Rightarrow> ops_utils \<Rightarrow> string \<Rightarrow> subsystem \<Rightarrow> yaml_port_info \<Rightarrow> row \<Rightarrow> 'db \<Rightarrow> bool" where
  "describes_subsystem L U dir s cmn r db \<longleftrightarrow>
     get_str L r ''name'' db = Some (sub_name s) \<and> get_str L r ''hw_desc_dir'' db = Some dir \<and>
     smap_get L (get_smap L r ''other_info'' db) = map_of (other_info_pairs (sub_fru s) cmn) \<and>
     get_str L r ''next_mac_address'' db = Some (ops_ether_ulong_long_to_string U (nxt_mac_addr s)) \<and>
     get_int L r ''macs_remaining'' db = num_free_macs s \<and>
     list_all (\<lambda>c. get_refs L r c db = []) [''fans'', ''leds'', ''power_supplies'', ''temp_sensors'']"

lemma distinct_other_info: "distinct (map fst (other_info_pairs fru cmn))"
  by (simp add: other_info_pairs_def)

context ovs_idl
begin

lemma add_interfaces_total:
  assumes "list_all (port_ok K) ps"
  shows "\<exists>prs db'. add_interfaces L K U mac ps db = Inr (prs, db')"
  using assms
proof (induction ps arbitrary: db)
  case (Cons p ps)
  have sp: "sysd_get_speeds_string [] 128 (yp_speeds p) = Inr (comma_join (map fmt_d (yp_speeds p)))"
    using Cons.prems by (intro speeds_join) (simp_all add: port_ok_def)
  obtain r db1 where "sysd_initial_interface_add L K U mac p db = Inr (r, db1)"
    by (cases "idl_insert L T_Interface db") (simp add: sysd_initial_interface_add_def sp Let_def)
  moreover obtain prs db2 where "add_interfaces L K U mac ps db1 = Inr (prs, db2)"
    using Cons.IH [of db1] Cons.prems by auto
  ultimately show ?case by simp
qed simp

lemma describes_port_split:
  assumes "\<forall>x c. x \<notin> X \<or> c \<notin> {''split_parent'', ''split_children''} \<longrightarrow> idl_get L x c db' = idl_get L x c db"
  shows "describes_port L K U mac p r db' = describes_port L K U mac p r db"
proof -
  have "get_str L r c db' = get_str L r c db" "get_smap L r c db' = get_smap L r c db"
    if "c \<notin> {''split_parent'', ''split_children''}" for c
    using assms that by (simp_all add: get_defs)
  then have "get_str L r ''name'' db' = get_str L r ''name'' db" "get_str L r ''type'' db' = get_str L r ''type'' db"
    "get_str L r ''admin_state'' db' = get_str L r ''admin_state'' db"
    "get_smap L r ''hw_intf_info'' db' = get_smap L r ''hw_intf_info'' db" by simp_all
  then show ?thesis unfolding describes_port_def by presburger
qed

lemma subsystem_added:
  assumes cmn: "intf_cmn_info s = Some cmn" and ports: "list_all (port_ok K) (interfaces s)"
    and names: "distinct (map yp_name (interfaces s))"
  shows "\<exists>r prs db'. sysd_initial_subsystem_add L K U dir True s db = Inr (r, db') \<and>
    map fst prs = interfaces s \<and> describes_subsystem L U dir s cmn r db' \<and>
    set (get_refs L r ''interfaces'' db') = snd ` set prs \<and>
    (\<forall>(p, x) \<in> set prs. describes_port L K U (system_mac_addr s) p x db') \<and>
    distinct (map snd prs) \<and> (\<forall>t. r \<notin> set (idl_rows L t db)) \<and>
    (\<forall>t. set (idl_rows L t db') = set (idl_rows L t db) \<union> (if t = T_Subsystem then {r} else {}) \<union>
           (if t = T_Interface then snd ` set prs else {})) \<and>
    (\<forall>t x c. x \<in> set (idl_rows L t db) \<longrightarrow> idl_get L x c db' = idl_get L x c db)"
proof -
  obtain r db1 where ins: "idl_insert L T_Subsystem db = (r, db1)" by fastforce
  define m where "m = add_pairs L (other_info_pairs (sub_fru s) cmn)"
  define db5 where "db5 = idl_set L r ''other_info'' (VSmap m) (idl_set L r ''hw_desc_dir'' (VStr dir)
    (idl_set L r ''asset_tag_number'' (VStr ''OpenSwitch asset tag'') (idl_set L r ''name'' (VStr (sub_name s)) db1)))"
  note pairs = add_pairs_get [OF distinct_other_info, of "sub_fru s" cmn, folded m_def]
  have new5: "new_rows L T_Subsystem [r] db db5"
    unfolding db5_def by (intro new_rows_set insert_new [OF ins])
  have cells5: "get_str L r ''name'' db5 = Some (sub_name s)" "get_str L r ''hw_desc_dir'' db5 = Some dir"
    "smap_get L (get_smap L r ''other_info'' db5) = map_of (other_info_pairs (sub_fru s) cmn)"
    "list_all (\<lambda>c. get_refs L r c db5 = []) [''fans'', ''leds'', ''power_supplies'', ''temp_sensors'']"
    using get_smap_same(1) [OF pairs(2)] pairs(1)
    by (simp_all add: db5_def get_other get_same insert_readers [OF ins])
  obtain prs db6 where add: "add_interfaces L K U (system_mac_addr s) (interfaces s) db5 = Inr (prs, db6)"
    using add_interfaces_total [OF ports] by blast
  have keys: "list_all (wf_port_keys K) (interfaces s)" using ports by (simp add: list_all_iff port_ok_def)
  note ifs = interfaces_added [OF add keys]
  have fst: "map fst prs = interfaces s" and new6: "new_rows L T_Interface (map snd prs) db5 db6" using ifs by blast+
  have wf: "wf_ports L db6 prs"
    unfolding wf_ports_def
  proof (intro conjI)
    show "distinct (map snd prs)" using new6 by (simp add: new_rows_def)
    show "distinct (map (\<lambda>pr. yp_name (fst pr)) prs)" using names by (simp flip: fst add: o_def)
    show "\<forall>(p, r) \<in> set prs. get_str L r ''name'' db6 = Some (yp_name p) \<and> length (yp_subports p) \<le> SYSD_MAX_SPLIT_PORTS"
    proof (clarify)
      fix p x assume px: "(p, x) \<in> set prs"
      then have "p \<in> set (interfaces s)" by (simp flip: fst) force
      then have "length (yp_subports p) \<le> SYSD_MAX_SPLIT_PORTS" using ports by (simp add: list_all_iff port_ok_def)
      moreover have "get_str L x ''name'' db6 = Some (yp_name p)" using ifs px by (auto simp: describes_port_def)
      ultimately show "get_str L x ''name'' db6 = Some (yp_name p) \<and> length (yp_subports p) \<le> SYSD_MAX_SPLIT_PORTS" by simp
    qed
  qed
  obtain db7 where split: "sysd_set_splittable_port_info L prs db6 = Inr db7"
    and rows7: "\<forall>t. idl_rows L t db7 = idl_rows L t db6"
    and get7: "\<forall>x c. x \<notin> snd ` set prs \<or> c \<notin> {''split_parent'', ''split_children''} \<longrightarrow> idl_get L x c db7 = idl_get L x c db6"
    using split_info [OF wf] by (elim exE conjE) (rule that)
  define db' where "db' = idl_set L r ''interfaces'' (VRefs (map snd prs)) (idl_set L r ''macs_remaining''
    (VInt (num_free_macs s)) (idl_set L r ''next_mac_address''
      (VStr (ops_ether_ulong_long_to_string U (nxt_mac_addr s))) db7))"
  have res: "sysd_initial_subsystem_add L K U dir True s db = Inr (r, db')"
    by (simp add: sysd_initial_subsystem_add_def ins cmn Let_def m_def [symmetric] db5_def [symmetric] add split
          db'_def [symmetric])
  have r_in: "r \<in> set (idl_rows L T_Subsystem db5)" using new5 by (simp add: new_rows_def)
  then have r_notin: "r \<notin> snd ` set prs" using new_rows_fresh [OF new6] by fastforce
  have get_r: "idl_get L r c db7 = idl_get L r c db5" for c
    using get7 new_rows_old [OF new6] r_notin by simp
  have sub: "describes_subsystem L U dir s cmn r db'"
  proof -
    have "get_str L r c db7 = get_str L r c db5" "get_smap L r c db7 = get_smap L r c db5"
      "get_refs L r c db7 = get_refs L r c db5" for c
      using get_r by (simp_all add: get_defs)
    with cells5 show ?thesis by (simp add: describes_subsystem_def db'_def get_other get_same)
  qed
  have port: "describes_port L K U (system_mac_addr s) p x db'" if "(p, x) \<in> set prs" for p x
  proof -
    have "x \<noteq> r" using that r_notin by force
    then have "idl_get L x c db' = idl_get L x c db7" for c by (simp add: db'_def get_set_other)
    then have "describes_port L K U (system_mac_addr s) p x db' = describes_port L K U (system_mac_addr s) p x db7"
      by (rule describes_port_cong)
    with describes_port_split [OF get7] ifs that show ?thesis by auto
  qed
  have rows: "set (idl_rows L t db') = set (idl_rows L t db) \<union> (if t = T_Subsystem then {r} else {}) \<union>
      (if t = T_Interface then snd ` set prs else {})" for t
    using new5 new6 rows7 by (auto simp: new_rows_def db'_def rows_set)
  have old: "idl_get L x c db' = idl_get L x c db" if "x \<in> set (idl_rows L t db)" for t x c
  proof -
    have "x \<noteq> r" using that new_rows_fresh [OF new5, of r t] by auto
    moreover have "x \<in> set (idl_rows L t db5)" using that new5 by (auto simp: new_rows_def)
    then have "x \<notin> snd ` set prs" using new_rows_fresh [OF new6, of x t] by auto
    ultimately show ?thesis
      using get7 new_rows_old [OF new6, of x c] new_rows_old [OF new5, of x c] by (simp add: db'_def get_set_other)
  qed
  have refs: "set (get_refs L r ''interfaces'' db') = snd ` set prs" by (simp add: db'_def get_refs_same)
  have fresh: "r \<notin> set (idl_rows L t db)" for t using new_rows_fresh [OF new5] by simp
  have dist: "distinct (map snd prs)" using new6 by (simp add: new_rows_def)
  show ?thesis
    by (intro exI [of _ r] exI [of _ prs] exI [of _ db'] conjI allI impI ballI)
       (use res fst sub refs port dist fresh rows old in \<open>auto\<close>)
qed

end

text \<open>
  Claim C22. A subsystem with its port information, whose ports have different names, distinct
  keys, at most four subports and speeds that fit, is added without error: one new Subsystem row
  with the FRU information, the next MAC address and the number of those left, without fans, LEDs,
  power supplies or sensors, which refers to one new interface row per port, each describing its port; no cell of an existing row changes.
\<close>

theorem subsystem_row_written:
  assumes "ovs_idl L" "intf_cmn_info s = Some cmn" "list_all (port_ok K) (interfaces s)"
    and "distinct (map yp_name (interfaces s))"
  shows "\<exists>r prs db'. sysd_initial_subsystem_add L K U dir True s db = Inr (r, db') \<and>
    map fst prs = interfaces s \<and> describes_subsystem L U dir s cmn r db' \<and>
    set (get_refs L r ''interfaces'' db') = snd ` set prs \<and>
    (\<forall>(p, x) \<in> set prs. describes_port L K U (system_mac_addr s) p x db') \<and>
    distinct (map snd prs) \<and> (\<forall>t. r \<notin> set (idl_rows L t db)) \<and>
    (\<forall>t. set (idl_rows L t db') = set (idl_rows L t db) \<union> (if t = T_Subsystem then {r} else {}) \<union>
           (if t = T_Interface then snd ` set prs else {})) \<and>
    (\<forall>t x c. x \<in> set (idl_rows L t db) \<longrightarrow> idl_get L x c db' = idl_get L x c db)"
  using ovs_idl.subsystem_added [OF assms] .

definition ex_port_info :: yaml_port_info where
  "ex_port_info = \<lparr>number_ports = 1, max_port_speed = 10000, max_transmission_unit = 9192,
     max_lag_count = 8, max_lag_member_count = 8, l3_port_requires_internal_vlan = 1\<rparr>"

theorem subsystem_row_written_witness:
  "\<exists>r db'. sysd_initial_subsystem_add mem_lib ex_names ex_utils ''/'' True
      (subsystem_zero\<lparr>intf_cmn_info := Some ex_port_info, interfaces := [ex_port ''49'' [] None],
                      num_free_macs := 72\<rparr>) mem_init = Inr (r, db') \<and>
     get_int mem_lib r ''macs_remaining'' db' = 72"
proof -
  have "port_ok ex_names (ex_port ''49'' [] None)"
    by (simp add: port_ok_def wf_port_keys_def ex_names_def ex_port_def SYSD_MAX_SPLIT_PORTS_def)
  then show ?thesis
    using subsystem_row_written [OF mem_db.ovs_idl_axioms, of "subsystem_zero\<lparr>intf_cmn_info := Some ex_port_info,
        interfaces := [ex_port ''49'' [] None], num_free_macs := 72\<rparr>" ex_port_info ex_names ex_utils "''/''" mem_init]
    by (auto simp: describes_subsystem_def)
qed

end
