(* ===== verification/Ovsdb_Init.thy ===== *)
theory Ovsdb_Init
  imports Interfaces Qos_Profile Qos_Map Sw_Info Hw_Daemons
begin

text \<open>
  The start-up transaction (\<open>sysd_initial_configure\<close> in \<open>src/sysd_ovsdb_if.c\<close>) as a whole: the System
  row, the default bridge with its port and internal interface, the default VRF, the subsystem and
  daemon rows, the software columns, the time zone, and the QoS and ACL defaults. The steps are
  joined by a relation that says which tables may grow and which cells may change, so that what an
  early step wrote is still there at the end. The time zone link is here too.
\<close>

section \<open>The default bridge and VRF\<close>

definition sysd_configure_default_bridge :: "('db, 'm) ovs_lib \<Rightarrow> idl_names \<Rightarrow> row \<Rightarrow> 'db \<Rightarrow> 'db" where
  "sysd_configure_default_bridge L K sys db =
     (let (br, db1) = idl_insert L T_Bridge db;
          db2 = idl_set L br ''name'' (VStr (k_bridge_name K)) db1;
          db3 = idl_set L sys ''bridges'' (VRefs [br]) db2;
          (iface, db4) = idl_insert L T_Interface db3;
          db5 = idl_set L iface ''name'' (VStr (k_bridge_name K)) db4;
          db6 = idl_set L iface ''type'' (VStr (k_type_internal K)) db5;
          db7 = idl_set L iface ''hw_intf_info'' (VSmap (smap_add L (k_bridge K) (k_bridge_true K) (smap_init L))) db6;
          db8 = idl_set L iface ''user_config'' (VSmap (smap_add L (k_admin K) (k_admin_up K) (smap_init L))) db7;
          (port, db9) = idl_insert L T_Port db8;
          db10 = idl_set L port ''name'' (VStr (k_bridge_name K)) db9;
          db11 = idl_set L port ''interfaces'' (VRefs [iface]) db10
      in idl_set L br ''ports'' (VRefs [port]) db11)"

text \<open>
  \<open>table_id\<close> is an optional integer: its setter takes a pointer and a count and stores the integer
  when the count is not zero. The code passes the size of the integer as the count, so one 0 is stored.
\<close>

definition sysd_configure_default_vrf :: "('db, 'm) ovs_lib \<Rightarrow> idl_names \<Rightarrow> row \<Rightarrow> 'db \<Rightarrow> 'db" where
  "sysd_configure_default_vrf L K sys db =
     (let (vrf, db1) = idl_insert L T_VRF db;
          db2 = idl_set L vrf ''name'' (VStr (k_vrf_name K)) db1;
          db3 = idl_set L sys ''vrfs'' (VRefs [vrf]) db2;
          db4 = idl_set L vrf ''table_id'' (VInt 0) db3;
          status = smap_add_once L (k_vrf_status K) (k_vrf_status_value K) (get_smap L vrf ''status'' db4)
      in idl_set L vrf ''status'' (VSmap status) db4)"

section \<open>The transaction\<close>

fun add_subsystems ::
  "('db, 'm) ovs_lib \<Rightarrow> idl_names \<Rightarrow> ops_utils \<Rightarrow> string \<Rightarrow> bool \<Rightarrow> subsystem list \<Rightarrow> 'db \<Rightarrow> fault + (row list \<times> 'db)"
  where
  "add_subsystems L K U dir alloc_ok [] db = Inr ([], db)"
| "add_subsystems L K U dir alloc_ok (s # ss) db =
     bindE (sysd_initial_subsystem_add L K U dir alloc_ok s db) (\<lambda>(r, db1).
     bindE (add_subsystems L K U dir alloc_ok ss db1) (\<lambda>(rs, db2). Inr (r # rs, db2)))"

fun add_daemons :: "('db, 'm) ovs_lib \<Rightarrow> daemon_info list \<Rightarrow> 'db \<Rightarrow> row list \<times> 'db" where
  "add_daemons L [] db = ([], db)"
| "add_daemons L (d # ds) db =
     (let (r, db1) = sysd_initial_daemon_add L d db; (rs, db2) = add_daemons L ds db1 in (r # rs, db2))"

text \<open>The QoS and ACL part at the end; the first fault ends it.\<close>

definition init_qos_acl :: "('db, 'm) ovs_lib \<Rightarrow> yaml_lib \<Rightarrow> row \<Rightarrow> 'db \<Rightarrow> fault + 'db" where
  "init_qos_acl L Y sys db =
     bindE (qos_init_dscp_map L Y sys (qos_init_trust L Y sys db)) (\<lambda>db1.
     bindE (qos_init_cos_map L Y sys db1) (\<lambda>db2.
     bindE (qos_init_schedule_profile L Y sys (qos_init_queue_profile L Y sys db2)) (\<lambda>db3.
     acl_init_limits L Y sys db3)))"

text \<open>
  The daemon rows and what follows. The row array of no daemons is allocated too; without it the
  function returns with the transaction as it is.
\<close>

definition init_daemons_and_rest ::
  "('db, 'm) ovs_lib \<Rightarrow> yaml_lib \<Rightarrow> string option \<Rightarrow> bool \<Rightarrow> daemon_info list \<Rightarrow> row \<Rightarrow> 'db \<Rightarrow> fault + 'db" where
  "init_daemons_and_rest L Y release alloc_ok ds sys db =
     (if \<not> alloc_ok then Inr db
      else let db1 = (if ds \<noteq> [] then let (rs, d) = add_daemons L ds db in idl_set L sys ''daemons'' (VRefs rs) d
                      else db);
               db2 = sysd_update_sw_info L release sys db1;
               db3 = idl_set L sys ''timezone'' (VStr ''UTC'') db2
           in init_qos_acl L Y sys db3)"

text \<open>The System row with the default bridge and VRF and the two MAC addresses, before the subsystems.\<close>

definition init_system_row ::
  "('db, 'm) ovs_lib \<Rightarrow> idl_names \<Rightarrow> ops_utils \<Rightarrow> string \<Rightarrow> subsystem \<Rightarrow> 'db \<Rightarrow> row \<times> 'db" where
  "init_system_row L K U name s db =
     (let (sys, db1) = idl_insert L T_System db;
          db2 = idl_set L sys ''mgmt_intf'' (VSmap (smap_add L (k_mgmt_name K) name (smap_init L))) db1;
          db3 = sysd_configure_default_bridge L K sys db2;
          db4 = sysd_configure_default_vrf L K sys db3;
          db5 = idl_set L sys ''management_mac'' (VStr (ops_ether_ulong_long_to_string U (mgmt_mac_addr s))) db4
      in (sys, idl_set L sys ''system_mac'' (VStr (ops_ether_ulong_long_to_string U (system_mac_addr s))) db5))"

text \<open>
  \<open>allocs\<close>: the arrays of subsystem rows, of interface rows and of daemon rows. The management
  interface is read through its pointer, and \<open>subsystems[0]\<close> without a test.
\<close>

definition sysd_initial_configure ::
  "('db, 'm) ovs_lib \<Rightarrow> idl_names \<Rightarrow> ops_utils \<Rightarrow> yaml_lib \<Rightarrow> string \<Rightarrow> string option \<Rightarrow> bool \<times> bool \<times> bool \<Rightarrow>
   manifest_state \<Rightarrow> subsystem list \<Rightarrow> 'db \<Rightarrow> fault + 'db" where
  "sysd_initial_configure L K U Y dir release allocs mst subs db =
     (case allocs of (subs_ok, intfs_ok, daemons_ok) \<Rightarrow>
        bindE (mgmt_intf_name mst) (\<lambda>name.
          case subs of
            [] \<Rightarrow> Inl Out_Of_Bounds
          | s # _ \<Rightarrow>
              (let (sys, db5) = init_system_row L K U name s db
               in if \<not> subs_ok then Inr db5
                  else bindE (add_subsystems L K U dir intfs_ok subs db5) (\<lambda>(rs, db6).
                         init_daemons_and_rest L Y release daemons_ok (daemons mst) sys
                           (idl_set L sys ''subsystems'' (VRefs rs) db6)))))"

section \<open>The time zone\<close>

datatype tz_call = Tz_Unlink string | Tz_Symlink string string

text \<open>
  \<open>sysd_handle_timezone_update\<close>: the System row is looked up again; a string column without a value
  has no keys to read; base path and zone name go into 200 bytes without a test. The value is the
  calls made.
\<close>

definition posix_path :: string where "posix_path = ''/usr/share/zoneinfo/posix/''"

definition sysd_handle_timezone_update :: "('db, 'm) ovs_lib \<Rightarrow> 'db \<Rightarrow> fault + tz_call list" where
  "sysd_handle_timezone_update L db =
     (case idl_rows L T_System db of
        [] \<Rightarrow> Inr []
      | sys # _ \<Rightarrow>
          (case get_str L sys ''timezone'' db of
             None \<Rightarrow> Inl Null_Deref
           | Some tz \<Rightarrow>
               (if 200 \<le> length (posix_path @ tz) then Inl Out_Of_Bounds
                else Inr [Tz_Unlink ''/etc/localtime'', Tz_Symlink (posix_path @ tz) ''/etc/localtime''])))"

section \<open>Which tables grow\<close>

text \<open>
  \<open>row_ops L S db db'\<close>: \<open>db'\<close> comes from \<open>db\<close> by writing cells and inserting rows into tables of \<open>S\<close>.
\<close>

inductive row_ops :: "('db, 'm) ovs_lib \<Rightarrow> ovs_table set \<Rightarrow> 'db \<Rightarrow> 'db \<Rightarrow> bool" for L S where
  row_ops_refl: "row_ops L S db db"
| row_ops_set: "row_ops L S db db' \<Longrightarrow> row_ops L S db (idl_set L r c v db')"
| row_ops_insert: "row_ops L S db db' \<Longrightarrow> t \<in> S \<Longrightarrow> idl_insert L t db' = (r, db'') \<Longrightarrow> row_ops L S db db''"

lemma row_ops_new:
  "row_ops L S db0 db \<Longrightarrow> t \<in> S \<Longrightarrow> row_ops L S db0 (snd (idl_insert L t db))"
  by (cases "idl_insert L t db") (auto intro: row_ops_insert)

lemma row_ops_trans: "row_ops L S db2 db3 \<Longrightarrow> row_ops L S db1 db2 \<Longrightarrow> row_ops L S db1 db3"
  by (induction rule: row_ops.induct) (auto intro: row_ops.intros)

lemma row_ops_mono: "row_ops L S db db' \<Longrightarrow> S \<subseteq> S' \<Longrightarrow> row_ops L S' db db'"
  by (induction rule: row_ops.induct) (auto intro: row_ops.intros)

lemma row_ops_fold:
  assumes "row_ops L S db0 db" "\<And>x d. row_ops L S d (f x d)"
  shows "row_ops L S db0 (fold f xs db)"
  using assms(1)
proof (induction xs arbitrary: db)
  case (Cons x xs)
  then show ?case using row_ops_trans [OF assms(2) Cons.prems] by simp
qed simp

lemma row_ops_foldE:
  assumes "foldE f xs db = Inr db'" "\<And>x d d'. f x d = Inr d' \<Longrightarrow> row_ops L S d d'"
  shows "row_ops L S db db'"
  using assms(1)
proof (induction xs arbitrary: db)
  case (Cons x xs)
  then obtain d where d: "f x db = Inr d" "foldE f xs d = Inr db'" by (auto simp: bindE_eq_Inr)
  show ?case using row_ops_trans [OF Cons.IH [OF d(2)] assms(2) [OF d(1)]] .
qed (simp add: row_ops_refl)

lemmas row_ops_intros = row_ops_set row_ops_new row_ops_fold row_ops_refl

context ovs_idl
begin

lemma row_ops_other: "row_ops L S db db' \<Longrightarrow> t \<notin> S \<Longrightarrow> set (idl_rows L t db') = set (idl_rows L t db)"
  by (induction rule: row_ops.induct) (use insert_rows in \<open>auto simp: rows_set\<close>)

lemma row_ops_grow: "row_ops L S db db' \<Longrightarrow> set (idl_rows L t db) \<subseteq> set (idl_rows L t db')"
proof (induction rule: row_ops.induct)
  case (row_ops_insert db db' t' r db'')
  then show ?case using insert_rows [of t' db' r db'' t] by (auto split: if_splits)
qed (auto simp: rows_set)

end

subsection \<open>The QoS and ACL parts\<close>

lemma row_ops_insert_n: "row_ops L {t} db (snd (insert_n L t n db))"
proof (induction n arbitrary: db)
  case (Suc n)
  show ?case
    using row_ops_trans [OF Suc.IH [of "snd (idl_insert L t db)"] row_ops_new [OF row_ops_refl]]
    by (simp add: Let_def split_beta)
qed (simp add: row_ops_refl)

lemma row_ops_entry: "row_ops L S db (set_cos_map_entry L r e db)"
  by (simp add: set_cos_map_entry_def Let_def row_ops_intros)

lemma row_ops_map:
  assumes "bindE (foldE (fill_row (set_cos_map_entry L) entry (fst (insert_n L t n db))) xs (snd (insert_n L t n db)))
             (\<lambda>d. Inr (idl_set L sys c v d)) = Inr db'"
  shows "row_ops L {t} db db'"
proof -
  from assms obtain d where d: "foldE (fill_row (set_cos_map_entry L) entry (fst (insert_n L t n db))) xs
      (snd (insert_n L t n db)) = Inr d" and db': "db' = idl_set L sys c v d"
    by (auto simp: bindE_eq_Inr)
  have "row_ops L {t} (snd (insert_n L t n db)) d"
    using d by (rule row_ops_foldE) (auto simp: fill_row_def row_ops_entry split: if_splits option.splits)
  then show ?thesis unfolding db' by (intro row_ops_set) (rule row_ops_trans [OF _ row_ops_insert_n])
qed

lemma row_ops_cos: "qos_init_cos_map L Y sys db = Inr db' \<Longrightarrow> row_ops L {T_QoS_COS_Map_Entry} db db'"
  unfolding qos_init_cos_map_def qos_init_default_cos_map_def Let_def split_beta
  by (cases "y_cos_entry Y 0 = None") (auto simp: row_ops_refl intro: row_ops_map)

lemma row_ops_dscp: "qos_init_dscp_map L Y sys db = Inr db' \<Longrightarrow> row_ops L {T_QoS_DSCP_Map_Entry} db db'"
proof -
  have "set_dscp_map_entry L = set_cos_map_entry L"
    by (simp add: fun_eq_iff set_dscp_map_entry_def set_cos_map_entry_def)
  then show "qos_init_dscp_map L Y sys db = Inr db' \<Longrightarrow> row_ops L {T_QoS_DSCP_Map_Entry} db db'"
    unfolding qos_init_dscp_map_def qos_init_default_dscp_map_def Let_def split_beta
    by (cases "y_dscp_entry Y 0 = None") (auto simp: row_ops_refl intro: row_ops_map)
qed

lemma row_ops_queue_row:
  "row_ops L {T_Q_Profile, T_Q_Profile_Entry} db (snd (qos_queue_profile_row_command L n e db))"
  by (simp add: qos_queue_profile_row_command_def insert_queue_profile_queue_row_def queue_row_update_def
        add_local_priority_def Let_def split_beta row_ops_intros split: option.split)

lemma row_ops_queue_factory:
  "row_ops L {T_Q_Profile, T_Q_Profile_Entry} db0 db \<Longrightarrow>
   row_ops L {T_Q_Profile, T_Q_Profile_Entry} db0 (qos_queue_profile_create_factory_default L Y n db)"
  unfolding qos_queue_profile_create_factory_default_def
  by (rule row_ops_fold)
     (simp_all add: qos_queue_profile_command_def Let_def split_beta row_ops_queue_row row_ops_intros
       split: option.split)

lemma row_ops_queue: "row_ops L {T_Q_Profile, T_Q_Profile_Entry} db (qos_init_queue_profile L Y sys db)"
  by (simp add: qos_init_queue_profile_def Let_def split_beta row_ops_intros row_ops_queue_factory
        split: option.split)

lemma row_ops_sched_row:
  "row_ops L {T_QoS, T_Queue} db (snd (qos_schedule_profile_row_command L n e db))"
  by (simp add: qos_schedule_profile_row_command_def insert_schedule_profile_queue_row_def
        sched_row_update_def Let_def split_beta row_ops_intros split: option.split)

lemma row_ops_sched_factory:
  assumes "qos_schedule_profile_create_factory_default L Y n db = Inr db'" "row_ops L {T_QoS, T_Queue} db0 db"
  shows "row_ops L {T_QoS, T_Queue} db0 db'"
proof -
  have cmd: "row_ops L {T_QoS, T_Queue} db0 (qos_schedule_profile_command L n db)"
    using assms(2) by (simp add: qos_schedule_profile_command_def Let_def split_beta row_ops_intros split: option.split)
  from assms(1) obtain p where "db' = fold (\<lambda>ii d. case y_sched_entry Y ii of None \<Rightarrow> d
        | Some e \<Rightarrow> snd (qos_schedule_profile_row_command L n e d)) [0..<nat (y_sched_count Y)]
        (idl_set L p ''queues'' (VIntRefs []) (qos_schedule_profile_command L n db))"
    by (auto simp: qos_schedule_profile_create_factory_default_def Let_def split: option.splits)
  then show ?thesis
    by (simp only:) (intro row_ops_fold row_ops_set cmd, simp add: row_ops_sched_row row_ops_refl split: option.split)
qed

lemma row_ops_sched:
  assumes "qos_init_schedule_profile L Y sys db = Inr db'"
  shows "row_ops L {T_QoS, T_Queue} db db'"
proof (cases "y_qos_info Y")
  case None
  with assms show ?thesis by (simp add: qos_init_schedule_profile_def row_ops_refl)
next
  case (Some info)
  with assms obtain db1 where 1: "qos_schedule_profile_create_factory_default L Y (yq_default_name info) db = Inr db1"
    by (auto simp: qos_init_schedule_profile_def bindE_eq_Inr)
  note ops1 = row_ops_sched_factory [OF 1 row_ops_refl]
  show ?thesis
  proof (cases "qos_get_schedule_profile_row L (yq_default_name info) db1")
    case None
    with assms Some 1 ops1 show ?thesis by (simp add: qos_init_schedule_profile_def)
  next
    case found: (Some p)
    with assms Some 1 obtain db3 where
      3: "qos_schedule_profile_create_factory_default L Y (yq_factory_default_name info)
            (idl_set L sys ''qos'' (VRef p) db1) = Inr db3"
      by (auto simp: qos_init_schedule_profile_def bindE_eq_Inr)
    note ops3 = row_ops_sched_factory [OF 3 row_ops_set [OF ops1]]
    from assms Some 1 found 3 ops3 show ?thesis
      by (auto simp: qos_init_schedule_profile_def Let_def split_beta split: option.splits intro!: row_ops_fold row_ops_intros)
  qed
qed

lemma row_ops_acl: "acl_init_limits L Y sys db = Inr db' \<Longrightarrow> row_ops L S db db'"
  by (auto simp: acl_init_limits_def Let_def row_ops_intros split: option.splits)

lemma row_ops_trust: "row_ops L S db (qos_init_trust L Y sys db)"
  by (simp add: qos_init_trust_def row_ops_intros split: option.split)

lemma row_ops_sw_info: "row_ops L S db (sysd_update_sw_info L release sys db)"
  by (simp add: sysd_update_sw_info_def Let_def row_ops_intros split: option.split)

subsection \<open>The subsystem\<close>

lemma row_ops_interfaces:
  "add_interfaces L K U mac ps db = Inr (prs, db') \<Longrightarrow> row_ops L {T_Subsystem, T_Interface} db db'"
proof (induction ps arbitrary: db prs)
  case (Cons p ps)
  then obtain r db1 qrs where one: "sysd_initial_interface_add L K U mac p db = Inr (r, db1)"
    and rest: "add_interfaces L K U mac ps db1 = Inr (qrs, db')"
    by (auto simp: bindE_eq_Inr)
  have "row_ops L {T_Subsystem, T_Interface} db db1"
    using one by (auto simp: sysd_initial_interface_add_def Let_def split_beta bindE_eq_Inr row_ops_intros)
  then show ?case using row_ops_trans [OF Cons.IH [OF rest]] by blast
qed (simp add: row_ops_refl)

lemma row_ops_split: "sysd_set_splittable_port_info L prs db = Inr db' \<Longrightarrow> row_ops L S db db'"
  unfolding sysd_set_splittable_port_info_def
  by (erule row_ops_foldE)
     (auto simp: set_split_refs_def Let_def bindE_eq_Inr row_ops_intros split: if_splits option.splits)

lemma row_ops_subsystem:
  assumes "sysd_initial_subsystem_add L K U dir ok s db = Inr (r, db')"
  shows "row_ops L {T_Subsystem, T_Interface} db db'"
proof -
  let ?S = "{T_Subsystem, T_Interface}"
  define db4 where "db4 = idl_set L (fst (idl_insert L T_Subsystem db)) ''hw_desc_dir'' (VStr dir)
    (idl_set L (fst (idl_insert L T_Subsystem db)) ''asset_tag_number'' (VStr ''OpenSwitch asset tag'')
    (idl_set L (fst (idl_insert L T_Subsystem db)) ''name'' (VStr (sub_name s)) (snd (idl_insert L T_Subsystem db))))"
  have ops4: "row_ops L ?S db db4" by (simp add: db4_def row_ops_intros)
  show ?thesis
  proof (cases "intf_cmn_info s")
    case None
    with assms show ?thesis by (simp add: sysd_initial_subsystem_add_def split_beta)
  next
    case (Some cmn)
    define db5 where "db5 = idl_set L (fst (idl_insert L T_Subsystem db)) ''other_info''
      (VSmap (add_pairs L (other_info_pairs (sub_fru s) cmn))) db4"
    have ops5: "row_ops L ?S db db5" by (simp add: db5_def row_ops_set ops4)
    show ?thesis
    proof (cases ok)
      case False
      with assms Some ops5 show ?thesis
        by (auto simp: sysd_initial_subsystem_add_def split_beta Let_def db5_def db4_def)
    next
      case True
      with assms Some obtain prs db6 db7 where
        6: "add_interfaces L K U (system_mac_addr s) (interfaces s) db5 = Inr (prs, db6)" and
        7: "sysd_set_splittable_port_info L prs db6 = Inr db7" and
        db': "row_ops L ?S db7 db'"
        by (auto simp: sysd_initial_subsystem_add_def split_beta Let_def bindE_eq_Inr db5_def db4_def row_ops_intros)
      show ?thesis
        using row_ops_trans [OF db' row_ops_trans [OF row_ops_split [OF 7] row_ops_trans [OF row_ops_interfaces [OF 6] ops5]]] .
    qed
  qed
qed


section \<open>What a step leaves alone\<close>

text \<open>
  A step evolves the replica within the tables \<open>S\<close> and the cells \<open>W\<close>: rows are only added, to those
  tables, and of the rows there were only those cells may change.
\<close>

definition evolves :: "('db, 'm) ovs_lib \<Rightarrow> ovs_table set \<Rightarrow> (row \<times> string) set \<Rightarrow> 'db \<Rightarrow> 'db \<Rightarrow> bool" where
  "evolves L S W db db' \<longleftrightarrow> row_ops L S db db' \<and>
     (\<forall>t r c. r \<in> set (idl_rows L t db) \<and> (r, c) \<notin> W \<longrightarrow> idl_get L r c db' = idl_get L r c db)"

lemma evolves_refl: "evolves L S W db db"
  by (simp add: evolves_def row_ops_refl)

lemma evolves_mono: "evolves L S W db db' \<Longrightarrow> S \<subseteq> S' \<Longrightarrow> W \<subseteq> W' \<Longrightarrow> evolves L S' W' db db'"
  unfolding evolves_def by (blast intro: row_ops_mono)

lemma evolves_get:
  "evolves L S W db db' \<Longrightarrow> r \<in> set (idl_rows L t db) \<Longrightarrow> (r, c) \<notin> W \<Longrightarrow> idl_get L r c db' = idl_get L r c db"
  unfolding evolves_def by blast

lemma evolves_readers:
  assumes "evolves L S W db db'" "r \<in> set (idl_rows L t db)" "(r, c) \<notin> W"
  shows "get_str L r c db' = get_str L r c db" "get_int L r c db' = get_int L r c db"
    "get_bool L r c db' = get_bool L r c db" "get_refs L r c db' = get_refs L r c db"
    "get_smap L r c db' = get_smap L r c db"
  by (simp_all add: get_defs evolves_get [OF assms])

context ovs_idl
begin

lemma evolves_rows:
  assumes "evolves L S W db db'"
  shows "r \<in> set (idl_rows L t db) \<Longrightarrow> r \<in> set (idl_rows L t db')"
    and "t \<notin> S \<Longrightarrow> set (idl_rows L t db') = set (idl_rows L t db)"
  using assms row_ops_grow row_ops_other unfolding evolves_def by blast+

lemma evolves_trans:
  assumes "evolves L S W db1 db2" "evolves L S W db2 db3"
  shows "evolves L S W db1 db3"
  using assms evolves_rows(1) [OF assms(1)] unfolding evolves_def by (metis row_ops_trans)

lemma evolves_set:
  assumes "evolves L S W db0 db" "(r, c) \<in> W \<or> (\<forall>t. r \<notin> set (idl_rows L t db0))"
  shows "evolves L S W db0 (idl_set L r c v db)"
proof -
  have "idl_get L x d (idl_set L r c v db) = idl_get L x d db0"
    if "x \<in> set (idl_rows L t db0)" "(x, d) \<notin> W" for x d t
  proof -
    have "x \<noteq> r \<or> d \<noteq> c" using that assms(2) by blast
    then show ?thesis using evolves_get [OF assms(1) that] by (simp add: get_set_other)
  qed
  then show ?thesis using assms(1) unfolding evolves_def by (blast intro: row_ops_set)
qed

lemma evolves_insert:
  assumes "evolves L S W db0 db" "idl_insert L t db = (r, db')" "t \<in> S"
  shows "evolves L S W db0 db'" "r \<notin> set (idl_rows L t' db0)" "r \<in> set (idl_rows L t db')"
proof -
  show fresh: "r \<notin> set (idl_rows L t' db0)" for t'
    using insert_fresh [OF assms(2)] evolves_rows(1) [OF assms(1)] by blast
  show "evolves L S W db0 db'"
    using assms fresh insert_get [OF assms(2)] unfolding evolves_def
    by (metis row_ops_insert)
  show "r \<in> set (idl_rows L t db')" using insert_rows [OF assms(2), of t] by simp
qed

end

section \<open>The steps\<close>

definition has_default_bridge :: "('db, 'm) ovs_lib \<Rightarrow> idl_names \<Rightarrow> row \<Rightarrow> 'db \<Rightarrow> bool" where
  "has_default_bridge L K sys db \<longleftrightarrow>
     (\<exists>br \<in> set (idl_rows L T_Bridge db). \<exists>port \<in> set (idl_rows L T_Port db). \<exists>iface \<in> set (idl_rows L T_Interface db).
        set (get_refs L sys ''bridges'' db) = {br} \<and> set (get_refs L br ''ports'' db) = {port} \<and>
        set (get_refs L port ''interfaces'' db) = {iface} \<and> get_str L br ''name'' db = Some (k_bridge_name K) \<and>
        get_str L port ''name'' db = Some (k_bridge_name K) \<and> get_str L iface ''name'' db = Some (k_bridge_name K) \<and>
        get_str L iface ''type'' db = Some (k_type_internal K))"

definition has_default_vrf :: "('db, 'm) ovs_lib \<Rightarrow> idl_names \<Rightarrow> row \<Rightarrow> 'db \<Rightarrow> bool" where
  "has_default_vrf L K sys db \<longleftrightarrow>
     (\<exists>vrf \<in> set (idl_rows L T_VRF db). set (get_refs L sys ''vrfs'' db) = {vrf} \<and>
        get_str L vrf ''name'' db = Some (k_vrf_name K) \<and> get_int L vrf ''table_id'' db = 0 \<and>
        smap_get L (get_smap L vrf ''status'' db) = [k_vrf_status K \<mapsto> k_vrf_status_value K])"

context ovs_idl
begin

lemma bridge_made:
  assumes "sys \<in> set (idl_rows L T_System db)"
    and "db' = sysd_configure_default_bridge L K sys db"
  shows "evolves L {T_Bridge, T_Port, T_Interface} {(sys, ''bridges'')} db db' \<and> has_default_bridge L K sys db'"
proof -
  obtain br db1 where ins1: "idl_insert L T_Bridge db = (br, db1)" by fastforce
  define db3 where "db3 = idl_set L sys ''bridges'' (VRefs [br]) (idl_set L br ''name'' (VStr (k_bridge_name K)) db1)"
  obtain iface db4 where ins2: "idl_insert L T_Interface db3 = (iface, db4)" by fastforce
  define db8 where "db8 = idl_set L iface ''user_config'' (VSmap (smap_add L (k_admin K) (k_admin_up K) (smap_init L)))
    (idl_set L iface ''hw_intf_info'' (VSmap (smap_add L (k_bridge K) (k_bridge_true K) (smap_init L)))
    (idl_set L iface ''type'' (VStr (k_type_internal K)) (idl_set L iface ''name'' (VStr (k_bridge_name K)) db4)))"
  obtain port db9 where ins3: "idl_insert L T_Port db8 = (port, db9)" by fastforce
  have db': "db' = idl_set L br ''ports'' (VRefs [port]) (idl_set L port ''interfaces'' (VRefs [iface])
      (idl_set L port ''name'' (VStr (k_bridge_name K)) db9))"
    by (simp add: assms(2) sysd_configure_default_bridge_def ins1 Let_def db3_def [symmetric] ins2 db8_def [symmetric] ins3)
  let ?S = "{T_Bridge, T_Port, T_Interface}" and ?W = "{(sys, ''bridges'')}"
  note e1 = evolves_insert [OF evolves_refl [of L ?S ?W db] ins1]
  have e3: "evolves L ?S ?W db db3"
    unfolding db3_def by (intro evolves_set) (simp_all add: e1)
  note e4 = evolves_insert [OF e3 ins2]
  have e8: "evolves L ?S ?W db db8"
    unfolding db8_def by (intro evolves_set) (simp_all add: e4)
  note e9 = evolves_insert [OF e8 ins3]
  have e: "evolves L ?S ?W db db'"
    unfolding db' by (intro evolves_set) (simp_all add: e1 e9)
  have rows: "idl_rows L t db' = idl_rows L t db9" "idl_rows L t db8 = idl_rows L t db4"
    "idl_rows L t db3 = idl_rows L t db1" for t
    by (simp_all add: db' db8_def db3_def rows_set)
  have br_in: "br \<in> set (idl_rows L T_Bridge db1)" using e1(3) by simp
  have br4: "br \<in> set (idl_rows L T_Bridge db4)" using insert_rows [OF ins2, of T_Bridge] br_in rows by simp
  have br9: "br \<in> set (idl_rows L T_Bridge db9)" using insert_rows [OF ins3, of T_Bridge] br4 rows by simp
  have if4: "iface \<in> set (idl_rows L T_Interface db4)" using e4(3) by simp
  have if9: "iface \<in> set (idl_rows L T_Interface db9)" using insert_rows [OF ins3, of T_Interface] if4 rows by simp
  have port9: "port \<in> set (idl_rows L T_Port db9)" using e9(3) by simp
  have "br \<noteq> sys" using e1(2) [of T_System] assms(1) by auto
  moreover have "iface \<noteq> br" using insert_fresh [OF ins2, of T_Bridge] br_in rows by auto
  moreover have "port \<noteq> br" using insert_fresh [OF ins3, of T_Bridge] br4 rows by auto
  moreover have "port \<noteq> iface" using insert_fresh [OF ins3, of T_Interface] if4 rows by auto
  moreover have "iface \<noteq> sys" using e4(2) [of T_System] assms(1) by auto
  moreover have "port \<noteq> sys" using e9(2) [of T_System] assms(1) by auto
  ultimately have cells: "set (get_refs L sys ''bridges'' db') = {br}" "set (get_refs L br ''ports'' db') = {port}"
    "set (get_refs L port ''interfaces'' db') = {iface}" "get_str L br ''name'' db' = Some (k_bridge_name K)"
    "get_str L port ''name'' db' = Some (k_bridge_name K)" "get_str L iface ''name'' db' = Some (k_bridge_name K)"
    "get_str L iface ''type'' db' = Some (k_type_internal K)"
    by (simp_all add: db' insert_readers [OF ins3] db8_def insert_readers [OF ins2] db3_def get_other get_same get_refs_same)
  have "has_default_bridge L K sys db'"
    unfolding has_default_bridge_def
    by (rule bexI [of _ br], rule bexI [of _ port], rule bexI [of _ iface]) (simp_all add: cells rows br9 if9 port9)
  with e show ?thesis by blast
qed

lemma vrf_made:
  assumes "sys \<in> set (idl_rows L T_System db)"
    and "db' = sysd_configure_default_vrf L K sys db"
  shows "evolves L {T_VRF} {(sys, ''vrfs'')} db db' \<and> has_default_vrf L K sys db'"
proof -
  obtain vrf db1 where ins: "idl_insert L T_VRF db = (vrf, db1)" by fastforce
  define db4 where "db4 = idl_set L vrf ''table_id'' (VInt 0) (idl_set L sys ''vrfs'' (VRefs [vrf])
    (idl_set L vrf ''name'' (VStr (k_vrf_name K)) db1))"
  have neq: "vrf \<noteq> sys" using insert_fresh [OF ins, of T_System] assms(1) by auto
  have st: "get_smap L vrf ''status'' db4 = smap_init L"
    by (simp add: db4_def get_other insert_readers [OF ins])
  have db': "db' = idl_set L vrf ''status'' (VSmap (smap_add L (k_vrf_status K) (k_vrf_status_value K) (smap_init L))) db4"
    by (simp add: assms(2) sysd_configure_default_vrf_def ins Let_def db4_def [symmetric] st add_once keys_init)
  note e1 = evolves_insert [OF evolves_refl [of L "{T_VRF}" "{(sys, ''vrfs'')}" db] ins]
  have e: "evolves L {T_VRF} {(sys, ''vrfs'')} db db'"
    unfolding db' db4_def by (intro evolves_set) (simp_all add: e1)
  have dist: "distinct (smap_keys L (smap_add L (k_vrf_status K) (k_vrf_status_value K) (smap_init L)))"
    by (rule distinct_keys_add) (simp_all add: keys_init)
  have "has_default_vrf L K sys db'"
    unfolding has_default_vrf_def
    using neq e1(3) get_smap_same(1) [OF dist]
    by (intro bexI [of _ vrf])
       (simp_all add: db' db4_def rows_set get_other get_same get_refs_same get_add keys_init fun_eq_iff)
  with e show ?thesis by blast
qed

lemma daemons_added:
  assumes "add_daemons L ds db = (rs, db')"
  shows "length rs = length ds \<and> new_rows L T_Daemon rs db db' \<and> row_ops L {T_Daemon} db db' \<and>
    (\<forall>i < length ds. row_name L db' (rs ! i) = d_name (ds ! i) \<and>
        row_is_hw L db' (rs ! i) = d_is_hw_handler (ds ! i) \<and> row_cur_hw L db' (rs ! i) = d_cur_hw (ds ! i))"
  using assms
proof (induction ds arbitrary: db rs)
  case Nil
  then show ?case by (simp add: row_ops_refl)
next
  case (Cons d ds)
  obtain r db0 where ins: "idl_insert L T_Daemon db = (r, db0)" by fastforce
  define db1 where "db1 = idl_set L r ''is_hw_handler'' (VBool (d_is_hw_handler d))
    (idl_set L r ''cur_hw'' (VInt (d_cur_hw d)) (idl_set L r ''name'' (VStr (d_name d)) db0))"
  obtain qs where rest: "add_daemons L ds db1 = (qs, db')" and rs: "rs = r # qs"
    using Cons.prems by (cases "add_daemons L ds db1") (simp add: sysd_initial_daemon_add_def ins Let_def db1_def)
  note IH = Cons.IH [OF rest]
  have new1: "new_rows L T_Daemon [r] db db1"
    unfolding db1_def by (intro new_rows_set insert_new [OF ins])
  have ops1: "row_ops L {T_Daemon} db db1"
    using row_ops_new [OF row_ops_refl, of T_Daemon "{T_Daemon}" L db] by (simp add: ins db1_def row_ops_set)
  have "r \<in> set (idl_rows L T_Daemon db1)" using new1 by (simp add: new_rows_def)
  then have "r \<notin> set qs" using new_rows_fresh [of L T_Daemon qs db1 db' r] IH by blast
  then have get: "idl_get L r c db' = idl_get L r c db1" for c
    using new_rows_old [of L T_Daemon qs db1 db' r c] IH by simp
  have r: "row_name L db' r = d_name d" "row_is_hw L db' r = d_is_hw_handler d" "row_cur_hw L db' r = d_cur_hw d"
    using get by (simp_all add: row_name_def row_is_hw_def row_cur_hw_def get_defs db1_def get_set_other get_set_scalar)
  show ?case
    using IH r new_rows_Cons [OF new1, of qs db'] row_ops_trans [of L "{T_Daemon}" db1 db' db, OF _ ops1]
    by (auto simp: rs nth_Cons split: nat.split)
qed

end

section \<open>The QoS and ACL part\<close>

definition qos_tables :: "ovs_table set" where
  "qos_tables = {T_QoS_DSCP_Map_Entry, T_QoS_COS_Map_Entry, T_Q_Profile, T_Q_Profile_Entry, T_QoS, T_Queue}"

definition qos_cols :: "string set" where
  "qos_cols = {''qos_config'', ''qos_dscp_map_entries'', ''qos_cos_map_entries'', ''q_profile'', ''qos'', ''other_info''}"

text \<open>QoS and ACL files the start-up code can work with.\<close>

definition wf_config :: "yaml_lib \<Rightarrow> bool" where
  "wf_config Y \<longleftrightarrow>
     (case y_qos_info Y of None \<Rightarrow> False | Some info \<Rightarrow> yq_default_name info \<noteq> yq_factory_default_name info) \<and>
     0 < y_cos_count Y \<and> y_cos_count Y \<le> 8 \<and> 0 < y_dscp_count Y \<and> y_dscp_count Y \<le> 64 \<and>
     list_all (\<lambda>i. case y_cos_entry Y i of None \<Rightarrow> False | Some e \<Rightarrow> wf_map_entry e) [0..<nat (y_cos_count Y)] \<and>
     list_all (\<lambda>i. case y_dscp_entry Y i of None \<Rightarrow> False | Some e \<Rightarrow> wf_map_entry e) [0..<nat (y_dscp_count Y)] \<and>
     (case y_acl_info Y of None \<Rightarrow> False
      | Some acl \<Rightarrow> int32 (ya_max_acls acl) \<and> int32 (ya_max_aces acl) \<and> int32 (ya_max_aces_per_acl acl))"

lemma list_all_entries:
  "list_all (\<lambda>i. case f i of None \<Rightarrow> False | Some e \<Rightarrow> P e) [0..<n] \<Longrightarrow> \<forall>i < n. \<exists>e. f i = Some e \<and> P e"
  by (simp add: list_all_iff split: option.splits) (metis atLeastLessThan_iff le0)

context ovs_idl
begin

lemma qos_acl_total:
  assumes "wf_config Y" "sys \<in> set (idl_rows L T_System db)"
    and empty: "\<forall>t \<in> qos_tables. idl_rows L t db = []" and blank: "idl_get L sys ''other_info'' db = VNone"
  shows "\<exists>db'. init_qos_acl L Y sys db = Inr db' \<and> evolves L qos_tables ({sys} \<times> qos_cols) db db'"
proof -
  let ?W = "{sys} \<times> qos_cols"
  define db0 where "db0 = qos_init_trust L Y sys db"
  have e0: "evolves L qos_tables ?W db db0"
    by (auto simp: db0_def qos_init_trust_def qos_cols_def intro: evolves_refl evolves_set split: option.split)
  have sys: "sys \<in> set (idl_rows L T_System db0)" using evolves_rows(1) [OF e0 assms(2)] .
  obtain db1 where 1: "qos_init_dscp_map L Y sys db0 = Inr db1"
    "\<forall>t r c. r \<in> set (idl_rows L t db0) \<and> (r \<noteq> sys \<or> c \<noteq> ''qos_dscp_map_entries'') \<longrightarrow> idl_get L r c db1 = idl_get L r c db0"
    using dscp_map_made [of Y sys db0] sys assms(1) list_all_entries [of wf_map_entry "y_dscp_entry Y"]
    by (auto simp: wf_config_def)
  have e1: "evolves L qos_tables ?W db0 db1"
    using 1(2) row_ops_mono [OF row_ops_dscp [OF 1(1)], of qos_tables]
    by (auto simp: evolves_def qos_tables_def qos_cols_def)
  obtain db2 where 2: "qos_init_cos_map L Y sys db1 = Inr db2"
    "\<forall>t r c. r \<in> set (idl_rows L t db1) \<and> (r \<noteq> sys \<or> c \<noteq> ''qos_cos_map_entries'') \<longrightarrow> idl_get L r c db2 = idl_get L r c db1"
    using cos_map_made [of Y sys db1] evolves_rows(1) [OF e1 sys] assms(1) list_all_entries [of wf_map_entry "y_cos_entry Y"]
    by (auto simp: wf_config_def)
  have e2: "evolves L qos_tables ?W db1 db2"
    using 2(2) row_ops_mono [OF row_ops_cos [OF 2(1)], of qos_tables]
    by (auto simp: evolves_def qos_tables_def qos_cols_def)
  note e02 = evolves_trans [OF evolves_trans [OF e0 e1] e2]
  have sys2: "sys \<in> set (idl_rows L T_System db2)" using evolves_rows(1) [OF e02 assms(2)] .
  have ops2: "row_ops L {T_QoS_DSCP_Map_Entry, T_QoS_COS_Map_Entry} db db2"
  proof -
    note a = row_ops_mono [OF row_ops_cos [OF 2(1)], of "{T_QoS_DSCP_Map_Entry, T_QoS_COS_Map_Entry}"]
    note b = row_ops_mono [OF row_ops_dscp [OF 1(1)], of "{T_QoS_DSCP_Map_Entry, T_QoS_COS_Map_Entry}"]
    show ?thesis
      using row_ops_trans [OF a row_ops_trans [OF b row_ops_trust [of L _ db Y sys, folded db0_def]]] by simp
  qed
  have none2: "idl_rows L t db2 = []" if "t \<in> {T_Q_Profile, T_Q_Profile_Entry, T_QoS, T_Queue}" for t
    using row_ops_other [OF ops2, of t] empty that by (auto simp: qos_tables_def)
  obtain info where info: "y_qos_info Y = Some info" "yq_default_name info \<noteq> yq_factory_default_name info"
    using assms(1) by (auto simp: wf_config_def split: option.splits)
  define db3 where "db3 = qos_init_queue_profile L Y sys db2"
  have get3: "\<forall>t r c. r \<in> set (idl_rows L t db2) \<and> (r \<noteq> sys \<or> c \<noteq> ''q_profile'') \<longrightarrow> idl_get L r c db3 = idl_get L r c db2"
    using queue_init_profiles [OF info, of db2 sys] sys2 by (auto simp: none2 db3_def)
  have e3: "evolves L qos_tables ?W db2 db3"
    using get3 row_ops_mono [OF row_ops_queue [of L db2 Y sys, folded db3_def], of qos_tables]
    by (auto simp: evolves_def qos_tables_def qos_cols_def)
  have none3: "idl_rows L t db3 = []" if "t \<in> {T_QoS, T_Queue}" for t
    using row_ops_other [OF row_ops_queue [of L db2 Y sys, folded db3_def], of t] none2 [of t] that by auto
  obtain db4 where 4: "qos_init_schedule_profile L Y sys db3 = Inr db4"
    "\<forall>t r c. r \<in> set (idl_rows L t db3) \<and> (r \<noteq> sys \<or> c \<noteq> ''qos'') \<longrightarrow> idl_get L r c db4 = idl_get L r c db3"
    using sched_init_profiles [OF info, of db3 sys] evolves_rows(1) [OF e3 sys2] by (auto simp: none3)
  have e4: "evolves L qos_tables ?W db3 db4"
    using 4(2) row_ops_mono [OF row_ops_sched [OF 4(1)], of qos_tables]
    by (auto simp: evolves_def qos_tables_def qos_cols_def)
  have "idl_get L sys ''other_info'' db4 = VNone"
  proof -
    have "idl_get L sys ''other_info'' db0 = VNone"
      using blank by (auto simp: db0_def qos_init_trust_def get_set_other split: option.split)
    moreover have "idl_get L sys ''other_info'' db1 = idl_get L sys ''other_info'' db0" using 1(2) sys by simp
    moreover have "idl_get L sys ''other_info'' db2 = idl_get L sys ''other_info'' db1"
      using 2(2) evolves_rows(1) [OF e1 sys] by simp
    moreover have "idl_get L sys ''other_info'' db3 = idl_get L sys ''other_info'' db2" using get3 sys2 by simp
    moreover have "idl_get L sys ''other_info'' db4 = idl_get L sys ''other_info'' db3"
      using 4(2) evolves_rows(1) [OF e3 sys2] by simp
    ultimately show ?thesis by simp
  qed
  then have dist: "distinct (smap_keys L (get_smap L sys ''other_info'' db4))" by (simp add: get_smap_def keys_init)
  obtain acl where acl: "y_acl_info Y = Some acl" "int32 (ya_max_acls acl)" "int32 (ya_max_aces acl)"
    "int32 (ya_max_aces_per_acl acl)"
    using assms(1) by (auto simp: wf_config_def split: option.splits)
  obtain db5 where 5: "acl_init_limits L Y sys db4 = Inr db5"
    "\<forall>r c. r \<noteq> sys \<or> c \<noteq> ''other_info'' \<longrightarrow> idl_get L r c db5 = idl_get L r c db4"
    using acl_limits_kept [OF acl dist] by blast
  have e5: "evolves L qos_tables ?W db4 db5"
    using 5(2) row_ops_acl [OF 5(1)] by (auto simp: evolves_def qos_cols_def)
  have "init_qos_acl L Y sys db = Inr db5"
    by (simp add: init_qos_acl_def db0_def [symmetric] 1(1) 2(1) db3_def [symmetric] 4(1) 5(1))
  with evolves_trans [OF evolves_trans [OF evolves_trans [OF e02 e3] e4] e5] show ?thesis by blast
qed

end

section \<open>The start-up transaction\<close>

definition daemons_written :: "('db, 'm) ovs_lib \<Rightarrow> daemon_info list \<Rightarrow> row \<Rightarrow> 'db \<Rightarrow> bool" where
  "daemons_written L ds sys db \<longleftrightarrow>
     (\<exists>rs. length rs = length ds \<and> distinct rs \<and> sys \<notin> set rs \<and> set (idl_rows L T_Daemon db) = set rs \<and>
        set (get_refs L sys ''daemons'' db) = set rs \<and>
        (\<forall>i < length ds. row_name L db (rs ! i) = d_name (ds ! i) \<and>
           row_is_hw L db (rs ! i) = d_is_hw_handler (ds ! i) \<and> row_cur_hw L db (rs ! i) = d_cur_hw (ds ! i)))"

text \<open>What the first part promises, and everything the transaction promises for one subsystem.\<close>

definition system_started ::
  "('db, 'm) ovs_lib \<Rightarrow> idl_names \<Rightarrow> ops_utils \<Rightarrow> string \<Rightarrow> subsystem \<Rightarrow> row \<Rightarrow> 'db \<Rightarrow> bool" where
  "system_started L K U name s sys db \<longleftrightarrow>
     set (idl_rows L T_System db) = {sys} \<and>
     smap_get L (get_smap L sys ''mgmt_intf'' db) = [k_mgmt_name K \<mapsto> name] \<and>
     get_str L sys ''management_mac'' db = Some (ops_ether_ulong_long_to_string U (mgmt_mac_addr s)) \<and>
     get_str L sys ''system_mac'' db = Some (ops_ether_ulong_long_to_string U (system_mac_addr s)) \<and>
     has_default_bridge L K sys db \<and> has_default_vrf L K sys db"

definition configured ::
  "('db, 'm) ovs_lib \<Rightarrow> idl_names \<Rightarrow> ops_utils \<Rightarrow> string \<Rightarrow> string \<Rightarrow> daemon_info list \<Rightarrow> subsystem \<Rightarrow> yaml_port_info \<Rightarrow>
   row \<Rightarrow> row \<Rightarrow> 'db \<Rightarrow> bool" where
  "configured L K U dir name ds s cmn sys sub db \<longleftrightarrow>
     system_started L K U name s sys db \<and> get_str L sys ''timezone'' db = Some ''UTC'' \<and>
     get_int L sys ''cur_hw'' db = 0 \<and> get_int L sys ''next_hw'' db = 0 \<and>
     set (idl_rows L T_Subsystem db) = {sub} \<and>
     set (get_refs L sys ''subsystems'' db) = {sub} \<and> describes_subsystem L U dir s cmn sub db \<and>
     daemons_written L ds sys db"

definition early_tables :: "ovs_table set" where
  "early_tables = {T_System, T_Bridge, T_Port, T_Interface, T_VRF}"

definition early_cols :: "string set" where
  "early_cols = {''mgmt_intf'', ''bridges'', ''vrfs'', ''management_mac'', ''system_mac''}"

definition late_cols :: "string set" where
  "late_cols = {''software_info'', ''switch_version'', ''timezone''} \<union> qos_cols"

context ovs_idl
begin

lemma bridge_kept:
  assumes "evolves L S ({sys} \<times> C) db db'" "has_default_bridge L K sys db" "sys \<in> set (idl_rows L T_System db)"
    and "C \<inter> {''bridges'', ''ports'', ''interfaces'', ''name'', ''type''} = {}"
  shows "has_default_bridge L K sys db'"
proof -
  from assms(2) obtain br port iface where rows: "br \<in> set (idl_rows L T_Bridge db)" "port \<in> set (idl_rows L T_Port db)"
    "iface \<in> set (idl_rows L T_Interface db)" and cells: "set (get_refs L sys ''bridges'' db) = {br}"
    "set (get_refs L br ''ports'' db) = {port}" "set (get_refs L port ''interfaces'' db) = {iface}"
    "get_str L br ''name'' db = Some (k_bridge_name K)" "get_str L port ''name'' db = Some (k_bridge_name K)"
    "get_str L iface ''name'' db = Some (k_bridge_name K)" "get_str L iface ''type'' db = Some (k_type_internal K)"
    unfolding has_default_bridge_def by blast
  have c: "\<And>r c. c \<in> {''bridges'', ''ports'', ''interfaces'', ''name'', ''type''} \<Longrightarrow> (r, c) \<notin> {sys} \<times> C"
    using assms(4) by blast
  note same = evolves_readers [OF assms(1) _ c]
  have "set (get_refs L sys ''bridges'' db') = {br}" "set (get_refs L br ''ports'' db') = {port}"
    "set (get_refs L port ''interfaces'' db') = {iface}"
    "get_str L br ''name'' db' = Some (k_bridge_name K)" "get_str L port ''name'' db' = Some (k_bridge_name K)"
    "get_str L iface ''name'' db' = Some (k_bridge_name K)" "get_str L iface ''type'' db' = Some (k_type_internal K)"
    using cells by (simp_all add: same(4) [OF assms(3)] same [OF rows(1)] same [OF rows(2)] same [OF rows(3)])
  with evolves_rows(1) [OF assms(1) rows(1)] evolves_rows(1) [OF assms(1) rows(2)] evolves_rows(1) [OF assms(1) rows(3)]
  show ?thesis unfolding has_default_bridge_def by blast
qed

lemma vrf_kept:
  assumes "evolves L S ({sys} \<times> C) db db'" "has_default_vrf L K sys db" "sys \<in> set (idl_rows L T_System db)"
    and "C \<inter> {''vrfs'', ''name'', ''table_id'', ''status''} = {}"
  shows "has_default_vrf L K sys db'"
proof -
  from assms(2) obtain vrf where vrf: "vrf \<in> set (idl_rows L T_VRF db)" and cells: "set (get_refs L sys ''vrfs'' db) = {vrf}"
    "get_str L vrf ''name'' db = Some (k_vrf_name K)" "get_int L vrf ''table_id'' db = 0"
    "smap_get L (get_smap L vrf ''status'' db) = [k_vrf_status K \<mapsto> k_vrf_status_value K]"
    unfolding has_default_vrf_def by blast
  have c: "\<And>r c. c \<in> {''vrfs'', ''name'', ''table_id'', ''status''} \<Longrightarrow> (r, c) \<notin> {sys} \<times> C"
    using assms(4) by blast
  note same = evolves_readers [OF assms(1) _ c]
  have "set (get_refs L sys ''vrfs'' db') = {vrf}" "get_str L vrf ''name'' db' = Some (k_vrf_name K)"
    "get_int L vrf ''table_id'' db' = 0"
    "smap_get L (get_smap L vrf ''status'' db') = [k_vrf_status K \<mapsto> k_vrf_status_value K]"
    using cells by (simp_all add: same(4) [OF assms(3)] same [OF vrf])
  with evolves_rows(1) [OF assms(1) vrf] show ?thesis unfolding has_default_vrf_def by blast
qed

lemma started_kept:
  assumes "evolves L S ({sys} \<times> C) db db'" "system_started L K U name s sys db" "T_System \<notin> S"
    and "C \<inter> (early_cols \<union> {''ports'', ''interfaces'', ''name'', ''type'', ''table_id'', ''status''}) = {}"
  shows "system_started L K U name s sys db'"
proof -
  have sys: "sys \<in> set (idl_rows L T_System db)" using assms(2) by (simp add: system_started_def)
  have c: "\<And>c. c \<in> early_cols \<Longrightarrow> (sys, c) \<notin> {sys} \<times> C" using assms(4) by blast
  note same = evolves_readers [OF assms(1) sys c]
  have "has_default_bridge L K sys db'"
    by (rule bridge_kept [OF assms(1) _ sys]) (use assms(2,4) in \<open>auto simp: system_started_def early_cols_def\<close>)
  moreover have "has_default_vrf L K sys db'"
    by (rule vrf_kept [OF assms(1) _ sys]) (use assms(2,4) in \<open>auto simp: system_started_def early_cols_def\<close>)
  ultimately show ?thesis
    using assms(2) evolves_rows(2) [OF assms(1,3)] by (simp add: system_started_def same early_cols_def)
qed

lemma subsystem_kept:
  assumes "evolves L S ({sys} \<times> C) db db'" "describes_subsystem L U dir s cmn sub db"
    and "sub \<in> set (idl_rows L t db)" "sub \<noteq> sys"
  shows "describes_subsystem L U dir s cmn sub db'"
proof -
  have c: "(sub, c) \<notin> {sys} \<times> C" for c using assms(4) by blast
  show ?thesis
    using assms(2) unfolding describes_subsystem_def by (simp add: evolves_readers [OF assms(1,3) c])
qed

lemma daemons_kept:
  assumes "evolves L S ({sys} \<times> C) db db'" "daemons_written L ds sys db" "sys \<in> set (idl_rows L T_System db)"
    and "C \<inter> {''daemons'', ''name'', ''is_hw_handler'', ''cur_hw''} = {}" "T_Daemon \<notin> S"
  shows "daemons_written L ds sys db'"
proof -
  from assms(2) obtain rs where rs: "length rs = length ds" "distinct rs" "set (idl_rows L T_Daemon db) = set rs"
    "set (get_refs L sys ''daemons'' db) = set rs" "sys \<notin> set rs"
    "\<forall>i < length ds. row_name L db (rs ! i) = d_name (ds ! i) \<and>
           row_is_hw L db (rs ! i) = d_is_hw_handler (ds ! i) \<and> row_cur_hw L db (rs ! i) = d_cur_hw (ds ! i)"
    unfolding daemons_written_def by blast
  have c: "\<And>r c. c \<in> {''daemons'', ''name'', ''is_hw_handler'', ''cur_hw''} \<Longrightarrow> (r, c) \<notin> {sys} \<times> C"
    using assms(4) by blast
  note same = evolves_readers [OF assms(1) _ c]
  have "row_name L db' r = row_name L db r \<and> row_is_hw L db' r = row_is_hw L db r \<and> row_cur_hw L db' r = row_cur_hw L db r"
    if "r \<in> set rs" for r
  proof -
    have "r \<in> set (idl_rows L T_Daemon db)" using that rs(3) by simp
    then show ?thesis unfolding row_name_def row_is_hw_def row_cur_hw_def by (simp add: same)
  qed
  moreover have "set (get_refs L sys ''daemons'' db') = set rs" using rs(4) by (simp add: same(4) [OF assms(3)])
  moreover have "set (idl_rows L T_Daemon db') = set rs" using evolves_rows(2) [OF assms(1,5)] rs(3) by simp
  ultimately show ?thesis
    unfolding daemons_written_def using rs(1,2,5,6) by (intro exI [of _ rs]) simp
qed

end

context ovs_idl
begin

lemma daemons_and_rest:
  assumes "wf_config Y" "sys \<in> set (idl_rows L T_System db)"
    and "\<forall>t \<in> qos_tables. idl_rows L t db = []" "idl_get L sys ''other_info'' db = VNone"
    and "idl_rows L T_Daemon db = []" "idl_get L sys ''daemons'' db = VNone"
  shows "\<exists>db'. init_daemons_and_rest L Y release True ds sys db = Inr db' \<and>
    evolves L (insert T_Daemon qos_tables) ({sys} \<times> insert ''daemons'' late_cols) db db' \<and>
    daemons_written L ds sys db' \<and> get_str L sys ''timezone'' db' = Some ''UTC''"
proof -
  let ?W = "{sys} \<times> insert ''daemons'' late_cols" and ?S = "insert T_Daemon qos_tables"
  obtain rs db0 where add: "add_daemons L ds db = (rs, db0)" by fastforce
  note new = daemons_added [OF add]
  define db1 where "db1 = (if ds \<noteq> [] then idl_set L sys ''daemons'' (VRefs rs) db0 else db)"
  define db3 where "db3 = idl_set L sys ''timezone'' (VStr ''UTC'') (sysd_update_sw_info L release sys db1)"
  have nil: "rs = [] \<and> db0 = db" if "ds = []" using add that by simp
  have "idl_get L r c db0 = idl_get L r c db" if "r \<in> set (idl_rows L t db)" for t r c
    using new_rows_old [of L T_Daemon rs db db0 r c] new_rows_fresh [of L T_Daemon rs db db0 r t] new that by blast
  then have e0: "evolves L ?S ?W db db0"
    using new row_ops_mono [of L "{T_Daemon}" db db0 ?S] by (auto simp: evolves_def)
  then have e1: "evolves L ?S ?W db db1" by (auto simp: db1_def intro: evolves_set evolves_refl)
  have "evolves L {} ({sys} \<times> late_cols) db1 db3"
    unfolding db3_def
    by (intro evolves_set) (auto simp: evolves_def row_ops_sw_info sw_info_frame late_cols_def)
  then have e3: "evolves L qos_tables ({sys} \<times> late_cols) db1 db3" by (rule evolves_mono) auto
  note e3' = evolves_mono [OF e3, of ?S ?W]
  have sys1: "sys \<in> set (idl_rows L T_System db1)" using evolves_rows(1) [OF e1 assms(2)] .
  have sys3: "sys \<in> set (idl_rows L T_System db3)" using evolves_rows(1) [OF e3 sys1] .
  have notin: "sys \<notin> set rs" using new_rows_fresh [of L T_Daemon rs db db0 sys T_System] new assms(2) by blast
  have rows0: "set (idl_rows L t db0) = (if t = T_Daemon then set rs \<union> set (idl_rows L t db) else set (idl_rows L t db))" for t
    using new by (simp add: new_rows_def)
  have empty3: "\<forall>t \<in> qos_tables. idl_rows L t db3 = []"
  proof
    fix t assume t: "t \<in> qos_tables"
    then have "t \<noteq> T_Daemon" by (auto simp: qos_tables_def)
    then have "set (idl_rows L t db1) = {}" using rows0 [of t] assms(3) t by (simp add: db1_def rows_set)
    moreover have "row_ops L {} db1 db3" unfolding db3_def by (intro row_ops_set row_ops_sw_info)
    ultimately show "idl_rows L t db3 = []" using row_ops_other [of "{}" db1 db3 t] by simp
  qed
  have blank3: "idl_get L sys ''other_info'' db3 = VNone"
    using assms(2,4) notin new_rows_old [of L T_Daemon rs db db0 sys] new
    by (auto simp: db3_def db1_def get_set_other sw_info_frame)
  obtain db' where 4: "init_qos_acl L Y sys db3 = Inr db'" "evolves L qos_tables ({sys} \<times> qos_cols) db3 db'"
    using qos_acl_total [OF assms(1) sys3 empty3 blank3] by blast
  have e4: "evolves L ?S ?W db3 db'" by (rule evolves_mono [OF 4(2)]) (auto simp: late_cols_def)
  have "init_daemons_and_rest L Y release True ds sys db = Inr db'"
    using 4(1) by (cases "ds = []") (simp_all add: init_daemons_and_rest_def add Let_def db1_def db3_def)
  moreover have "evolves L ?S ?W db db'"
    using evolves_trans [OF evolves_trans [OF e1 evolves_mono [OF e3]] e4] by blast
  moreover have "daemons_written L ds sys db'"
  proof -
    have w1: "daemons_written L ds sys db1"
    proof (cases "ds = []")
      case True
      then show ?thesis using nil assms(5,6)
        by (simp add: daemons_written_def db1_def get_refs_def)
    next
      case False
      have "set (idl_rows L T_Daemon db1) = set rs" using rows0 [of T_Daemon] assms(5) False by (simp add: db1_def rows_set)
      moreover have "row_name L db1 r = row_name L db0 r \<and> row_is_hw L db1 r = row_is_hw L db0 r \<and>
          row_cur_hw L db1 r = row_cur_hw L db0 r" for r
        using False by (simp add: db1_def row_name_def row_is_hw_def row_cur_hw_def get_other)
      moreover have "set (get_refs L sys ''daemons'' db1) = set rs" using False by (simp add: db1_def get_refs_same)
      ultimately show ?thesis
        unfolding daemons_written_def using new notin by (intro exI [of _ rs]) (simp add: new_rows_def)
    qed
    have w3: "daemons_written L ds sys db3"
      by (rule daemons_kept [OF e3 w1 sys1]) (auto simp: late_cols_def qos_cols_def qos_tables_def)
    show ?thesis by (rule daemons_kept [OF 4(2) w3 sys3]) (auto simp: qos_cols_def qos_tables_def)
  qed
  moreover have "get_str L sys ''timezone'' db' = Some ''UTC''"
    using evolves_readers(1) [OF 4(2) sys3, of "''timezone''"] by (simp add: qos_cols_def db3_def get_same)
  ultimately show ?thesis by blast
qed

lemma system_row_made:
  assumes empty: "\<And>t. t \<noteq> T_Package_Info \<Longrightarrow> idl_rows L t db = []" and "init_system_row L K U name s db = (sys, db')"
  shows "system_started L K U name s sys db' \<and>
    (\<forall>t. t \<notin> insert T_Package_Info early_tables \<longrightarrow> idl_rows L t db' = []) \<and>
    (\<forall>c. c \<notin> early_cols \<longrightarrow> idl_get L sys c db' = VNone)"
proof -
  obtain sys0 db1 where ins: "idl_insert L T_System db = (sys0, db1)" by fastforce
  with assms(2) have [simp]: "sys0 = sys" by (auto simp: init_system_row_def Let_def)
  define m where "m = smap_add L (k_mgmt_name K) name (smap_init L)"
  define db2 where "db2 = idl_set L sys ''mgmt_intf'' (VSmap m) db1"
  define db3a where "db3a = sysd_configure_default_bridge L K sys db2"
  define db3 where "db3 = sysd_configure_default_vrf L K sys db3a"
  have db': "db' = idl_set L sys ''system_mac'' (VStr (ops_ether_ulong_long_to_string U (system_mac_addr s)))
    (idl_set L sys ''management_mac'' (VStr (ops_ether_ulong_long_to_string U (mgmt_mac_addr s))) db3)"
    using assms(2) by (simp add: init_system_row_def ins Let_def db3_def db3a_def db2_def m_def)
  let ?W = "{sys} \<times> early_cols"
  have rows2: "set (idl_rows L t db2) = (if t = T_System then {sys} else {})" if "t \<noteq> T_Package_Info" for t
    using insert_rows [OF ins, of t] empty [OF that] empty [of T_System] by (simp add: db2_def rows_set)
  then have sys2: "sys \<in> set (idl_rows L T_System db2)" by simp
  have dist: "distinct (smap_keys L m)" unfolding m_def by (rule distinct_keys_add) (simp_all add: keys_init)
  have mgmt2: "smap_get L (get_smap L sys ''mgmt_intf'' db2) = [k_mgmt_name K \<mapsto> name]"
    using get_smap_same(1) [OF dist, of sys "''mgmt_intf''" db1] by (simp add: db2_def m_def fun_eq_iff get_add keys_init)
  have b: "evolves L {T_Bridge, T_Port, T_Interface} ({sys} \<times> {''bridges''}) db2 db3a" "has_default_bridge L K sys db3a"
    using bridge_made [OF sys2 db3a_def] by simp_all
  have sys3a: "sys \<in> set (idl_rows L T_System db3a)" using evolves_rows(1) [OF b(1) sys2] .
  have v: "evolves L {T_VRF} ({sys} \<times> {''vrfs''}) db3a db3" "has_default_vrf L K sys db3"
    using vrf_made [OF sys3a db3_def] by simp_all
  have sys3: "sys \<in> set (idl_rows L T_System db3)" using evolves_rows(1) [OF v(1) sys3a] .
  have em: "evolves L {} ({sys} \<times> {''management_mac'', ''system_mac''}) db3 db'"
    unfolding db' by (intro evolves_set) (simp_all add: evolves_refl)
  have e: "evolves L {T_Bridge, T_Port, T_Interface, T_VRF} ({sys} \<times> (early_cols - {''mgmt_intf''})) db2 db'"
    by (intro evolves_trans [OF evolves_trans [OF evolves_mono [OF b(1)] evolves_mono [OF v(1)]] evolves_mono [OF em]])
       (auto simp: early_cols_def)
  have "has_default_bridge L K sys db'"
    by (rule bridge_kept [OF em bridge_kept [OF v(1) b(2) sys3a] sys3]) simp_all
  moreover have "has_default_vrf L K sys db'" by (rule vrf_kept [OF em v(2) sys3]) simp
  moreover have "smap_get L (get_smap L sys ''mgmt_intf'' db') = [k_mgmt_name K \<mapsto> name]"
    using mgmt2 by (simp add: evolves_readers [OF e sys2])
  ultimately have "system_started L K U name s sys db'"
    using evolves_rows(2) [OF e, of T_System] rows2
    by (simp add: system_started_def) (simp add: db' get_other get_same)
  moreover have "idl_rows L t db' = []" if "t \<notin> insert T_Package_Info early_tables" for t
    using that evolves_rows(2) [OF e, of t] rows2 [of t] by (simp add: early_tables_def)
  moreover have "idl_get L sys c db' = VNone" if "c \<notin> early_cols" for c
    using that evolves_get [OF e sys2, of c] insert_get [OF ins, of sys c]
    by (simp add: db2_def get_set_other early_cols_def)
  ultimately show ?thesis by blast
qed

lemma configured_first:
  assumes empty: "\<And>t. t \<noteq> T_Package_Info \<Longrightarrow> idl_rows L t db = []"
    and "mgmt_intf_name mst = Inr name" "wf_config Y"
    and "intf_cmn_info s = Some cmn" "list_all (port_ok K) (interfaces s)" "distinct (map yp_name (interfaces s))"
  shows "\<exists>sys sub db'. sysd_initial_configure L K U Y dir release (True, True, True) mst [s] db = Inr db' \<and>
    configured L K U dir name (daemons mst) s cmn sys sub db'"
proof -
  obtain sys db5 where row: "init_system_row L K U name s db = (sys, db5)" by fastforce
  from system_row_made [OF empty this] have started: "system_started L K U name s sys db5"
    and none: "\<And>t. t \<notin> insert T_Package_Info early_tables \<Longrightarrow> idl_rows L t db5 = []"
    and blank: "\<And>c. c \<notin> early_cols \<Longrightarrow> idl_get L sys c db5 = VNone" by blast+
  have sys5: "sys \<in> set (idl_rows L T_System db5)" using started by (simp add: system_started_def)
  obtain sub db6 and prs :: "(yaml_port \<times> row) list" where sub: "sysd_initial_subsystem_add L K U dir True s db5 = Inr (sub, db6)"
    "describes_subsystem L U dir s cmn sub db6" "\<forall>t. sub \<notin> set (idl_rows L t db5)"
    "\<forall>t. set (idl_rows L t db6) = set (idl_rows L t db5) \<union> (if t = T_Subsystem then {sub} else {}) \<union>
           (if t = T_Interface then snd ` set prs else {})"
    "\<forall>t x c. x \<in> set (idl_rows L t db5) \<longrightarrow> idl_get L x c db6 = idl_get L x c db5"
    using subsystem_added [OF assms(4-6), of U dir db5] by (elim exE conjE) (rule that; assumption)
  define db7 where "db7 = idl_set L sys ''subsystems'' (VRefs [sub]) db6"
  have e6: "evolves L {T_Subsystem, T_Interface} ({sys} \<times> {''subsystems''}) db5 db6"
    using sub(5) row_ops_subsystem [OF sub(1)] by (auto simp: evolves_def)
  have e67: "evolves L {T_Subsystem, T_Interface} ({sys} \<times> {''subsystems''}) db6 db7"
    unfolding db7_def by (intro evolves_set evolves_refl) simp
  note e7 = evolves_trans [OF e6 e67]
  have sys7: "sys \<in> set (idl_rows L T_System db7)" using evolves_rows(1) [OF e7 sys5] .
  have neq: "sub \<noteq> sys" using sub(3) sys5 by blast
  have in6: "sub \<in> set (idl_rows L T_Subsystem db6)" using sub(4) by simp
  have sub7: "set (idl_rows L T_Subsystem db7) = {sub}"
    using sub(4) none [of T_Subsystem] by (simp add: db7_def rows_set early_tables_def)
  have none7: "idl_rows L t db7 = []" if "t \<in> insert T_Daemon qos_tables" for t
  proof -
    have "t \<notin> insert T_Package_Info early_tables \<union> {T_Subsystem, T_Interface}"
      using that by (auto simp: qos_tables_def early_tables_def)
    then show ?thesis using evolves_rows(2) [OF e7, of t] none [of t] by simp
  qed
  have blank7: "idl_get L sys c db7 = VNone" if "c \<in> {''other_info'', ''daemons'', ''cur_hw'', ''next_hw''}" for c
    using that evolves_get [OF e7 sys5, of c] blank [of c] by (auto simp: early_cols_def)
  obtain db' where fin: "init_daemons_and_rest L Y release True (daemons mst) sys db7 = Inr db'"
    "evolves L (insert T_Daemon qos_tables) ({sys} \<times> insert ''daemons'' late_cols) db7 db'"
    "daemons_written L (daemons mst) sys db'" "get_str L sys ''timezone'' db' = Some ''UTC''"
    using daemons_and_rest [OF assms(3) sys7, of release "daemons mst"] none7 blank7 by auto
  have "sysd_initial_configure L K U Y dir release (True, True, True) mst [s] db = Inr db'"
    by (simp add: sysd_initial_configure_def assms(2) row sub(1) db7_def [symmetric] fin(1))
  moreover have "system_started L K U name s sys db'"
    by (rule started_kept [OF fin(2) started_kept [OF e7 started]])
       (auto simp: early_cols_def late_cols_def qos_cols_def qos_tables_def)
  moreover have "get_int L sys ''cur_hw'' db' = 0" "get_int L sys ''next_hw'' db' = 0"
    using evolves_readers(2) [OF fin(2) sys7] blank7 by (simp_all add: late_cols_def qos_cols_def get_int_def)
  moreover have "set (get_refs L sys ''subsystems'' db') = {sub}"
    using evolves_readers(4) [OF fin(2) sys7, of "''subsystems''"] by (simp add: late_cols_def qos_cols_def db7_def get_refs_same)
  moreover have "describes_subsystem L U dir s cmn sub db'"
    by (rule subsystem_kept [OF fin(2) subsystem_kept [OF e67 sub(2) in6 neq], of T_Subsystem]) (simp_all add: sub7 neq)
  moreover have "set (idl_rows L T_Subsystem db') = {sub}"
    using evolves_rows(2) [OF fin(2), of T_Subsystem] sub7 by (simp add: qos_tables_def)
  ultimately show ?thesis using fin(3,4) unfolding configured_def by blast
qed

end

text \<open>
  Claim C3. On a database without rows, with a readable manifest that names the management interface,
  QoS and ACL files that fit and a subsystem whose ports fit, the start-up transaction does not fail,
  and at its end there is one System row and one Subsystem row: the System row has the management
  interface, both MAC addresses, the time zone UTC, the default bridge with its port and internal
  interface, the default VRF in table 0, the subsystem, and the daemons; the Daemon table is the
  daemon table of the manifest, row by row.
\<close>

theorem initial_configuration:
  assumes "ovs_idl L" "\<And>t. idl_rows L t db = []"
    and "mgmt_intf_name mst = Inr name" "wf_config Y"
    and "intf_cmn_info s = Some cmn" "list_all (port_ok K) (interfaces s)" "distinct (map yp_name (interfaces s))"
  shows "\<exists>sys sub db'. sysd_initial_configure L K U Y dir release (True, True, True) mst [s] db = Inr db' \<and>
    configured L K U dir name (daemons mst) s cmn sys sub db'"
  using ovs_idl.configured_first [OF assms] .

lemma wf_config_ex_yaml: "wf_config ex_yaml"
  by (simp add: wf_config_def ex_yaml_def wf_map_entry_def int32_def list_all_iff numeral_2_eq_2)

definition ex_mst :: manifest_state where
  "ex_mst = manifest_init\<lparr>daemons := [\<lparr>d_name = ''ops-sysd'', d_is_hw_handler = False, d_cur_hw = 1\<rparr>,
      \<lparr>d_name = ''ops-fand'', d_is_hw_handler = True, d_cur_hw = 0\<rparr>],
     mgmt_intf := Some (''eth0'' @ [CHR 0x00]), is_mgmt_intf_present := True, num_hw_daemons := 1\<rparr>"

theorem initial_configuration_witness:
  "\<exists>sys sub db'. sysd_initial_configure mem_lib ex_names ex_utils ex_yaml ''/hw'' None (True, True, True) ex_mst
      [subsystem_zero\<lparr>intf_cmn_info := Some ex_port_info, interfaces := [ex_port ''49'' [] None]\<rparr>] mem_init = Inr db' \<and>
    configured mem_lib ex_names ex_utils ''/hw'' ''eth0'' (daemons ex_mst)
      (subsystem_zero\<lparr>intf_cmn_info := Some ex_port_info, interfaces := [ex_port ''49'' [] None]\<rparr>) ex_port_info sys sub db'"
proof (rule initial_configuration [OF mem_db.ovs_idl_axioms _ _ wf_config_ex_yaml])
  show "mgmt_intf_name ex_mst = Inr ''eth0''" by (simp add: mgmt_intf_name_def ex_mst_def cstr_def)
qed (simp_all add: mem_init_def port_ok_def wf_port_keys_def ex_names_def ex_port_def SYSD_MAX_SPLIT_PORTS_def)

text \<open>The Daemon table listed in the sense of the hardware check.\<close>

lemma daemons_written_lists:
  assumes "daemons_written L ds sys db" "distinct (map d_name ds)"
  shows "lists_daemons L ds db"
proof -
  from assms(1) obtain rs where rs: "length rs = length ds" "set (idl_rows L T_Daemon db) = set rs"
    "\<forall>i < length ds. row_name L db (rs ! i) = d_name (ds ! i) \<and> row_is_hw L db (rs ! i) = d_is_hw_handler (ds ! i)"
    unfolding daemons_written_def by blast
  have names: "map (row_name L db) rs = map d_name ds" using rs by (intro nth_equalityI) simp_all
  then have "distinct (map (row_name L db) rs)" using assms(2) by simp
  moreover have "row_name L db ` set rs = d_name ` set ds" using names by (metis list.set_map)
  moreover have "\<exists>r \<in> set rs. row_name L db r = d_name d \<and> row_is_hw L db r = d_is_hw_handler d" if "d \<in> set ds" for d
    using that rs by (metis in_set_conv_nth nth_mem)
  ultimately show ?thesis unfolding lists_daemons_def using rs(2) by (auto simp: distinct_map)
qed

text \<open>
  A manifest without a management interface is accepted at start-up, and the transaction
  that follows reads the interface's name through a null pointer.
\<close>

lemma missing_mgmt_intf_faults:
  "sysd_read_manifest_file env (Some (JObject [])) manifest_init = Inr (0, manifest_init) \<and>
   sysd_initial_configure L K U Y dir release allocs manifest_init subs db = Inl Null_Deref"
proof -
  have "sysd_set_num_hw_daemons manifest_init = manifest_init"
    by (simp add: sysd_set_num_hw_daemons_def manifest_init_def)
  then show ?thesis
    by (simp add: sysd_read_manifest_file_def sysd_initial_configure_def mgmt_intf_name_def manifest_init_def
          split: prod.split)
qed

text \<open>
  The time zone update removes the link and makes one to the zone's file below the POSIX
  directory, whatever zone the System row names, and does nothing without a System row; a name of
  more than 173 characters is written past the 200-byte buffer.
\<close>

lemma timezone_link:
  assumes "idl_rows L T_System db = sys # rest" "get_str L sys ''timezone'' db = Some tz"
  shows "sysd_handle_timezone_update L db =
    (if length tz \<le> 173
     then Inr [Tz_Unlink ''/etc/localtime'', Tz_Symlink (''/usr/share/zoneinfo/posix/'' @ tz) ''/etc/localtime'']
     else Inl Out_Of_Bounds)"
  using assms by (simp add: sysd_handle_timezone_update_def posix_path_def)

end
