(* ===== verification/Simulation.thy ===== *)
theory Simulation
  imports Prelude
begin

text \<open>
  Labelled steps one after another, and the interface between a system and the abstract machine it is
  compared with: an invariant that every step keeps, and a view under which every step is one of the
  machine or nothing. Inside it, the invariant and the view of every reachable state.
\<close>

inductive lsteps :: "('s \<Rightarrow> 'l \<Rightarrow> 's \<Rightarrow> bool) \<Rightarrow> 's \<Rightarrow> 'l list \<Rightarrow> 's \<Rightarrow> bool" for step s where
  lsteps_Nil: "lsteps step s [] s"
| lsteps_snoc: "lsteps step s ls s1 \<Longrightarrow> step s1 l s2 \<Longrightarrow> lsteps step s (ls @ [l]) s2"

definition lreach :: "('s \<Rightarrow> bool) \<Rightarrow> ('s \<Rightarrow> 'l \<Rightarrow> 's \<Rightarrow> bool) \<Rightarrow> 's \<Rightarrow> bool" where
  "lreach init step s \<longleftrightarrow> (\<exists>s0 ls. init s0 \<and> lsteps step s0 ls s)"

lemma lreach_init: "init s \<Longrightarrow> lreach init step s"
  unfolding lreach_def by (blast intro: lsteps_Nil)

lemma lreach_step: "lreach init step s \<Longrightarrow> step s l s' \<Longrightarrow> lreach init step s'"
  unfolding lreach_def by (blast intro: lsteps_snoc)

lemma lreach_induct [consumes 1, case_names init step]:
  assumes "lreach init step s" and "\<And>s. init s \<Longrightarrow> P s"
    and "\<And>s l s'. lreach init step s \<Longrightarrow> P s \<Longrightarrow> step s l s' \<Longrightarrow> P s'"
  shows "P s"
proof -
  obtain s0 ls where "init s0" "lsteps step s0 ls s" using assms(1) by (auto simp: lreach_def)
  from this(2) have "lreach init step s \<and> P s"
  proof (induction rule: lsteps.induct)
    case lsteps_Nil
    show ?case using assms(2) \<open>init s0\<close> by (simp add: lreach_init)
  next
    case (lsteps_snoc ls s1 l s2)
    then show ?case using assms(3) lreach_step by metis
  qed
  then show ?thesis ..
qed

text \<open>What holds at the start and along the steps allowed, holds at the end.\<close>

lemma lsteps_keep:
  assumes "lsteps step s ls s'" "P s" "\<forall>l \<in> set ls. Q l" and "\<And>s l s'. P s \<Longrightarrow> Q l \<Longrightarrow> step s l s' \<Longrightarrow> P s'"
  shows "P s'"
  using assms(1,3)
proof (induction rule: lsteps.induct)
  case (lsteps_snoc ls s1 l s2)
  then have "P s1" "Q l" by simp_all
  then show ?case by (rule assms(4) [OF _ _ lsteps_snoc.hyps(2)])
qed (rule assms(2))

locale simulation =
  fixes init :: "'s \<Rightarrow> bool" and step :: "'s \<Rightarrow> 'l \<Rightarrow> 's \<Rightarrow> bool" and inv :: "'s \<Rightarrow> bool"
    and view :: "'s \<Rightarrow> 'a" and machine :: "'a \<Rightarrow> 'a \<Rightarrow> bool" and start :: 'a
  assumes inv_init: "init s \<Longrightarrow> inv s"
    and view_init: "init s \<Longrightarrow> view s = start"
    and inv_step: "inv s \<Longrightarrow> step s l s' \<Longrightarrow> inv s'"
    and view_step: "inv s \<Longrightarrow> step s l s' \<Longrightarrow> view s' = view s \<or> machine (view s) (view s')"
begin

lemma inv_reachable: "lreach init step s \<Longrightarrow> inv s"
  by (induction rule: lreach_induct) (blast intro: inv_init inv_step)+

lemma step_simulated: "lreach init step s \<Longrightarrow> step s l s' \<Longrightarrow> view s' = view s \<or> machine (view s) (view s')"
  by (rule view_step [OF inv_reachable])

lemma view_reachable: "lreach init step s \<Longrightarrow> machine\<^sup>*\<^sup>* start (view s)"
proof (induction rule: lreach_induct)
  case (init s)
  then show ?case by (simp add: view_init)
next
  case (step s l s')
  then show ?case using step_simulated by (metis rtranclp.rtrancl_into_rtrancl)
qed

end

end
