(* ===== verification/Sysd_Run.thy ===== *)
theory Sysd_Run
  imports Ovsdb_Init Pkg_Info Simulation
begin

text \<open>
  The daemon's main loop: \<open>sysd_run\<close> (\<open>src/sysd_ovsdb_if.c\<close>) and the test at the end of the loop of
  \<open>main\<close> (\<open>src/sysd.c\<close>). One invocation is a function of the daemon's state and of what the outside
  gives it: the replica after \<open>ovsdb_idl_run\<close>, the lock, the files, the outcome of each commit. The
  invocations form a transition system whose traces carry the actions taken; invariants of the
  traces say when the system is configured and when the hardware handshake completes.
\<close>

section \<open>One invocation\<close>

text \<open>What start-up has collected before the loop begins.\<close>

record sysd_conf =
  c_names :: idl_names
  c_utils :: ops_utils
  c_yaml :: yaml_lib
  c_dir :: string
  c_mst :: manifest_state
  c_subs :: "subsystem list"

record 'db run_state =
  replica :: 'db
  idl_seqno :: u32
  hw_init_done_set :: bool

text \<open>
  \<open>e_outside d d'\<close> is what the library makes of column writes issued without a transaction that
  would turn the replica \<open>d\<close> into \<open>d'\<close>; \<open>e_after_pkgs\<close> is the replica after the transactions of the
  package table.
\<close>

record 'db run_env =
  e_db :: 'db
  e_seqno :: u32
  e_contended :: bool
  e_has_lock :: bool
  e_release :: "string option"
  e_allocs :: "bool \<times> bool \<times> bool"
  e_init_committed :: bool
  e_hw_committed :: bool
  e_outside :: "'db \<Rightarrow> 'db \<Rightarrow> fault + 'db"
  e_insert_ok :: "nat \<Rightarrow> bool"
  e_parser_ok :: bool
  e_version_file :: "yaml_event list option"
  e_after_pkgs :: "'db \<Rightarrow> 'db"

datatype run_fault = Run_Fault fault | Run_Misuse pkg_misuse

datatype run_event =
    Configure bool | Hw_Check bool | Packages "pkg_call list" | Timezone "tz_call list" | Startup_Complete

definition lift_fault :: "fault + 'a \<Rightarrow> run_fault + 'a" where
  "lift_fault x = (case x of Inl f \<Rightarrow> Inl (Run_Fault f) | Inr a \<Rightarrow> Inr a)"

definition lift_misuse :: "pkg_misuse + 'a \<Rightarrow> run_fault + 'a" where
  "lift_misuse x = (case x of Inl f \<Rightarrow> Inl (Run_Misuse f) | Inr a \<Rightarrow> Inr a)"

text \<open>
  The branch on the System row: configure, or refresh the software columns (without a transaction)
  and look at the hardware daemons while the handshake is open.
\<close>

definition run_system ::
  "('db, 'm) ovs_lib \<Rightarrow> sysd_conf \<Rightarrow> 'db run_env \<Rightarrow> 'db run_state \<Rightarrow> fault + ('db run_state \<times> run_event list)" where
  "run_system L C env st =
     (case idl_rows L T_System (replica st) of
        [] \<Rightarrow> bindE (sysd_initial_configure L (c_names C) (c_utils C) (c_yaml C) (c_dir C) (e_release env)
                      (e_allocs env) (c_mst C) (c_subs C) (replica st))
               (\<lambda>db'. Inr (if e_init_committed env then st\<lparr>replica := db'\<rparr> else st, [Configure (e_init_committed env)]))
      | cfg # _ \<Rightarrow>
          bindE (e_outside env (replica st) (sysd_update_sw_info L (e_release env) cfg (replica st))) (\<lambda>db1.
            if hw_init_done_set st then Inr (st\<lparr>replica := db1\<rparr>, [])
            else let (flag, db2) = sysd_chk_if_hw_daemons_done L (daemons (c_mst C)) (num_hw_daemons (c_mst C))
                                     (e_hw_committed env) (False, db1)
                 in Inr (st\<lparr>replica := db2, hw_init_done_set := flag\<rparr>, [Hw_Check flag])))"

definition run_packages ::
  "('db, 'm) ovs_lib \<Rightarrow> 'db run_env \<Rightarrow> 'db run_state \<Rightarrow> pkg_misuse + ('db run_state \<times> run_event list)" where
  "run_packages L env st =
     (if idl_rows L T_Package_Info (replica st) \<noteq> [] then Inr (st, [])
      else bindE (sysd_add_package_info (e_insert_ok env) (e_parser_ok env) (e_version_file env))
             (\<lambda>cs. Inr (st\<lparr>replica := e_after_pkgs env (replica st)\<rparr>, [Packages cs])))"

definition sysd_run ::
  "('db, 'm) ovs_lib \<Rightarrow> sysd_conf \<Rightarrow> 'db run_env \<Rightarrow> 'db run_state \<Rightarrow> run_fault + ('db run_state \<times> run_event list)" where
  "sysd_run L C env st =
     (let st0 = st\<lparr>replica := e_db env\<rparr>
      in if e_contended env then Inr (st0, [])
         else if \<not> e_has_lock env then Inr (st0, [])
         else if e_seqno env \<noteq> idl_seqno st
         then bindE (lift_fault (run_system L C env (st0\<lparr>idl_seqno := e_seqno env\<rparr>))) (\<lambda>(st1, evs1).
              bindE (lift_misuse (run_packages L env st1)) (\<lambda>(st2, evs2).
              bindE (lift_fault (sysd_handle_timezone_update L (replica st2))) (\<lambda>tz.
                Inr (st2, evs1 @ evs2 @ [Timezone tz, Startup_Complete]))))
         else Inr (st0, [Startup_Complete]))"

text \<open>The end of a round of \<open>main\<close>: \<open>seqno\<close> is the replica's sequence number by then.\<close>

datatype wait_action = Go_On | Immediate_Wake | Poll_Block

definition main_wait :: "'db run_state \<Rightarrow> u32 \<Rightarrow> bool \<Rightarrow> wait_action" where
  "main_wait st seqno exiting =
     (if idl_seqno st \<noteq> seqno then Go_On else if exiting then Immediate_Wake else Poll_Block)"

section \<open>Traces\<close>

definition run_step :: "('db, 'm) ovs_lib \<Rightarrow> sysd_conf \<Rightarrow> 'db run_state \<Rightarrow> 'db run_env \<times> run_event list \<Rightarrow> 'db run_state \<Rightarrow> bool" where
  "run_step L C st l st' \<longleftrightarrow> sysd_run L C (fst l) st = Inr (st', snd l)"

abbreviation runs ::
  "('db, 'm) ovs_lib \<Rightarrow> sysd_conf \<Rightarrow> 'db run_state \<Rightarrow> ('db run_env \<times> run_event list) list \<Rightarrow> 'db run_state \<Rightarrow> bool" where
  "runs L C \<equiv> lsteps (run_step L C)"

lemma runs_one: "sysd_run L C env st = Inr (st', evs) \<Longrightarrow> runs L C st [(env, evs)] st'"
  using lsteps_snoc [OF lsteps_Nil, of "run_step L C" st "(env, evs)" st'] by (simp add: run_step_def)

lemma runs_induct [consumes 1, case_names runs_Nil runs_step]:
  assumes "runs L C st tr st'" and "P [] st"
    and "\<And>tr st1 env st2 evs. P tr st1 \<Longrightarrow> sysd_run L C env st1 = Inr (st2, evs) \<Longrightarrow> P (tr @ [(env, evs)]) st2"
  shows "P tr st'"
  using assms(1)
proof (induction rule: lsteps.induct)
  case (lsteps_snoc ls s1 l s2)
  then show ?case using assms(3) [of ls s1 "fst l" s2 "snd l"] by (simp add: run_step_def)
qed (rule assms(2))

lemma lift_simps [simp]:
  "lift_fault (Inr a) = Inr a" "lift_fault (Inl f) = Inl (Run_Fault f)"
  "lift_misuse (Inr b) = Inr b" "lift_misuse (Inl g) = Inl (Run_Misuse g)"
  by (simp_all add: lift_fault_def lift_misuse_def)

lemma lift_eq_Inr [simp]:
  "lift_fault x = Inr a \<longleftrightarrow> x = Inr a" "lift_misuse y = Inr b \<longleftrightarrow> y = Inr b"
  by (cases x; simp) (cases y; simp)

text \<open>An invocation that does something, taken apart.\<close>

definition active :: "'db run_env \<Rightarrow> 'db run_state \<Rightarrow> bool" where
  "active env st \<longleftrightarrow> \<not> e_contended env \<and> e_has_lock env \<and> e_seqno env \<noteq> idl_seqno st"

abbreviation enter :: "'db run_env \<Rightarrow> 'db run_state \<Rightarrow> 'db run_state" where
  "enter env st \<equiv> st\<lparr>replica := e_db env, idl_seqno := e_seqno env\<rparr>"

lemma run_idle:
  "\<not> active env st \<Longrightarrow> sysd_run L C env st =
     Inr (st\<lparr>replica := e_db env\<rparr>, if e_contended env \<or> \<not> e_has_lock env then [] else [Startup_Complete])"
  by (auto simp: sysd_run_def active_def Let_def)

lemma run_active:
  assumes "active env st"
  shows "sysd_run L C env st = Inr (st', evs) \<longleftrightarrow>
    (\<exists>st1 evs1 evs2 tz. run_system L C env (enter env st) = Inr (st1, evs1) \<and> run_packages L env st1 = Inr (st', evs2) \<and>
       sysd_handle_timezone_update L (replica st') = Inr tz \<and> evs = evs1 @ evs2 @ [Timezone tz, Startup_Complete])"
  using assms by (auto simp: sysd_run_def active_def Let_def bindE_eq_Inr)

lemma run_packages_keeps:
  "run_packages L env st = Inr (st', evs) \<Longrightarrow>
   hw_init_done_set st' = hw_init_done_set st \<and> idl_seqno st' = idl_seqno st \<and> set evs \<subseteq> range Packages"
  by (auto simp: run_packages_def bindE_eq_Inr split: if_splits)

definition hw_events :: "run_event list \<Rightarrow> bool list" where
  "hw_events evs = List.map_filter (\<lambda>e. case e of Hw_Check b \<Rightarrow> Some b | _ \<Rightarrow> None) evs"

lemma hw_events_simps [simp]:
  "hw_events [] = []" "hw_events (evs @ evs') = hw_events evs @ hw_events evs'"
  "hw_events (Hw_Check b # evs) = b # hw_events evs" "hw_events (Configure c # evs) = hw_events evs"
  "hw_events (Packages cs # evs) = hw_events evs" "hw_events (Timezone tz # evs) = hw_events evs"
  "hw_events (Startup_Complete # evs) = hw_events evs"
  by (simp_all add: hw_events_def map_filter_append map_filter_simps)

lemma run_packages_hw: "run_packages L env st = Inr (st', evs) \<Longrightarrow> hw_events evs = []"
  by (auto simp: run_packages_def bindE_eq_Inr split: if_splits)

text \<open>What one invocation does to the flag.\<close>

lemma run_system_flag:
  assumes "run_system L C env st = Inr (st', evs)"
  shows "hw_events evs = (if hw_init_done_set st \<or> idl_rows L T_System (replica st) = [] then [] else [hw_init_done_set st'])"
    and "hw_init_done_set st \<Longrightarrow> hw_init_done_set st'"
    and "idl_rows L T_System (replica st) = [] \<Longrightarrow> hw_init_done_set st' = hw_init_done_set st"
  using assms by (auto simp: run_system_def bindE_eq_Inr split: list.splits if_splits prod.splits)

lemma run_flag:
  assumes "sysd_run L C env st = Inr (st', evs)"
  shows "hw_events evs = (if active env st \<and> \<not> hw_init_done_set st \<and> idl_rows L T_System (e_db env) \<noteq> []
                          then [hw_init_done_set st'] else [])"
    and "hw_init_done_set st \<Longrightarrow> hw_init_done_set st'"
    and "hw_events evs = [] \<Longrightarrow> hw_init_done_set st' = hw_init_done_set st"
proof -
  have "hw_events evs = (if active env st \<and> \<not> hw_init_done_set st \<and> idl_rows L T_System (e_db env) \<noteq> []
                          then [hw_init_done_set st'] else []) \<and>
        (hw_init_done_set st \<longrightarrow> hw_init_done_set st') \<and> (hw_events evs = [] \<longrightarrow> hw_init_done_set st' = hw_init_done_set st)"
  proof (cases "active env st")
    case True
    with assms obtain st1 evs1 evs2 tz where 1: "run_system L C env (enter env st) = Inr (st1, evs1)"
      and 2: "run_packages L env st1 = Inr (st', evs2)" and evs: "evs = evs1 @ evs2 @ [Timezone tz, Startup_Complete]"
      by (auto simp: run_active)
    show ?thesis
      using run_system_flag [OF 1] run_packages_keeps [OF 2] run_packages_hw [OF 2] True
      by (auto simp: evs split: if_splits)
  next
    case False
    with assms show ?thesis by (auto simp: run_idle)
  qed
  then show "hw_events evs = (if active env st \<and> \<not> hw_init_done_set st \<and> idl_rows L T_System (e_db env) \<noteq> []
                          then [hw_init_done_set st'] else [])"
    and "hw_init_done_set st \<Longrightarrow> hw_init_done_set st'"
    and "hw_events evs = [] \<Longrightarrow> hw_init_done_set st' = hw_init_done_set st" by blast+
qed

section \<open>The handshake along a trace\<close>

abbreviation trace_events :: "('db run_env \<times> run_event list) list \<Rightarrow> run_event list" where
  "trace_events tr \<equiv> concat (map snd tr)"

lemma runs_flag_stays:
  "runs L C st tr st' \<Longrightarrow> hw_init_done_set st \<Longrightarrow> hw_init_done_set st' \<and> hw_events (trace_events tr) = []"
proof (induction rule: runs_induct)
  case (runs_step tr st1 env st2 evs)
  then show ?case using run_flag [OF runs_step(2)] by simp
qed simp

lemma runs_hw_events:
  "runs L C st tr st' \<Longrightarrow> \<not> hw_init_done_set st \<Longrightarrow>
   \<exists>k. hw_events (trace_events tr) = replicate k False @ (if hw_init_done_set st' then [True] else [])"
proof (induction rule: runs_induct)
  case runs_Nil
  then show ?case by (intro exI [of _ 0]) simp
next
  case (runs_step tr st1 env st2 evs)
  then obtain k where k: "hw_events (trace_events tr) = replicate k False @ (if hw_init_done_set st1 then [True] else [])"
    by blast
  note flag = run_flag [OF runs_step(2)]
  show ?case
  proof (cases "hw_init_done_set st1 \<or> hw_events evs = []")
    case True
    then have "hw_events evs = []" using flag(1) by (auto split: if_splits)
    with flag(3) k show ?thesis by (intro exI [of _ k]) simp
  next
    case False
    then have evs: "hw_events evs = [hw_init_done_set st2]" using flag(1) by (simp split: if_splits)
    show ?thesis
    proof (cases "hw_init_done_set st2")
      case True
      with evs k False show ?thesis by (intro exI [of _ k]) simp
    next
      case False
      with evs k \<open>\<not> (hw_init_done_set st1 \<or> hw_events evs = [])\<close> show ?thesis
        by (intro exI [of _ "Suc k"]) (simp add: replicate_append_same)
    qed
  qed
qed

text \<open>
  Claim C6. Along any run of the daemon the hardware checks fail a number of times, then succeed at
  most once, and none follows: the flag is set exactly when one has succeeded.
\<close>

theorem handshake_once:
  assumes "runs L C st tr st'" "\<not> hw_init_done_set st"
  shows "\<exists>k. hw_events (trace_events tr) = replicate k False @ (if hw_init_done_set st' then [True] else [])"
  using runs_hw_events [OF assms] .

text \<open>
  Claim C14. One invocation sets the flag exactly when the lock is held, the replica is new and has a
  System row, the release information could be written, and the hardware daemons listed in the
  manifest are ready in it, or there are none.
\<close>

theorem handshake_step:
  assumes "sysd_run L C env st = Inr (st', evs)" "\<not> hw_init_done_set st"
  shows "hw_init_done_set st' \<longleftrightarrow> active env st \<and> (\<exists>cfg rest db1. idl_rows L T_System (e_db env) = cfg # rest \<and>
    e_outside env (e_db env) (sysd_update_sw_info L (e_release env) cfg (e_db env)) = Inr db1 \<and>
    (num_hw_daemons (c_mst C) \<le> 0 \<or> hw_ready L (daemons (c_mst C)) db1))"
proof (cases "active env st")
  case True
  with assms(1) obtain st1 evs1 evs2 tz where 1: "run_system L C env (enter env st) = Inr (st1, evs1)"
    and 2: "run_packages L env st1 = Inr (st', evs2)"
    by (auto simp: run_active)
  show ?thesis
  proof (cases "idl_rows L T_System (e_db env)")
    case Nil
    with 1 run_system_flag(3) [OF 1] run_packages_keeps [OF 2] assms(2) show ?thesis by simp
  next
    case (Cons cfg rest)
    with 1 assms(2) obtain db1 where db1: "e_outside env (e_db env) (sysd_update_sw_info L (e_release env) cfg (e_db env)) = Inr db1"
      and flag: "hw_init_done_set st1 = fst (sysd_chk_if_hw_daemons_done L (daemons (c_mst C)) (num_hw_daemons (c_mst C))
                          (e_hw_committed env) (False, db1))"
      by (auto simp: run_system_def bindE_eq_Inr split_beta Let_def)
    have "hw_init_done_set st1 \<longleftrightarrow> num_hw_daemons (c_mst C) \<le> 0 \<or> hw_ready L (daemons (c_mst C)) db1"
      by (simp add: flag check_done_cases sysd_set_hw_done_def Let_def)
    with True Cons db1 run_packages_keeps [OF 2] show ?thesis by simp
  qed
next
  case False
  with assms show ?thesis by (auto simp: run_idle)
qed

text \<open>
  Claim C34. When the transaction that completes the handshake fails, the flag is set all the same,
  the columns are not written, and no later invocation tries again.
\<close>

theorem handshake_commit_lost:
  assumes "sysd_run L C env st = Inr (st', evs)" "Hw_Check True \<in> set evs" "\<not> e_hw_committed env"
  shows "hw_init_done_set st' \<and>
    (\<exists>cfg db1. e_outside env (e_db env) (sysd_update_sw_info L (e_release env) cfg (e_db env)) = Inr db1 \<and>
       (replica st' = db1 \<or> replica st' = e_after_pkgs env db1)) \<and>
    (\<forall>tr st''. runs L C st' tr st'' \<longrightarrow> hw_events (trace_events tr) = [])"
proof -
  have act: "active env st" using assms(1,2) by (cases "active env st") (auto simp: run_idle split: if_splits)
  with assms(1) obtain st1 evs1 evs2 tz where 1: "run_system L C env (enter env st) = Inr (st1, evs1)"
    and 2: "run_packages L env st1 = Inr (st', evs2)" and evs: "evs = evs1 @ evs2 @ [Timezone tz, Startup_Complete]"
    by (auto simp: run_active)
  have mem: "Hw_Check True \<in> set evs1" using assms(2) run_packages_keeps [OF 2] by (auto simp: evs)
  obtain cfg rest where rows: "idl_rows L T_System (e_db env) = cfg # rest"
    using 1 mem by (auto simp: run_system_def bindE_eq_Inr neq_Nil_conv split: list.splits)
  with 1 mem have flag: "hw_init_done_set st1" and "\<not> hw_init_done_set st"
    by (auto simp: run_system_def bindE_eq_Inr split: prod.splits if_splits)
  with 1 rows obtain db1 where "e_outside env (e_db env) (sysd_update_sw_info L (e_release env) cfg (e_db env)) = Inr db1"
    "replica st1 = db1"
    using assms(3)
    by (auto simp: run_system_def bindE_eq_Inr check_done_cases sysd_set_hw_done_def Let_def split: prod.splits if_splits)
  moreover have "replica st' = replica st1 \<or> replica st' = e_after_pkgs env (replica st1)"
    using 2 by (auto simp: run_packages_def bindE_eq_Inr split: if_splits)
  moreover have "hw_init_done_set st'" using flag run_packages_keeps [OF 2] by simp
  ultimately show ?thesis using runs_flag_stays by blast
qed

text \<open>
  Claim C33. Without the lock an invocation takes over the replica and nothing else: however many
  rounds pass, the sequence number the daemon remembers stays the old one and start-up is not
  reported. When the replica has a new number, every round of \<open>main\<close> goes on without blocking.
\<close>

theorem no_lock_no_wait:
  assumes "runs L C st tr st'" "\<forall>(env, evs) \<in> set tr. e_contended env \<or> \<not> e_has_lock env"
  shows "trace_events tr = [] \<and> idl_seqno st' = idl_seqno st \<and> hw_init_done_set st' = hw_init_done_set st \<and>
    (\<forall>n exiting. n \<noteq> idl_seqno st \<longrightarrow> main_wait st' n exiting = Go_On)"
  using assms
proof (induction rule: runs_induct)
  case (runs_step tr st1 env st2 evs)
  then have "\<not> active env st1" by (auto simp: active_def)
  with runs_step(2) runs_step.prems have "evs = [] \<and> st2 = st1\<lparr>replica := e_db env\<rparr>" by (auto simp: run_idle)
  with runs_step show ?case by (simp add: main_wait_def)
qed (simp add: main_wait_def)

section \<open>Configuring once\<close>

lemma row_ops_add_subsystems:
  "add_subsystems L K U dir ok ss db = Inr (rs, db') \<Longrightarrow> row_ops L {T_Subsystem, T_Interface} db db'"
proof (induction ss arbitrary: db rs)
  case (Cons s ss)
  then obtain r db1 qs where one: "sysd_initial_subsystem_add L K U dir ok s db = Inr (r, db1)"
    and rest: "add_subsystems L K U dir ok ss db1 = Inr (qs, db')"
    by (auto simp: bindE_eq_Inr)
  show ?case using row_ops_trans [OF Cons.IH [OF rest] row_ops_subsystem [OF one]] .
qed (simp add: row_ops_refl)

lemma row_ops_qos_acl: "init_qos_acl L Y sys db = Inr db' \<Longrightarrow> row_ops L UNIV db db'"
proof -
  assume "init_qos_acl L Y sys db = Inr db'"
  then obtain db1 db2 db3 where d: "qos_init_dscp_map L Y sys (qos_init_trust L Y sys db) = Inr db1"
    and c: "qos_init_cos_map L Y sys db1 = Inr db2"
    and s: "qos_init_schedule_profile L Y sys (qos_init_queue_profile L Y sys db2) = Inr db3"
    and a: "acl_init_limits L Y sys db3 = Inr db'"
    by (auto simp: init_qos_acl_def bindE_eq_Inr)
  note ops = row_ops_mono [OF row_ops_dscp [OF d], of UNIV] row_ops_mono [OF row_ops_cos [OF c], of UNIV]
    row_ops_mono [OF row_ops_queue [of L db2 Y sys], of UNIV] row_ops_mono [OF row_ops_sched [OF s], of UNIV]
  show ?thesis
    using row_ops_trans [OF row_ops_acl [OF a] row_ops_trans [OF ops(4) row_ops_trans [OF ops(3)
          row_ops_trans [OF ops(2) row_ops_trans [OF ops(1) row_ops_trust]]]]] by simp
qed

context ovs_idl
begin

lemma initial_configure_grows:
  assumes "sysd_initial_configure L K U Y dir release allocs mst subs db = Inr db'"
  shows "idl_rows L T_System db' \<noteq> []"
proof -
  obtain subs_ok intfs_ok dmns_ok where al: "allocs = (subs_ok, intfs_ok, dmns_ok)" by (cases allocs)
  with assms obtain name s ss where name: "mgmt_intf_name mst = Inr name" and subs: "subs = s # ss"
    by (cases subs) (auto simp: sysd_initial_configure_def bindE_eq_Inr)
  obtain sys db5 where row: "init_system_row L K U name s db = (sys, db5)" by fastforce
  have sys5: "sys \<in> set (idl_rows L T_System db5)"
  proof -
    obtain sys0 db1 where ins: "idl_insert L T_System db = (sys0, db1)" by fastforce
    define db2 where "db2 = idl_set L sys0 ''mgmt_intf'' (VSmap (smap_add L (k_mgmt_name K) name (smap_init L))) db1"
    have sys2: "sys0 \<in> set (idl_rows L T_System db2)" using insert_rows [OF ins, of T_System] by (simp add: db2_def rows_set)
    define db3 where "db3 = sysd_configure_default_bridge L K sys0 db2"
    have sys3: "sys0 \<in> set (idl_rows L T_System db3)" using bridge_made [OF sys2 db3_def] evolves_rows(1) [OF _ sys2] by blast
    define db4 where "db4 = sysd_configure_default_vrf L K sys0 db3"
    have "sys0 \<in> set (idl_rows L T_System db4)" using vrf_made [OF sys3 db4_def] evolves_rows(1) [OF _ sys3] by blast
    then show ?thesis using row
      by (auto simp: init_system_row_def ins Let_def db2_def [symmetric] db3_def [symmetric] db4_def [symmetric] rows_set)
  qed
  have "row_ops L UNIV db5 db'"
  proof (cases subs_ok)
    case False
    with assms al name subs row show ?thesis by (simp add: sysd_initial_configure_def row_ops_refl)
  next
    case True
    with assms al name subs row obtain rs db6 where 6: "add_subsystems L K U dir intfs_ok subs db5 = Inr (rs, db6)"
      and rest: "init_daemons_and_rest L Y release dmns_ok (daemons mst) sys (idl_set L sys ''subsystems'' (VRefs rs) db6) = Inr db'"
      by (auto simp: sysd_initial_configure_def bindE_eq_Inr)
    define db7 where "db7 = idl_set L sys ''subsystems'' (VRefs rs) db6"
    have ops7: "row_ops L UNIV db5 db7"
      unfolding db7_def using row_ops_mono [OF row_ops_add_subsystems [OF 6], of UNIV] by (intro row_ops_set) simp
    obtain ds d where add: "add_daemons L (daemons mst) db7 = (ds, d)" by fastforce
    have ops_d: "row_ops L UNIV db7 d" using daemons_added [OF add] row_ops_mono [of L "{T_Daemon}" db7 d UNIV] by simp
    define db8 where "db8 = (if daemons mst \<noteq> [] then idl_set L sys ''daemons'' (VRefs ds) d else db7)"
    have ops8: "row_ops L UNIV db7 db8" by (simp add: db8_def row_ops_set ops_d row_ops_refl)
    have "db' = db7 \<or> init_qos_acl L Y sys (idl_set L sys ''timezone'' (VStr ''UTC'') (sysd_update_sw_info L release sys db8)) = Inr db'"
      using rest [folded db7_def]
      by (cases "daemons mst = []"; cases dmns_ok) (simp_all add: init_daemons_and_rest_def add db8_def Let_def)
    then have "row_ops L UNIV db7 db'"
    proof
      assume "init_qos_acl L Y sys (idl_set L sys ''timezone'' (VStr ''UTC'') (sysd_update_sw_info L release sys db8)) = Inr db'"
      from row_ops_trans [OF row_ops_qos_acl [OF this] row_ops_set [OF row_ops_trans [OF row_ops_sw_info ops8]]]
      show ?thesis .
    qed (simp add: row_ops_refl)
    then show ?thesis by (rule row_ops_trans [OF _ ops7])
  qed
  then have "sys \<in> set (idl_rows L T_System db')" using row_ops_grow sys5 by blast
  then show ?thesis by force
qed

end

text \<open>
  An outside that leaves the System row in place: no other client deletes it, and neither the
  writes without a transaction nor the package transactions lose it.
\<close>

definition has_system :: "('db, 'm) ovs_lib \<Rightarrow> 'db \<Rightarrow> bool" where
  "has_system L db \<longleftrightarrow> idl_rows L T_System db \<noteq> []"

definition keeps_system :: "('db, 'm) ovs_lib \<Rightarrow> 'db \<Rightarrow> 'db run_env \<Rightarrow> bool" where
  "keeps_system L db env \<longleftrightarrow> (has_system L db \<longrightarrow> has_system L (e_db env)) \<and>
     (\<forall>d. has_system L d \<longrightarrow> has_system L (e_after_pkgs env d)) \<and>
     (\<forall>d d' d''. has_system L d' \<and> e_outside env d d' = Inr d'' \<longrightarrow> has_system L d'')"

definition kept_step :: "('db, 'm) ovs_lib \<Rightarrow> sysd_conf \<Rightarrow> 'db run_state \<Rightarrow> 'db run_env \<times> run_event list \<Rightarrow> 'db run_state \<Rightarrow> bool" where
  "kept_step L C st l st' \<longleftrightarrow> keeps_system L (replica st) (fst l) \<and> run_step L C st l st'"

abbreviation configures :: "run_event list \<Rightarrow> run_event list" where
  "configures evs \<equiv> filter (\<lambda>e. e = Configure True) evs"

lemma run_packages_configures:
  "run_packages L env st = Inr (st', evs) \<Longrightarrow> configures evs = [] \<and>
   (replica st' = replica st \<or> replica st' = e_after_pkgs env (replica st))"
  by (auto simp: run_packages_def bindE_eq_Inr split: if_splits)

context ovs_idl
begin

lemma run_system_configures:
  assumes "run_system L C env st = Inr (st', evs)" "keeps_system L db env"
  shows "has_system L (replica st) \<Longrightarrow> configures evs = [] \<and> has_system L (replica st')"
    and "\<not> has_system L (replica st) \<Longrightarrow> configures evs = [] \<or> configures evs = [Configure True] \<and> has_system L (replica st')"
proof -
  assume sys: "has_system L (replica st)"
  then obtain cfg rest where rows: "idl_rows L T_System (replica st) = cfg # rest"
    by (auto simp: has_system_def neq_Nil_conv)
  with assms(1) obtain db1 where db1: "e_outside env (replica st) (sysd_update_sw_info L (e_release env) cfg (replica st)) = Inr db1"
    and st': "replica st' = db1 \<or> replica st' = snd (sysd_chk_if_hw_daemons_done L (daemons (c_mst C)) (num_hw_daemons (c_mst C))
                          (e_hw_committed env) (False, db1))" "configures evs = []"
    by (auto simp: run_system_def bindE_eq_Inr split_beta Let_def split: if_splits)
  have "has_system L (sysd_update_sw_info L (e_release env) cfg (replica st))"
    using sys row_ops_grow [OF row_ops_sw_info [of L UNIV "replica st" "e_release env" cfg], of T_System]
    by (fastforce simp: has_system_def)
  then have "has_system L db1" using assms(2) db1 unfolding keeps_system_def by blast
  then show "configures evs = [] \<and> has_system L (replica st')"
    using st' by (auto simp: check_done_cases has_system_def set_hw_done_rows split: if_splits)
next
  assume "\<not> has_system L (replica st)"
  then have "idl_rows L T_System (replica st) = []" by (simp add: has_system_def)
  with assms(1) obtain db' where "sysd_initial_configure L (c_names C) (c_utils C) (c_yaml C) (c_dir C) (e_release env)
      (e_allocs env) (c_mst C) (c_subs C) (replica st) = Inr db'"
    and st': "st' = (if e_init_committed env then st\<lparr>replica := db'\<rparr> else st)" "evs = [Configure (e_init_committed env)]"
    by (auto simp: run_system_def bindE_eq_Inr)
  from initial_configure_grows [OF this(1)] st'
  show "configures evs = [] \<or> configures evs = [Configure True] \<and> has_system L (replica st')"
    by (cases "e_init_committed env") (simp_all add: has_system_def)
qed

lemma run_configures:
  assumes "sysd_run L C env st = Inr (st', evs)" "keeps_system L db env"
  shows "has_system L (e_db env) \<Longrightarrow> configures evs = [] \<and> has_system L (replica st')"
    and "\<not> has_system L (e_db env) \<Longrightarrow> configures evs = [] \<or> configures evs = [Configure True] \<and> has_system L (replica st')"
proof -
  have "(has_system L (e_db env) \<longrightarrow> configures evs = [] \<and> has_system L (replica st')) \<and>
    (\<not> has_system L (e_db env) \<longrightarrow> configures evs = [] \<or> configures evs = [Configure True] \<and> has_system L (replica st'))"
  proof (cases "active env st")
    case True
    with assms(1) obtain st1 evs1 evs2 tz where 1: "run_system L C env (enter env st) = Inr (st1, evs1)"
      and 2: "run_packages L env st1 = Inr (st', evs2)" and evs: "evs = evs1 @ evs2 @ [Timezone tz, Startup_Complete]"
      by (auto simp: run_active)
    have "has_system L (replica st1) \<longrightarrow> has_system L (replica st')"
      using run_packages_configures [OF 2] assms(2) unfolding keeps_system_def by auto
    then show ?thesis
      using run_system_configures [OF 1 assms(2)] run_packages_configures [OF 2] by (auto simp: evs)
  next
    case False
    with assms(1) show ?thesis by (auto simp: run_idle split: if_splits)
  qed
  then show "has_system L (e_db env) \<Longrightarrow> configures evs = [] \<and> has_system L (replica st')"
    and "\<not> has_system L (e_db env) \<Longrightarrow> configures evs = [] \<or> configures evs = [Configure True] \<and> has_system L (replica st')"
    by blast+
qed

text \<open>
  As long as nobody deletes the System row, the daemon's start-up transaction goes through at most once, and
  once it has, the row is there.
\<close>

lemma configured_once:
  assumes "lsteps (kept_step L C) st tr st'" "\<not> has_system L (replica st)"
  shows "configures (trace_events tr) = [] \<or> configures (trace_events tr) = [Configure True] \<and> has_system L (replica st')"
  using assms(1)
proof (induction rule: lsteps.induct)
  case (lsteps_snoc tr st1 l st2)
  have kept: "keeps_system L (replica st1) (fst l)" and run: "sysd_run L C (fst l) st1 = Inr (st2, snd l)"
    using lsteps_snoc.hyps(2) by (simp_all add: kept_step_def run_step_def)
  note one = run_configures [OF run kept]
  show ?case
  proof (cases "has_system L (e_db (fst l))")
    case True
    then show ?thesis using one lsteps_snoc.IH by auto
  next
    case False
    then have "\<not> has_system L (replica st1)" using kept by (auto simp: keeps_system_def)
    then show ?thesis using False one lsteps_snoc.IH by auto
  qed
qed simp

end

section \<open>The first round on an empty database\<close>

text \<open>
  What other clients may do in between: rows of other tables come, columns of the rows may change,
  but not the ones the handshake reads, except that hardware daemons report progress.
\<close>

definition others_progress :: "('db, 'm) ovs_lib \<Rightarrow> 'db \<Rightarrow> 'db \<Rightarrow> bool" where
  "others_progress L db db' \<longleftrightarrow>
     set (idl_rows L T_System db') = set (idl_rows L T_System db) \<and>
     set (idl_rows L T_Daemon db') = set (idl_rows L T_Daemon db) \<and>
     (\<forall>r \<in> set (idl_rows L T_Daemon db). idl_get L r ''name'' db' = idl_get L r ''name'' db \<and>
        idl_get L r ''is_hw_handler'' db' = idl_get L r ''is_hw_handler'' db) \<and>
     (\<forall>r \<in> set (idl_rows L T_System db). idl_get L r ''timezone'' db' = idl_get L r ''timezone'' db)"

lemma lists_daemons_cong:
  assumes "lists_daemons L ds db" and rows: "set (idl_rows L T_Daemon db') = set (idl_rows L T_Daemon db)"
    and "\<forall>r \<in> set (idl_rows L T_Daemon db). idl_get L r ''name'' db' = idl_get L r ''name'' db \<and>
        idl_get L r ''is_hw_handler'' db' = idl_get L r ''is_hw_handler'' db"
  shows "lists_daemons L ds db'"
proof -
  have same: "row_name L db' r = row_name L db r \<and> row_is_hw L db' r = row_is_hw L db r"
    if "r \<in> set (idl_rows L T_Daemon db)" for r
    using assms(3) that by (simp add: row_name_def row_is_hw_def get_defs)
  then have "row_name L db' ` set (idl_rows L T_Daemon db) = row_name L db ` set (idl_rows L T_Daemon db)"
    "inj_on (row_name L db') (set (idl_rows L T_Daemon db)) = inj_on (row_name L db) (set (idl_rows L T_Daemon db))"
    by (auto simp: image_iff cong: inj_on_cong)
  with assms(1) same show ?thesis unfolding lists_daemons_def rows by fastforce
qed

context ovs_idl
begin

lemma first_run:
  assumes act: "active env st" "e_init_committed env" "e_allocs env = (True, True, True)"
    and lib: "\<And>d. evolves L {T_Package_Info} {} d (e_after_pkgs env d)" "file_in_order (e_version_file env)"
    and empty: "\<And>t. idl_rows L t (e_db env) = []"
    and fits: "mgmt_intf_name (c_mst C) = Inr name" "wf_config (c_yaml C)" "c_subs C = [s]"
      "intf_cmn_info s = Some cmn" "list_all (port_ok (c_names C)) (interfaces s)" "distinct (map yp_name (interfaces s))"
      "distinct (map d_name (daemons (c_mst C)))"
  shows "\<exists>st1 evs sys. sysd_run L C env st = Inr (st1, evs) \<and> set (idl_rows L T_System (replica st1)) = {sys} \<and>
    get_str L sys ''timezone'' (replica st1) = Some ''UTC'' \<and> lists_daemons L (daemons (c_mst C)) (replica st1) \<and>
    idl_seqno st1 = e_seqno env \<and> hw_init_done_set st1 = hw_init_done_set st"
proof -
  obtain sys sub db' where conf: "sysd_initial_configure L (c_names C) (c_utils C) (c_yaml C) (c_dir C) (e_release env)
      (True, True, True) (c_mst C) [s] (e_db env) = Inr db'"
    "configured L (c_names C) (c_utils C) (c_dir C) name (daemons (c_mst C)) s cmn sys sub db'"
    using configured_first [OF empty fits(1,2,4-6)] by blast
  have sys: "set (idl_rows L T_System db') = {sys}" "get_str L sys ''timezone'' db' = Some ''UTC''"
    and dmn: "daemons_written L (daemons (c_mst C)) sys db'"
    using conf(2) by (simp_all add: configured_def system_started_def)
  have 1: "run_system L C env (enter env st) = Inr ((enter env st)\<lparr>replica := db'\<rparr>, [Configure True])"
    using empty [of T_System] by (simp add: run_system_def act fits(3) conf(1))
  obtain cs where pk: "sysd_add_package_info (e_insert_ok env) (e_parser_ok env) (e_version_file env) = Inr cs"
    using file_in_order_returns [OF lib(2)] by blast
  define st1 where "st1 = (enter env st)\<lparr>replica := (if idl_rows L T_Package_Info db' = [] then e_after_pkgs env db' else db')\<rparr>"
  have 2: "\<exists>evs2. run_packages L env ((enter env st)\<lparr>replica := db'\<rparr>) = Inr (st1, evs2)"
    by (simp add: run_packages_def st1_def pk)
  have ev: "evolves L {T_Package_Info} ({sys} \<times> {}) db' (replica st1)"
    using lib(1) by (simp add: st1_def evolves_refl)
  have sys_in: "sys \<in> set (idl_rows L T_System db')" using sys by simp
  have sys1: "set (idl_rows L T_System (replica st1)) = {sys}" using evolves_rows(2) [OF ev] sys by simp
  have tz1: "get_str L sys ''timezone'' (replica st1) = Some ''UTC''"
    using sys(2) by (simp add: evolves_readers(1) [OF ev sys_in])
  have "\<exists>tz. sysd_handle_timezone_update L (replica st1) = Inr tz"
  proof (cases "idl_rows L T_System (replica st1)")
    case (Cons r rest)
    with sys1 have "r = sys" by auto
    with Cons tz1 show ?thesis by (simp add: sysd_handle_timezone_update_def posix_path_def)
  qed (simp add: sysd_handle_timezone_update_def)
  with 1 2 run_active [OF act(1), of L C] have run: "\<exists>evs. sysd_run L C env st = Inr (st1, evs)" by blast
  have "daemons_written L (daemons (c_mst C)) sys (replica st1)"
    by (rule daemons_kept [OF ev dmn sys_in]) simp_all
  with run sys1 tz1 daemons_written_lists [OF _ fits(7)] show ?thesis by (auto simp: st1_def)
qed

end

section \<open>Witnesses\<close>

definition ex_conf :: sysd_conf where
  "ex_conf = \<lparr>c_names = ex_names, c_utils = ex_utils, c_yaml = ex_yaml, c_dir = ''/hw'', c_mst = ex_mst,
     c_subs = [subsystem_zero\<lparr>intf_cmn_info := Some ex_port_info, interfaces := [ex_port ''49'' [] None]\<rparr>]\<rparr>"

definition ex_env :: "mem_db \<Rightarrow> u32 \<Rightarrow> mem_db run_env" where
  "ex_env db n = \<lparr>e_db = db, e_seqno = n, e_contended = False, e_has_lock = True, e_release = None,
     e_allocs = (True, True, True), e_init_committed = True, e_hw_committed = True,
     e_outside = (\<lambda>d d'. Inr d'), e_insert_ok = (\<lambda>_. True), e_parser_ok = True, e_version_file = None,
     e_after_pkgs = (\<lambda>d. d)\<rparr>"

definition ex_state :: "mem_db run_state" where
  "ex_state = \<lparr>replica = mem_init, idl_seqno = 0, hw_init_done_set = False\<rparr>"

lemma ex_env_good:
  "idl_seqno st \<noteq> n \<Longrightarrow> active (ex_env db n) st" "evolves L {T_Package_Info} {} d (e_after_pkgs (ex_env db n) d)"
  "e_init_committed (ex_env db n)" "e_allocs (ex_env db n) = (True, True, True)" "file_in_order (e_version_file (ex_env db n))"
  by (simp_all add: active_def ex_env_def evolves_refl file_in_order_def)

lemma ex_conf_facts:
  "mgmt_intf_name (c_mst ex_conf) = Inr ''eth0''" "wf_config (c_yaml ex_conf)"
  "c_subs ex_conf = [subsystem_zero\<lparr>intf_cmn_info := Some ex_port_info, interfaces := [ex_port ''49'' [] None]\<rparr>]"
  "port_ok (c_names ex_conf) (ex_port ''49'' [] None)"
  "num_hw_daemons (c_mst ex_conf) = int (length (filter d_is_hw_handler (daemons (c_mst ex_conf))))"
  "distinct (map d_name (daemons (c_mst ex_conf)))" "prefix_free (daemons (c_mst ex_conf))"
  using wf_config_ex_yaml
  by (simp_all add: ex_conf_def ex_mst_def mgmt_intf_name_def cstr_def port_ok_def wf_port_keys_def ex_names_def
        ex_port_def SYSD_MAX_SPLIT_PORTS_def prefix_free_def)

lemma ex_first_run:
  "\<exists>st1 evs. sysd_run mem_lib ex_conf (ex_env mem_init 1) ex_state = Inr (st1, evs) \<and> \<not> hw_init_done_set st1"
proof -
  have "\<And>t. idl_rows mem_lib t (e_db (ex_env mem_init 1)) = []" by (simp add: ex_env_def mem_init_def)
  from ovs_idl.first_run [OF mem_db.ovs_idl_axioms ex_env_good(1) [of ex_state 1 mem_init] ex_env_good(3-4) ex_env_good(2,5) this
      ex_conf_facts(1-3) _ _ _ ex_conf_facts(6)]
  show ?thesis using ex_conf_facts(4) by (simp add: ex_state_def) blast
qed

theorem handshake_once_witness:
  "\<exists>st1 evs k. sysd_run mem_lib ex_conf (ex_env mem_init 1) ex_state = Inr (st1, evs) \<and> hw_events evs = replicate k False"
proof -
  obtain st1 evs where run: "sysd_run mem_lib ex_conf (ex_env mem_init 1) ex_state = Inr (st1, evs)" "\<not> hw_init_done_set st1"
    using ex_first_run by blast
  from handshake_once [OF runs_one [OF run(1)]] run show ?thesis by (auto simp: ex_state_def)
qed

theorem handshake_step_witness:
  "\<exists>st1 evs. sysd_run mem_lib ex_conf (ex_env mem_init 1) ex_state = Inr (st1, evs) \<and> \<not> hw_init_done_set st1"
proof -
  obtain st1 evs where run: "sysd_run mem_lib ex_conf (ex_env mem_init 1) ex_state = Inr (st1, evs)"
    using ex_first_run by blast
  from handshake_step [OF run] run show ?thesis by (simp add: ex_state_def ex_env_def mem_init_def)
qed

text \<open>A replica with a System row whose time zone is set, and no hardware daemons to wait for.\<close>

definition ex_zone :: mem_db where
  "ex_zone = mem_set 1 ''timezone'' (VStr ''UTC'') ex_system"

lemma ex_zone_facts: "mem_rows ex_zone t = (if t = T_System then [1] else [])"
  "get_str mem_lib (Suc 0) ''timezone'' ex_zone = Some ''UTC''"
  by (simp_all add: ex_zone_def mem_set_def ex_system_rows get_str_def)

theorem handshake_commit_lost_witness:
  "\<exists>st1 evs. sysd_run mem_lib (ex_conf\<lparr>c_mst := manifest_init\<rparr>) ((ex_env ex_zone 1)\<lparr>e_hw_committed := False\<rparr>) ex_state
      = Inr (st1, evs) \<and>
    (\<forall>tr st2. runs mem_lib (ex_conf\<lparr>c_mst := manifest_init\<rparr>) st1 tr st2 \<longrightarrow> hw_events (trace_events tr) = [])"
proof -
  let ?st1 = "\<lparr>replica = ex_zone, idl_seqno = 1, hw_init_done_set = True\<rparr>"
  let ?evs = "[Hw_Check True, Packages [], Timezone [Tz_Unlink ''/etc/localtime'', Tz_Symlink (posix_path @ ''UTC'') ''/etc/localtime''],
     Startup_Complete]"
  have run: "sysd_run mem_lib (ex_conf\<lparr>c_mst := manifest_init\<rparr>) ((ex_env ex_zone 1)\<lparr>e_hw_committed := False\<rparr>) ex_state = Inr (?st1, ?evs)"
    by (simp add: sysd_run_def run_system_def run_packages_def ex_env_def ex_state_def ex_zone_facts sysd_update_sw_info_def
          sysd_chk_if_hw_daemons_done_def sysd_set_hw_done_def manifest_init_def sysd_add_package_info_def
          sysd_handle_timezone_update_def posix_path_def Let_def)
  then show ?thesis using handshake_commit_lost [OF run] by (auto simp: ex_env_def)
qed

theorem no_lock_no_wait_witness:
  "\<exists>st'. sysd_run mem_lib ex_conf ((ex_env mem_init 1)\<lparr>e_has_lock := False\<rparr>) ex_state = Inr (st', []) \<and>
     main_wait st' 1 False = Go_On"
proof -
  let ?env = "(ex_env mem_init 1)\<lparr>e_has_lock := False\<rparr>"
  have run: "sysd_run mem_lib ex_conf ?env ex_state = Inr (ex_state\<lparr>replica := e_db ?env\<rparr>, [])"
    by (simp add: sysd_run_def ex_env_def ex_state_def)
  from no_lock_no_wait [OF runs_one [OF this]] run show ?thesis
    by (auto simp: ex_env_def ex_state_def)
qed

end
