(* ===== verification/Sysd_Main.thy ===== *)
theory Sysd_Main
  imports Sysd_Run Sys_Files
begin

text \<open>
  The start of the daemon (\<open>main\<close> in \<open>src/sysd.c\<close>) up to its main loop, stage by stage with the exits
  in between, and the debug dump (\<open>sysd_dump\<close> in \<open>src/sysd_ovsdb_if.c\<close>). The lemmas say what
  holds whenever the loop is reached, and what the dump prints.
\<close>

section \<open>Start-up\<close>

record boot_env =
  b_unixctl_rc :: int
  b_manifest_env :: manifest_env
  b_manifest :: "json option"
  b_simulation :: bool
  b_paths :: hw_paths
  b_fs :: fs_env
  b_manufacturer_out :: "string list option"
  b_product_out :: "string list option"
  b_fru_not_found :: int
  b_yaml :: yaml_lib
  b_utils :: ops_utils
  b_crc32 :: "u32 \<Rightarrow> u8 list option \<Rightarrow> u32"
  b_random :: "u32 \<times> u32 \<times> u32"
  b_subsystem_allocs :: "bool \<times> bool \<times> bool"
  b_interfaces_alloc :: bool

text \<open>The globals of the running daemon, the links made and the LED command given.\<close>

record booted =
  g_mst :: manifest_state
  g_hw_desc_dir :: string
  g_cfg :: cfg_state
  g_subsystems :: "subsystem list"
  g_links :: "fs_call list"
  g_led :: "(nat \<times> int) option"

datatype boot_stage = Stage_Unixctl | Stage_Manifest | Stage_Hwdesc | Stage_Yaml | Stage_Subsystem | Stage_Interfaces

datatype boot_result = Exit boot_stage int | Running booted

definition sysd_boot :: "boot_env \<Rightarrow> fault + boot_result" where
  "sysd_boot E =
     (if b_unixctl_rc E \<noteq> 0 then Inr (Exit Stage_Unixctl 1)
      else bindE (sysd_read_manifest_file (b_manifest_env E) (b_manifest E) manifest_init) (\<lambda>(rc, mst).
        if rc \<noteq> 0 then Inr (Exit Stage_Manifest (-1))
        else let (rc, dir, links) = sysd_find_hw_desc_files (b_simulation E) (b_paths E) (b_fs E)
                                      (b_manufacturer_out E) (b_product_out E) ''/''
             in if rc \<noteq> 0 then Inr (Exit Stage_Hwdesc (-1))
                else let (ok, cfg) = sysd_cfg_yaml_init (b_yaml E) (b_fru_not_found E) dir cfg_init
                     in if \<not> ok then Inr (Exit Stage_Yaml (-1))
                        else bindE (sysd_get_subsystem_info (b_yaml E) (b_utils E) (b_crc32 E) (b_random E)
                                      (b_subsystem_allocs E) cfg) (\<lambda>(rc, sub).
                          if rc \<noteq> 0 then Inr (Exit Stage_Subsystem (-1))
                          else case sub of
                                 None \<Rightarrow> Inl Null_Deref
                               | Some s \<Rightarrow>
                                   (let (rc, s1) = sysd_get_interface_info (b_yaml E) (b_interfaces_alloc E) s
                                    in if rc \<noteq> 0 then Inr (Exit Stage_Interfaces (-1))
                                       else Inr (Running \<lparr>g_mst = mst, g_hw_desc_dir = dir, g_cfg = cfg,
                                              g_subsystems = [s1], g_links = links,
                                              g_led = sysd_cfg_yaml_set_system_status_led (b_yaml E) True\<rparr>)))))"

text \<open>\<open>sysd_exit\<close>: the LED flashes and the table of subsystems is gone; the first value is \<open>exiting\<close>.\<close>

definition sysd_exit :: "yaml_lib \<Rightarrow> booted \<Rightarrow> bool \<times> booted" where
  "sysd_exit Y b = (True, b\<lparr>g_subsystems := [], g_led := sysd_cfg_yaml_set_system_status_led Y False\<rparr>)"

text \<open>What the main loop works with.\<close>

definition conf_of :: "idl_names \<Rightarrow> boot_env \<Rightarrow> booted \<Rightarrow> sysd_conf" where
  "conf_of K E b = \<lparr>c_names = K, c_utils = b_utils E, c_yaml = b_yaml E, c_dir = g_hw_desc_dir b,
     c_mst = g_mst b, c_subs = g_subsystems b\<rparr>"

section \<open>What holds in the main loop\<close>

text \<open>A subsystem whose addresses are the FRU's, each in one place.\<close>

definition macs_conserved :: "ops_utils \<Rightarrow> subsystem \<Rightarrow> bool" where
  "macs_conserved U s \<longleftrightarrow>
     (if 0 < num_macs (sub_fru s) then [mgmt_mac_addr s] else []) @
     (if 1 < num_macs (sub_fru s) then [system_mac_addr s] else []) @ mac_pool s = mac_range U (sub_fru s) \<and>
     distinct (mac_range U (sub_fru s))"

definition running_inv :: "boot_env \<Rightarrow> booted \<Rightarrow> bool" where
  "running_inv E b \<longleftrightarrow>
     manifest_wf (g_mst b) \<and>
     num_hw_daemons (g_mst b) = int (length (filter d_is_hw_handler (daemons (g_mst b)))) \<and>
     stat_ok (b_fs E) (g_hw_desc_dir b) \<and> g_links b \<noteq> [] \<and>
     last (g_links b) = Symlink (g_hw_desc_dir b) (HWDESC_FILE_LINK (b_paths E)) \<and>
     fru_dev (g_cfg b) \<and>
     (\<exists>s cmn. g_subsystems b = [s] \<and> intf_cmn_info s = Some cmn \<and> y_port_info (b_yaml E) = Some cmn \<and>
        0 < intf_count s \<and> intf_count s = int (length (interfaces s)) \<and>
        (\<forall>i < length (interfaces s). y_port (b_yaml E) i = Some (interfaces s ! i)) \<and> macs_conserved (b_utils E) s)"

lemma cfg_init_ok: "sysd_cfg_yaml_init Y nf dir st = (True, st') \<Longrightarrow> fru_dev st'"
  by (auto simp: sysd_cfg_yaml_init_def Let_def split: if_splits)

lemma interface_info_ok:
  assumes "sysd_get_interface_info Y ok s = (0, s')"
  shows "(\<exists>cmn. intf_cmn_info s' = Some cmn \<and> y_port_info Y = Some cmn) \<and> 0 < intf_count s' \<and>
    intf_count s' = int (length (interfaces s')) \<and> (\<forall>i < length (interfaces s'). y_port Y i = Some (interfaces s' ! i))"
proof -
  have all: "\<forall>i < nat (y_port_count Y). y_port Y i \<noteq> None" "0 < y_port_count Y" "y_port_info Y \<noteq> None"
    "intf_count s' = y_port_count Y" "intf_cmn_info s' = y_port_info Y"
    "interfaces s' = map (\<lambda>i. the (y_port Y i)) [0..<nat (y_port_count Y)]"
    using interface_table [OF assms] by simp_all
  then show ?thesis by auto
qed

lemma interface_info_fields:
  "sysd_get_interface_info Y ok s = (0, s') \<Longrightarrow> macs_conserved U s \<Longrightarrow> macs_conserved U s'"
  by (auto simp: sysd_get_interface_info_def macs_conserved_def mac_pool_def split: option.splits if_splits)

lemma boot_running:
  assumes "sysd_boot E = Inr (Running b)"
  shows "running_inv E b"
proof -
  obtain mst where mst: "sysd_read_manifest_file (b_manifest_env E) (b_manifest E) manifest_init = Inr (0, mst)"
    using assms by (auto simp: sysd_boot_def bindE_eq_Inr split: if_splits)
  obtain dir links where hw: "sysd_find_hw_desc_files (b_simulation E) (b_paths E) (b_fs E)
      (b_manufacturer_out E) (b_product_out E) ''/'' = (0, dir, links)"
    using assms mst by (auto simp: sysd_boot_def Let_def split: if_splits prod.splits)
  obtain cfg where cfg: "sysd_cfg_yaml_init (b_yaml E) (b_fru_not_found E) dir cfg_init = (True, cfg)"
    using assms mst hw by (auto simp: sysd_boot_def Let_def split: if_splits prod.splits)
  obtain s s1 where sub: "sysd_get_subsystem_info (b_yaml E) (b_utils E) (b_crc32 E) (b_random E) (b_subsystem_allocs E) cfg
      = Inr (0, Some s)" and ifs: "sysd_get_interface_info (b_yaml E) (b_interfaces_alloc E) s = (0, s1)"
    and b: "b = \<lparr>g_mst = mst, g_hw_desc_dir = dir, g_cfg = cfg, g_subsystems = [s1], g_links = links,
              g_led = sysd_cfg_yaml_set_system_status_led (b_yaml E) True\<rparr>"
    using assms mst hw cfg by (auto simp: sysd_boot_def Let_def bindE_eq_Inr split: if_splits prod.splits option.splits)
  have "macs_conserved (b_utils E) s1"
    using subsystem_macs [OF sub] interface_info_fields [OF ifs] by (simp add: macs_conserved_def)
  then show ?thesis
    using read_manifest_wf [OF mst] read_manifest_count [OF mst] hwdesc_result [OF hw] cfg_init_ok [OF cfg] interface_info_ok [OF ifs]
    by (auto simp: running_inv_def b)
qed

text \<open>
  Claim C12. Whenever start-up reaches the main loop, the daemon's globals are well formed: the
  daemon table, with the count of hardware daemons that the handshake uses; the directory of the
  hardware description, which exists and is linked; the FRU device; and one subsystem with its port
  information, as many ports as it counts, at least one and each as described, and with every MAC
  address of the FRU handed out once.
\<close>

theorem running_invariant:
  assumes "sysd_boot E = Inr (Running b)"
  shows "running_inv E b"
  using boot_running [OF assms] .

text \<open>A start on the switch of the examples, in simulation.\<close>

definition ex_boot :: boot_env where
  "ex_boot = \<lparr>b_unixctl_rc = 0, b_manifest_env = roomy_env, b_manifest = Some image_manifest, b_simulation = True,
     b_paths = \<lparr>HWDESC_FILES_PATH = ''/etc/openswitch/platform'', HWDESC_FILE_LINK = ''/etc/openswitch/hwdesc'',
       HWDESC_FILE_LINK_PATH = ''/etc/openswitch''\<rparr>,
     b_fs = \<lparr>stat_ok = (\<lambda>_. True), mkdir_rc = Mkdir_Exists, symlink_ok = True\<rparr>,
     b_manufacturer_out = None, b_product_out = None, b_fru_not_found = 0, b_yaml = ex_yaml, b_utils = ex_utils,
     b_crc32 = sum_crc, b_random = (7, 8, 9), b_subsystem_allocs = (True, True, True), b_interfaces_alloc = True\<rparr>"

definition ex_boot_subsystem :: subsystem where
  "ex_boot_subsystem = (case sysd_get_subsystem_info ex_yaml ex_utils sum_crc (7, 8, 9) (True, True, True)
      (cfg_init\<lparr>fru_yaml := False, fru_dev := True\<rparr>) of Inr (rc, Some s) \<Rightarrow> s | _ \<Rightarrow> subsystem_zero)"

definition ex_booted :: booted where
  "ex_booted = \<lparr>g_mst = \<lparr>daemons = map daemon_of image_daemons, num_hw_daemons = 6,
       mgmt_intf = Some (''eth0'' @ replicate 20 (CHR 0x00)), is_mgmt_intf_present = True\<rparr>,
     g_hw_desc_dir = ''/etc/openswitch/platform/Generic-x86/X86-64'', g_cfg = cfg_init\<lparr>fru_yaml := False, fru_dev := True\<rparr>,
     g_subsystems = [ex_boot_subsystem\<lparr>intf_count := 1, intf_cmn_info := y_port_info ex_yaml,
       interfaces := [the (y_port ex_yaml 0)]\<rparr>],
     g_links = [Remove ''/etc/openswitch/hwdesc'', Mkdir ''/etc/openswitch'',
       Symlink ''/etc/openswitch/platform/Generic-x86/X86-64'' ''/etc/openswitch/hwdesc''],
     g_led = Some (3, 1)\<rparr>"

lemma ex_boots: "sysd_boot ex_boot = Inr (Running ex_booted)"
proof -
  have hw: "sysd_find_hw_desc_files True (b_paths ex_boot) (b_fs ex_boot) None None ''/'' =
      (0, g_hw_desc_dir ex_booted, g_links ex_booted)" by code_simp
  have sub: "sysd_get_subsystem_info ex_yaml ex_utils sum_crc (7, 8, 9) (True, True, True)
      (cfg_init\<lparr>fru_yaml := False, fru_dev := True\<rparr>) = Inr (0, Some ex_boot_subsystem)" by code_simp
  have yaml: "y_parse_devices ex_yaml = 0" "y_parse_ports ex_yaml = 0" "y_parse_fru ex_yaml = 0"
    "y_init_devices ex_yaml = 0" by (simp_all add: ex_yaml_def)
  have cfg: "sysd_cfg_yaml_init ex_yaml 0 (g_hw_desc_dir ex_booted) cfg_init = (True, g_cfg ex_booted)"
    by (simp add: sysd_cfg_yaml_init_def ex_booted_def yaml) (simp add: sysd_cfg_yaml_open_def ex_yaml_def)
  have ifs: "sysd_get_interface_info ex_yaml True ex_boot_subsystem = (0, hd (g_subsystems ex_booted))"
    by (simp add: sysd_get_interface_info_def ex_booted_def ex_yaml_def)
  have led: "sysd_cfg_yaml_set_system_status_led ex_yaml True = Some (3, 1)" by code_simp
  show ?thesis
    using hw sub cfg ifs led image_manifest_reads
    by (simp add: sysd_boot_def ex_boot_def ex_booted_def)
qed

theorem running_invariant_witness:
  "sysd_boot ex_boot = Inr (Running ex_booted) \<and> running_inv ex_boot ex_booted"
  using running_invariant [OF ex_boots] ex_boots by simp

text \<open>Its configuration is one the daemon's rounds can work with.\<close>

lemma ex_booted_facts:
  "mgmt_intf_name (g_mst ex_booted) = Inr ''eth0''" "wf_config (b_yaml ex_boot)"
  "g_subsystems ex_booted = [ex_boot_subsystem\<lparr>intf_count := 1, intf_cmn_info := y_port_info ex_yaml, interfaces := [the (y_port ex_yaml 0)]\<rparr>]"
  "port_ok ex_names (the (y_port ex_yaml 0))"
  "distinct (map d_name (daemons (g_mst ex_booted)))" "prefix_free (daemons (g_mst ex_booted))"
proof -
  show "wf_config (b_yaml ex_boot)" using wf_config_ex_yaml by (simp add: ex_boot_def)
  show "port_ok ex_names (the (y_port ex_yaml 0))"
    by (simp add: ex_yaml_def port_ok_def wf_port_keys_def ex_names_def SYSD_MAX_SPLIT_PORTS_def speed_fits_def)
qed (simp_all add: ex_booted_def mgmt_intf_name_def cstr_def image_daemons_def daemon_of_def prefix_free_def)

section \<open>The debug dump\<close>

text \<open>
  \<open>strncat\<close> with \<open>REM_BUF_LEN\<close>, the rest of a buffer of \<open>buflen\<close> bytes with its terminator.
\<close>

definition strncat_rem :: "nat \<Rightarrow> string \<Rightarrow> string \<Rightarrow> string" where
  "strncat_rem buflen buf s = buf @ take (buflen - 1 - length buf) s"

abbreviation tabs3 :: string where "tabs3 \<equiv> [CHR 0x09, CHR 0x09, CHR 0x09]"
abbreviation newline :: string where "newline \<equiv> [CHR 0x0A]"

definition dump_title :: string where
  "dump_title = ''=============== Daemon Info ========================='' @ newline"

definition dump_header :: string where
  "dump_header = ''Name'' @ tabs3 @ ''is_hw_handler'' @ tabs3 @ ''cur_hw'' @ newline"

definition dump_mgmt_title :: string where
  "dump_mgmt_title = ''=============== Mgmt_intf Info =========================='' @ newline"

text \<open>The loop over the first \<open>num_hw_daemons\<close> entries of the daemon table.\<close>

fun dump_rows :: "nat \<Rightarrow> daemon_info list \<Rightarrow> nat \<Rightarrow> string \<Rightarrow> fault + string" where
  "dump_rows buflen ds 0 buf = Inr buf"
| "dump_rows buflen [] (Suc n) buf = Inl Out_Of_Bounds"
| "dump_rows buflen (d # ds) (Suc n) buf =
     (let b1 = strncat_rem buflen buf (d_name d);
          b2 = strncat_rem buflen b1 tabs3;
          b3 = strncat_rem buflen b2 (fmt_d (if d_is_hw_handler d then 1 else 0));
          b4 = strncat_rem buflen b3 tabs3;
          b5 = strncat_rem buflen b4 (fmt_d (d_cur_hw d))
      in dump_rows buflen ds n (strncat_rem buflen b5 newline))"

definition sysd_dump :: "nat \<Rightarrow> manifest_state \<Rightarrow> fault + string" where
  "sysd_dump buflen mst =
     (if buflen \<le> length dump_title then Inl Out_Of_Bounds
      else bindE (dump_rows buflen (daemons mst) (nat (num_hw_daemons mst)) (strncat_rem buflen dump_title dump_header)) (\<lambda>buf.
           bindE (mgmt_intf_name mst) (\<lambda>name.
             Inr (strncat_rem buflen (strncat_rem buflen (strncat_rem buflen buf dump_mgmt_title) name) newline))))"

text \<open>
  The two callers. The reply of \<open>ops-sysd/dump\<close> is begun with a line of its own, which the copy at the
  start of \<open>sysd_dump\<close> overwrites; the diagnostic dump does nothing without a place for the buffer.
\<close>

definition sysd_unixctl_dump :: "bool \<Rightarrow> manifest_state \<Rightarrow> fault + string" where
  "sysd_unixctl_dump alloc_ok mst =
     (if alloc_ok then sysd_dump 16000 mst
      else Inr (snprintf_str 255 (''sysd daemon failed to allocate 16000 bytes'' @ newline)))"

definition sysd_diag_dump_basic_cb :: "bool \<Rightarrow> bool \<Rightarrow> manifest_state \<Rightarrow> fault + string option" where
  "sysd_diag_dump_basic_cb has_buf alloc_ok mst =
     (if \<not> has_buf then Inr None
      else if alloc_ok then bindE (sysd_dump 16000 mst) (\<lambda>s. Inr (Some s)) else Inr None)"

definition dump_row_text :: "daemon_info \<Rightarrow> string" where
  "dump_row_text d = d_name d @ tabs3 @ fmt_d (if d_is_hw_handler d then 1 else 0) @ tabs3 @ fmt_d (d_cur_hw d) @ newline"

lemma strncat_rem_take: "strncat_rem n (take (n - 1) a) b = take (n - 1) (a @ b)"
  by (simp add: strncat_rem_def min_def)

lemma dump_rows_text:
  "n \<le> length ds \<Longrightarrow>
   dump_rows buflen ds n (take (buflen - 1) a) = Inr (take (buflen - 1) (a @ concat (map dump_row_text (take n ds))))"
  by (induction buflen ds n "take (buflen - 1) a" arbitrary: a rule: dump_rows.induct)
     (simp_all add: Let_def strncat_rem_take [unfolded One_nat_def] dump_row_text_def del: take_append)

text \<open>
  The dump never exceeds its buffer: it is the beginning, as far as the buffer goes, of the
  title, the header, one line for each of the first \<open>num_hw_daemons\<close> entries of the daemon table
  (whether or not these are the hardware daemons) and the management interface.
\<close>

lemma dump_text:
  assumes "length dump_title < buflen" "num_hw_daemons mst \<le> int (length (daemons mst))" "mgmt_intf_name mst = Inr name"
  shows "sysd_dump buflen mst = Inr (take (buflen - 1) (dump_title @ dump_header @
    concat (map dump_row_text (take (nat (num_hw_daemons mst)) (daemons mst))) @ dump_mgmt_title @ name @ newline))"
proof -
  have t: "dump_title = take (buflen - 1) dump_title" using assms(1) by simp
  have "dump_rows buflen (daemons mst) (nat (num_hw_daemons mst)) (strncat_rem buflen dump_title dump_header) =
      Inr (take (buflen - 1) ((dump_title @ dump_header) @ concat (map dump_row_text (take (nat (num_hw_daemons mst)) (daemons mst)))))"
    using assms(2) by (subst t) (simp only: strncat_rem_take, rule dump_rows_text, simp)
  then show ?thesis
    using assms(1,3) by (simp add: sysd_dump_def strncat_rem_take [unfolded One_nat_def] del: take_append)
qed

end
