(* ===== verification/Cli_Timezone.thy ===== *)
theory Cli_Timezone
  imports Ovsdb_Init
begin

text \<open>
  The time zone commands of the CLI plugin (\<open>src/cli/system_vty.c\<close> and
  \<open>src/cli/vtysh_ovsdb_system_context.c\<close>): the table of zones read from the directory tree of the
  POSIX zones, the command line built from it, setting and unsetting the zone, and the line of the
  running configuration. The properties say when the table is built within its buffers, that it is
  well formed, what setting a zone stores, and that the running configuration, entered again,
  restores the zone, which the daemon then links.
\<close>

section \<open>Removing the base path\<close>

text \<open>\<open>strstr\<close>: where the needle starts for the first time.\<close>

fun strstr :: "string \<Rightarrow> string \<Rightarrow> nat option" where
  "strstr hay needle =
     (if prefix needle hay then Some 0
      else case hay of [] \<Rightarrow> None | c # cs \<Rightarrow> map_option Suc (strstr cs needle))"

declare strstr.simps [simp del]

text \<open>
  The loop of \<open>remove_base_path\<close>: each round searches from where the last occurrence was found and
  moves the rest of the string over it. \<open>None\<close> is a loop that does not end.
\<close>

partial_function (option) remove_base_path :: "string \<Rightarrow> string \<Rightarrow> string option" where
  "remove_base_path full_path base =
     (case strstr full_path base of
        None \<Rightarrow> Some full_path
      | Some i \<Rightarrow> Option.bind (remove_base_path (drop (i + length base) full_path) base)
                    (\<lambda>rest. Some (take i full_path @ rest)))"

section \<open>The table of zones\<close>

definition MAX_TIMEZONES :: nat where "MAX_TIMEZONES = 900"
definition MAX_TIMEZONE_NAME_SIZE :: nat where "MAX_TIMEZONE_NAME_SIZE = 100"
definition MAX_TIMEZONE_CMD_SIZE :: nat where "MAX_TIMEZONE_CMD_SIZE = MAX_TIMEZONES * MAX_TIMEZONE_NAME_SIZE"
definition MAX_TIMEZONES_HELP_SIZE :: nat where "MAX_TIMEZONES_HELP_SIZE = MAX_TIMEZONES * 100"
definition DEFAULT_TIMEZONE :: string where "DEFAULT_TIMEZONE = ''utc''"

text \<open>The two arrays up to \<open>zone_count\<close>, and the command and help texts under construction.\<close>

record zone_db =
  list_of_zones :: "string list"
  list_of_zones_caps :: "string list"
  zcmd :: string
  zhelp :: string

text \<open>\<open>strcat\<close> into a buffer of \<open>cap\<close> bytes.\<close>

definition strcat :: "nat \<Rightarrow> string \<Rightarrow> string \<Rightarrow> fault + string" where
  "strcat cap dst src = (if length dst + length src < cap then Inr (dst @ src) else Inl Out_Of_Bounds)"

definition populate_zone_db :: "string \<Rightarrow> string \<Rightarrow> zone_db \<Rightarrow> fault + zone_db" where
  "populate_zone_db zone zone_caps Z =
     (if MAX_TIMEZONES \<le> length (list_of_zones Z) \<or> MAX_TIMEZONE_NAME_SIZE \<le> length zone \<or>
         MAX_TIMEZONE_NAME_SIZE \<le> length zone_caps
      then Inl Out_Of_Bounds
      else Inr (Z\<lparr>list_of_zones := list_of_zones Z @ [zone],
                  list_of_zones_caps := list_of_zones_caps Z @ [zone_caps]\<rparr>))"

definition add_info_to_cmd_options :: "string \<Rightarrow> zone_db \<Rightarrow> fault + zone_db" where
  "add_info_to_cmd_options timezone Z =
     bindE (strcat MAX_TIMEZONES_HELP_SIZE (zhelp Z) timezone) (\<lambda>h1.
     bindE (strcat MAX_TIMEZONES_HELP_SIZE h1 ('' Zone '' @ [CHR 0x0A])) (\<lambda>h2.
       if MAX_TIMEZONE_NAME_SIZE \<le> length timezone then Inl Out_Of_Bounds
       else bindE (strcat MAX_TIMEZONE_CMD_SIZE (zcmd Z) (tolower_str timezone)) (\<lambda>c1.
            bindE (strcat MAX_TIMEZONE_CMD_SIZE c1 '' | '') (\<lambda>c2.
              populate_zone_db (tolower_str timezone) timezone (Z\<lparr>zhelp := h2, zcmd := c2\<rparr>)))))"

text \<open>
  A directory as \<open>readdir\<close> gives it, in its order: a directory entry has the listing \<open>opendir\<close> would
  give, if it can be opened; everything else is taken for a zone file.
\<close>

datatype dirent = D_File string | D_Dir string "dirent list option"

text \<open>
  The body of the loop for a file: \<open>local_dir\<close> has 100 bytes, \<open>snprintf\<close> is given 99 of them and
  returns the length of the whole path, where the terminator is then written.
\<close>

definition add_zone_file :: "string \<Rightarrow> zone_db \<Rightarrow> fault + zone_db" where
  "add_zone_file full Z =
     (if 100 \<le> length full then Inl Out_Of_Bounds
      else case remove_base_path (snprintf_str 99 full) posix_path of
             None \<Rightarrow> Inl Diverges
           | Some zone \<Rightarrow> add_info_to_cmd_options zone Z)"

fun find_posix_timezones_and_add_to_list :: "string \<Rightarrow> dirent list option \<Rightarrow> zone_db \<Rightarrow> fault + zone_db"
  and walk_entries :: "string \<Rightarrow> dirent list \<Rightarrow> zone_db \<Rightarrow> fault + zone_db" where
  "find_posix_timezones_and_add_to_list name None Z = Inr Z"
| "find_posix_timezones_and_add_to_list name (Some es) Z = walk_entries name es Z"
| "walk_entries name [] Z = Inr Z"
| "walk_entries name (D_Dir d sub # es) Z =
     (let path = name @ ''/'' @ d
      in if 1024 \<le> length path then Inl Out_Of_Bounds
         else if d = ''.'' \<or> d = ''..'' then walk_entries name es Z
         else bindE (find_posix_timezones_and_add_to_list (snprintf_str 1023 path) sub Z) (walk_entries name es))"
| "walk_entries name (D_File f # es) Z =
     bindE (add_zone_file (name @ ''/'' @ f) Z) (walk_entries name es)"

section \<open>The commands\<close>

text \<open>The strings of the two command elements, with the tables behind them.\<close>

record tz_commands =
  set_string :: string
  set_doc :: string
  no_string :: string
  no_doc :: string
  zone_table :: zone_db

definition posix_dir :: string where "posix_dir = ''/usr/share/zoneinfo/posix''"

text \<open>
  \<open>system_install_timezone_set_command\<close>: \<open>allocs\<close> tells which of \<open>cmd\<close>, \<open>help\<close>, \<open>cmd_no_form\<close> and
  \<open>help_no_form\<close> were allocated, \<open>doc\<close> and \<open>doc_no\<close> are the help texts given with the commands. The
  last \<open>strncpy\<close> writes over the beginning of \<open>help_no_form\<close> and adds no terminator.
\<close>

definition system_install_timezone_set_command ::
  "bool \<times> bool \<times> bool \<times> bool \<Rightarrow> string \<Rightarrow> string \<Rightarrow> dirent list option \<Rightarrow> fault + (int \<times> tz_commands option)" where
  "system_install_timezone_set_command allocs doc doc_no dir =
     (case allocs of (cmd_ok, help_ok, cmd_no_ok, help_no_ok) \<Rightarrow>
        if \<not> cmd_ok \<and> \<not> help_ok \<and> \<not> cmd_no_ok \<and> \<not> help_no_ok then Inr (-1, None)
        else if \<not> cmd_ok \<or> \<not> help_ok \<or> \<not> cmd_no_ok \<or> \<not> help_no_ok then Inl Null_Deref
        else let help_no = snprintf_str MAX_TIMEZONES_HELP_SIZE doc_no
             in bindE (find_posix_timezones_and_add_to_list posix_dir dir
                         \<lparr>list_of_zones = [], list_of_zones_caps = [], zcmd = ''timezone set ('',
                          zhelp = snprintf_str MAX_TIMEZONES_HELP_SIZE doc\<rparr>) (\<lambda>Z.
                bindE (strcat MAX_TIMEZONE_CMD_SIZE (zcmd Z) '')'') (\<lambda>cmd.
                bindE (strcat MAX_TIMEZONE_CMD_SIZE ''no '' cmd) (\<lambda>cmd_no.
                  Inr (0, Some \<lparr>set_string = cmd, set_doc = zhelp Z, no_string = cmd_no,
                                no_doc = zhelp Z @ drop (length (zhelp Z)) help_no,
                                zone_table = Z\<lparr>zcmd := cmd\<rparr>\<rparr>)))))"

section \<open>Setting the zone\<close>

datatype cmd_result = CMD_SUCCESS | CMD_ERR_NO_MATCH

text \<open>The index found, or -1, and what is left in \<open>timezone_info\<close>.\<close>

fun translate_from :: "int \<Rightarrow> string list \<Rightarrow> string \<Rightarrow> int \<times> string" where
  "translate_from i [] timezone_cmd = (-1, [])"
| "translate_from i (z # zs) timezone_cmd =
     (if z = timezone_cmd then (i, z) else translate_from (i + 1) zs timezone_cmd)"

definition translate_cmd_to_filepath :: "zone_db \<Rightarrow> string \<Rightarrow> int \<times> string" where
  "translate_cmd_to_filepath Z timezone_cmd = translate_from 0 (list_of_zones Z) timezone_cmd"

text \<open>
  \<open>cli_set_timezone\<close>: \<open>start_ok\<close> tells whether a transaction can be begun and \<open>committed\<close> whether it
  goes through. The name from the database is copied into 100 bytes, the argument into 500; a string
  column without a value has no keys to read. \<open>nl\<close> is \<open>VTY_NEWLINE\<close>; the value is the result, what is
  printed and the database.
\<close>

definition cli_set_timezone ::
  "('db, 'm) ovs_lib \<Rightarrow> zone_db \<Rightarrow> string \<Rightarrow> bool \<Rightarrow> bool \<Rightarrow> string \<Rightarrow> bool \<Rightarrow> 'db \<Rightarrow>
   fault + (cmd_result \<times> string \<times> 'db)" where
  "cli_set_timezone L Z nl start_ok committed timezone_info no_flags db =
     (case idl_rows L T_System db of
        [] \<Rightarrow> Inr (CMD_SUCCESS, [], db)
      | sys # _ \<Rightarrow>
          if \<not> start_ok then Inr (CMD_SUCCESS, [], db)
          else case get_str L sys ''timezone'' db of
                 None \<Rightarrow> Inl Null_Deref
               | Some tz \<Rightarrow>
                   if MAX_TIMEZONE_NAME_SIZE \<le> length tz then Inl Out_Of_Bounds
                   else let from_ovsdb = tolower_str tz
                        in if no_flags \<and> from_ovsdb \<noteq> timezone_info
                           then Inr (CMD_ERR_NO_MATCH, ''Timezone configured is '' @ from_ovsdb @ nl, db)
                           else if \<not> no_flags \<and> 500 \<le> length timezone_info then Inl Out_Of_Bounds
                           else let timezone_cmd = (if no_flags then DEFAULT_TIMEZONE else timezone_info);
                                    (ret_val, timezone) = translate_cmd_to_filepath Z timezone_cmd
                                in if ret_val < 0
                                   then Inr (CMD_ERR_NO_MATCH,
                                     ''Invalid timezone specified, please use a valid timezone'' @ nl, db)
                                   else let caps = list_of_zones_caps Z ! nat ret_val
                                        in if 500 \<le> length posix_dir + length caps then Inl Out_Of_Bounds
                                           else Inr (CMD_SUCCESS, [],
                                             if committed then idl_set L sys ''timezone'' (VStr caps) db else db))"

definition cli_platform_timezone_set ::
  "('db, 'm) ovs_lib \<Rightarrow> zone_db \<Rightarrow> string \<Rightarrow> bool \<Rightarrow> bool \<Rightarrow> string \<Rightarrow> 'db \<Rightarrow> fault + (cmd_result \<times> string \<times> 'db)" where
  "cli_platform_timezone_set L Z nl start_ok committed argv0 db = cli_set_timezone L Z nl start_ok committed argv0 False db"

definition cli_platform_timezone_set_no_form ::
  "('db, 'm) ovs_lib \<Rightarrow> zone_db \<Rightarrow> string \<Rightarrow> bool \<Rightarrow> bool \<Rightarrow> string \<Rightarrow> 'db \<Rightarrow> fault + (cmd_result \<times> string \<times> 'db)" where
  "cli_platform_timezone_set_no_form L Z nl start_ok committed argv0 db = cli_set_timezone L Z nl start_ok committed argv0 True db"

text \<open>
  The callback of the running configuration, which the sources have twice: what it prints. The name
  is copied into 200 bytes.
\<close>

definition vtysh_config_context_system_callback :: "('db, 'm) ovs_lib \<Rightarrow> 'db \<Rightarrow> fault + string list" where
  "vtysh_config_context_system_callback L db =
     (case idl_rows L T_System db of
        [] \<Rightarrow> Inr []
      | sys # _ \<Rightarrow>
          (case get_str L sys ''timezone'' db of
             None \<Rightarrow> Inl Null_Deref
           | Some tz \<Rightarrow>
               if 200 \<le> length tz then Inl Out_Of_Bounds else Inr [''timezone set '' @ tolower_str tz]))"

definition vtysh_config_context_timezone_callback :: "('db, 'm) ovs_lib \<Rightarrow> 'db \<Rightarrow> fault + string list" where
  "vtysh_config_context_timezone_callback L db =
     (case idl_rows L T_System db of
        [] \<Rightarrow> Inr []
      | sys # _ \<Rightarrow>
          (case get_str L sys ''timezone'' db of
             None \<Rightarrow> Inl Null_Deref
           | Some tz \<Rightarrow>
               if 200 \<le> length tz then Inl Out_Of_Bounds else Inr [''timezone set '' @ tolower_str tz]))"

section \<open>Termination of the path loop\<close>

lemma strstr_Some: "strstr h n = Some i \<Longrightarrow> i + length n \<le> length h"
proof (induction h n arbitrary: i rule: strstr.induct)
  case (1 h n)
  then show ?case
    by (subst (asm) strstr.simps) (auto dest: prefix_length_le split: if_splits list.splits)
qed

lemma strstr_Nil [simp]: "strstr h [] = Some 0"
  by (simp add: strstr.simps)

lemma strstr_append [simp]: "strstr (n @ h) n = Some 0"
  by (simp add: strstr.simps)

lemma remove_returns:
  assumes "base \<noteq> []"
  shows "\<exists>r. remove_base_path s base = Some r \<and> length r \<le> length s"
proof (induction s rule: measure_induct_rule [of length])
  case (less s)
  show ?case
  proof (cases "strstr s base")
    case None
    then show ?thesis by (simp add: remove_base_path.simps)
  next
    case (Some i)
    then have i: "i + length base \<le> length s" by (rule strstr_Some)
    with assms have "length (drop (i + length base) s) < length s" by (cases base) auto
    from less [OF this] obtain r where r: "remove_base_path (drop (i + length base) s) base = Some r"
      "length r \<le> length s - (i + length base)" by auto
    with Some have "remove_base_path s base = Some (take i s @ r)"
      by (subst remove_base_path.simps) simp
    then show ?thesis using r(2) i by simp
  qed
qed

lemma remove_needs_base:
  assumes ret: "remove_base_path s base = Some r"
  shows "base \<noteq> []"
proof (rule remove_base_path.raw_induct [where P = "\<lambda>s base r. base \<noteq> []", OF _ ret])
  fix f full_path base r
  assume "\<And>s base r. f s base = Some r \<Longrightarrow> base \<noteq> []"
    and "(case strstr full_path base of None \<Rightarrow> Some full_path
       | Some i \<Rightarrow> Option.bind (f (drop (i + length base) full_path) base) (\<lambda>rest. Some (take i full_path @ rest))) = Some r"
  then show "base \<noteq> []" by (cases base) (auto split: Option.bind_splits)
qed

text \<open>The path of a file below the base directory loses the base path.\<close>

lemma remove_base_prefix:
  assumes "strstr z base = None"
  shows "remove_base_path (base @ z) base = Some z"
  using assms by (simp add: remove_base_path.simps)

text \<open>
  Claim C28. The loop that removes the base path ends for every string exactly when the base path is
  not empty, and then never makes the string longer.
\<close>

theorem remove_base_path_terminates:
  "(\<forall>s. \<exists>r. remove_base_path s base = Some r \<and> length r \<le> length s) \<longleftrightarrow> base \<noteq> []"
  using remove_returns remove_needs_base by blast

section \<open>The walk over the tree\<close>

text \<open>The paths of the files, in the order of the walk, and the bound on the paths of directories.\<close>

fun dir_files :: "string \<Rightarrow> dirent list option \<Rightarrow> string list"
  and tree_files :: "string \<Rightarrow> dirent list \<Rightarrow> string list" where
  "dir_files name None = []"
| "dir_files name (Some es) = tree_files name es"
| "tree_files name [] = []"
| "tree_files name (D_Dir d sub # es) =
     (if d = ''.'' \<or> d = ''..'' then [] else dir_files (name @ ''/'' @ d) sub) @ tree_files name es"
| "tree_files name (D_File f # es) = (name @ ''/'' @ f) # tree_files name es"

fun dir_fits :: "string \<Rightarrow> dirent list option \<Rightarrow> bool"
  and tree_fits :: "string \<Rightarrow> dirent list \<Rightarrow> bool" where
  "dir_fits name None \<longleftrightarrow> True"
| "dir_fits name (Some es) \<longleftrightarrow> tree_fits name es"
| "tree_fits name [] \<longleftrightarrow> True"
| "tree_fits name (D_Dir d sub # es) \<longleftrightarrow>
     length (name @ ''/'' @ d) \<le> 1022 \<and> (d = ''.'' \<or> d = ''..'' \<or> dir_fits (name @ ''/'' @ d) sub) \<and> tree_fits name es"
| "tree_fits name (D_File f # es) \<longleftrightarrow> tree_fits name es"

lemma walk_flat:
  "dir_fits name dir \<Longrightarrow>
     find_posix_timezones_and_add_to_list name dir Z = foldE add_zone_file (dir_files name dir) Z"
  "tree_fits name es \<Longrightarrow> walk_entries name es Z = foldE add_zone_file (tree_files name es) Z"
proof (induction name dir Z and name es Z
    rule: find_posix_timezones_and_add_to_list_walk_entries.induct)
  case (4 name d sub es Z)
  then show ?case by (auto simp: Let_def foldE_append snprintf_str_def intro!: bindE_cong)
next
  case (5 name f es Z)
  then show ?case by (auto intro!: bindE_cong)
qed simp_all

text \<open>
  The recursive walk over the directory tree does what a walk over the flat list of its
  files' paths does, faults included, as long as the paths of the directories fit their buffer.
\<close>

lemma zone_walk_flat:
  assumes "dir_fits name dir"
  shows "find_posix_timezones_and_add_to_list name dir Z = foldE add_zone_file (dir_files name dir) Z"
  using walk_flat(1) [OF assms] .

section \<open>The table and the command\<close>

text \<open>The names of the zones, relative to the base directory.\<close>

definition zone_names :: "dirent list option \<Rightarrow> string list" where
  "zone_names dir = map (drop (length posix_path)) (dir_files posix_dir dir)"

definition zone_ok :: "string \<Rightarrow> bool" where
  "zone_ok z \<longleftrightarrow> length z \<le> 72 \<and> strstr z posix_path = None"

lemma length_posix [simp]: "length posix_path = 26" "length posix_dir = 25"
  by (simp_all add: posix_path_def posix_dir_def)

lemma files_below:
  "f \<in> set (dir_files name dir) \<Longrightarrow> prefix (name @ ''/'') f"
  "f \<in> set (tree_files name es) \<Longrightarrow> prefix (name @ ''/'') f"
  by (induction name dir and name es rule: dir_files_tree_files.induct)
     (auto simp: prefix_def split: if_splits)

lemma files_names: "dir_files posix_dir dir = map ((@) posix_path) (zone_names dir)"
proof -
  have "posix_path @ drop (length posix_path) f = f" if "f \<in> set (dir_files posix_dir dir)" for f
    using files_below(1) [OF that] by (auto simp: posix_path_def posix_dir_def prefix_def)
  then show ?thesis by (simp add: zone_names_def comp_def map_idI)
qed

lemmas size_defs = MAX_TIMEZONES_def MAX_TIMEZONE_NAME_SIZE_def MAX_TIMEZONE_CMD_SIZE_def MAX_TIMEZONES_HELP_SIZE_def

definition add_zones :: "string list \<Rightarrow> zone_db \<Rightarrow> zone_db" where
  "add_zones zs Z = Z\<lparr>list_of_zones := list_of_zones Z @ map tolower_str zs,
     list_of_zones_caps := list_of_zones_caps Z @ zs,
     zcmd := zcmd Z @ concat (map (\<lambda>z. tolower_str z @ '' | '') zs),
     zhelp := zhelp Z @ concat (map (\<lambda>z. z @ '' Zone '' @ [CHR 0x0A]) zs)\<rparr>"

lemma add_zone_fits:
  assumes "zone_ok z" "length (list_of_zones Z) < 900" "length (zcmd Z) + 75 < 90000" "length (zhelp Z) + 79 < 90000"
  shows "add_zone_file (posix_path @ z) Z = Inr (add_zones [z] Z)"
proof -
  have "remove_base_path (posix_path @ z) posix_path = Some z"
    using assms(1) by (simp add: zone_ok_def remove_base_prefix)
  then show ?thesis
    using assms
    by (simp add: add_zone_file_def zone_ok_def add_info_to_cmd_options_def strcat_def populate_zone_db_def
          size_defs add_zones_def)
qed

lemma add_zones_fit:
  assumes "list_all zone_ok zs" "length (list_of_zones Z) + length zs \<le> 900"
    and "length (zcmd Z) + 75 * length zs < 90000" "length (zhelp Z) + 79 * length zs < 90000"
  shows "foldE add_zone_file (map ((@) posix_path) zs) Z = Inr (add_zones zs Z)"
  using assms
proof (induction zs arbitrary: Z)
  case (Cons z zs)
  then have "add_zone_file (posix_path @ z) Z = Inr (add_zones [z] Z)" "length z \<le> 72"
    by (auto intro!: add_zone_fits simp: zone_ok_def)
  moreover have "add_zones zs (add_zones [z] Z) = add_zones (z # zs) Z" by (simp add: add_zones_def)
  ultimately show ?case using Cons.prems Cons.IH [of "add_zones [z] Z"] by (simp add: add_zones_def)
qed (simp add: add_zones_def)

lemma length_cmd_text: "list_all zone_ok zs \<Longrightarrow> length (concat (map (\<lambda>z. tolower_str z @ '' | '') zs)) \<le> 75 * length zs"
  by (induction zs) (auto simp: zone_ok_def)

text \<open>The installation as a function of the names.\<close>

lemma install_fits:
  assumes "dir_fits posix_dir dir" "list_all zone_ok (zone_names dir)" "length (zone_names dir) \<le> 900" "length doc \<le> 18000"
    and "cmd = ''timezone set ('' @ concat (map (\<lambda>z. tolower_str z @ '' | '') (zone_names dir)) @ '')''"
    and "help = doc @ concat (map (\<lambda>z. z @ '' Zone '' @ [CHR 0x0A]) (zone_names dir))"
  shows "\<exists>tail. system_install_timezone_set_command (True, True, True, True) doc doc_no dir =
    Inr (0, Some \<lparr>set_string = cmd, set_doc = help, no_string = ''no '' @ cmd, no_doc = help @ tail,
      zone_table = \<lparr>list_of_zones = map tolower_str (zone_names dir), list_of_zones_caps = zone_names dir,
        zcmd = cmd, zhelp = help\<rparr>\<rparr>)"
proof -
  let ?Z0 = "\<lparr>list_of_zones = [], list_of_zones_caps = [], zcmd = ''timezone set ('', zhelp = doc\<rparr>"
  have "find_posix_timezones_and_add_to_list posix_dir dir ?Z0 = Inr (add_zones (zone_names dir) ?Z0)"
    using walk_flat(1) [OF assms(1)] add_zones_fit [OF assms(2), of ?Z0] assms(3,4) by (simp add: files_names)
  moreover have "snprintf_str MAX_TIMEZONES_HELP_SIZE doc = doc" using assms(4) by (simp add: size_defs)
  ultimately show ?thesis
    using length_cmd_text [OF assms(2)] assms(3,5,6)
    by (simp add: system_install_timezone_set_command_def add_zones_def strcat_def size_defs Let_def)
qed

text \<open>
  Claim C27. With at most 900 zone files whose paths have at most 98 characters, directories whose
  paths have at most 1022 and a help text of at most 18000, the two commands are installed without
  leaving any buffer: the table holds every zone of the tree in the order of the walk, in small and in
  original letters; the command offers the former; the \<open>no\<close> form is the same command after \<open>no\<close>; and
  its help begins like that of the command, not with the help it had.
\<close>

theorem timezone_commands_installed:
  assumes "dir_fits posix_dir dir" "list_all zone_ok (zone_names dir)" "length (zone_names dir) \<le> 900" "length doc \<le> 18000"
    and "cmd = ''timezone set ('' @ concat (map (\<lambda>z. tolower_str z @ '' | '') (zone_names dir)) @ '')''"
    and "help = doc @ concat (map (\<lambda>z. z @ '' Zone '' @ [CHR 0x0A]) (zone_names dir))"
  shows "\<exists>tail. system_install_timezone_set_command (True, True, True, True) doc doc_no dir =
    Inr (0, Some \<lparr>set_string = cmd, set_doc = help, no_string = ''no '' @ cmd, no_doc = help @ tail,
      zone_table = \<lparr>list_of_zones = map tolower_str (zone_names dir), list_of_zones_caps = zone_names dir,
        zcmd = cmd, zhelp = help\<rparr>\<rparr>)"
  using install_fits [OF assms] .

section \<open>The table stays well formed\<close>

definition zone_db_wf :: "zone_db \<Rightarrow> bool" where
  "zone_db_wf Z \<longleftrightarrow> list_of_zones Z = map tolower_str (list_of_zones_caps Z) \<and>
     length (list_of_zones Z) \<le> MAX_TIMEZONES \<and> list_all (\<lambda>c. length c < MAX_TIMEZONE_NAME_SIZE) (list_of_zones_caps Z)"

lemma add_zone_wf: "add_zone_file full Z = Inr Z' \<Longrightarrow> zone_db_wf Z \<Longrightarrow> zone_db_wf Z'"
  by (auto simp: add_zone_file_def add_info_to_cmd_options_def populate_zone_db_def strcat_def zone_db_wf_def
        bindE_eq_Inr split: if_splits option.splits)

text \<open>What every file keeps, the walk keeps.\<close>

lemma walk_keeps:
  assumes one: "\<And>full Z Z'. add_zone_file full Z = Inr Z' \<Longrightarrow> P Z \<Longrightarrow> P Z'"
  shows "find_posix_timezones_and_add_to_list name dir Z = Inr Z' \<Longrightarrow> P Z \<Longrightarrow> P Z'"
    and "walk_entries name es Z = Inr Z' \<Longrightarrow> P Z \<Longrightarrow> P Z'"
proof (induction name dir Z and name es Z arbitrary: Z' and Z'
    rule: find_posix_timezones_and_add_to_list_walk_entries.induct)
  case (4 name d sub es Z)
  then show ?case by (auto simp: Let_def bindE_eq_Inr split: if_splits)
next
  case (5 name f es Z)
  then show ?case by (auto simp: bindE_eq_Inr dest: one)
qed simp_all

lemma walk_wf: "find_posix_timezones_and_add_to_list name dir Z = Inr Z' \<Longrightarrow> zone_db_wf Z \<Longrightarrow> zone_db_wf Z'"
  by (rule walk_keeps(1) [of zone_db_wf, OF add_zone_wf])

text \<open>The command under construction offers the zones read so far.\<close>

definition offers :: "string list \<Rightarrow> string" where
  "offers zs = ''timezone set ('' @ concat (map (\<lambda>z. z @ '' | '') zs)"

lemma add_zone_offers:
  "add_zone_file full Z = Inr Z' \<Longrightarrow> zcmd Z = offers (list_of_zones Z) \<Longrightarrow> zcmd Z' = offers (list_of_zones Z')"
  by (auto simp: add_zone_file_def add_info_to_cmd_options_def populate_zone_db_def strcat_def offers_def
        bindE_eq_Inr split: if_splits option.splits)

lemma installed_table:
  assumes "system_install_timezone_set_command allocs doc doc_no dir = Inr (rc, Some T)"
  shows "rc = 0 \<and> zone_db_wf (zone_table T) \<and> set_string T = offers (list_of_zones (zone_table T)) @ '')'' \<and>
    no_string T = ''no '' @ set_string T"
proof -
  let ?Z0 = "\<lparr>list_of_zones = [], list_of_zones_caps = [], zcmd = ''timezone set ('', zhelp = snprintf_str MAX_TIMEZONES_HELP_SIZE doc\<rparr>"
  from assms obtain Z where walk: "find_posix_timezones_and_add_to_list posix_dir dir ?Z0 = Inr Z"
    and T: "rc = 0" "set_string T = zcmd Z @ '')''" "no_string T = ''no '' @ set_string T" "zone_table T = Z\<lparr>zcmd := set_string T\<rparr>"
    by (auto simp: system_install_timezone_set_command_def bindE_eq_Inr Let_def strcat_def split: if_splits prod.splits)
  have "zone_db_wf Z" by (rule walk_wf [OF walk]) (simp add: zone_db_wf_def)
  moreover have "zcmd Z = offers (list_of_zones Z)"
    using walk_keeps(1) [of "\<lambda>Z. zcmd Z = offers (list_of_zones Z)", OF add_zone_offers walk] by (simp add: offers_def)
  moreover have "zone_db_wf (Z\<lparr>zcmd := c\<rparr>) = zone_db_wf Z" for c by (simp add: zone_db_wf_def)
  ultimately show ?thesis using T by simp
qed

section \<open>Setting the zone and the running configuration\<close>

lemma translate_None:
  "find (\<lambda>c. tolower_str c = cmd) caps = None \<Longrightarrow> translate_from i (map tolower_str caps) cmd = (-1, [])"
  by (induction caps arbitrary: i) (auto split: if_splits)

lemma translate_Some:
  "find (\<lambda>c. tolower_str c = cmd) caps = Some c \<Longrightarrow>
   \<exists>n < length caps. translate_from i (map tolower_str caps) cmd = (i + int n, cmd) \<and> caps ! n = c"
proof (induction caps arbitrary: i)
  case (Cons d caps)
  show ?case
  proof (cases "tolower_str d = cmd")
    case True
    then show ?thesis using Cons.prems by (intro exI [of _ 0]) simp
  next
    case False
    with Cons obtain n where "n < length caps" "translate_from (i + 1) (map tolower_str caps) cmd = (i + 1 + int n, cmd)"
      "caps ! n = c" by fastforce
    then show ?thesis using False by (intro exI [of _ "Suc n"]) simp
  qed
qed simp

text \<open>
  On a well-formed table, setting a zone stores the first zone whose name in small letters is the one given;
  unsetting it stores the zone named \<open>utc\<close> in small letters if the name given is the configured one; an
  unknown zone, or unsetting another zone than the configured one, is an error that leaves the database alone.
  A commit that fails is reported as success.
\<close>

lemma set_timezone:
  assumes "zone_db_wf Z" "idl_rows L T_System db = sys # rest" "get_str L sys ''timezone'' db = Some tz"
    and "length tz < MAX_TIMEZONE_NAME_SIZE" "length info < 500"
  shows "cli_set_timezone L Z nl True committed info no_flags db = Inr
    (if no_flags \<and> tolower_str tz \<noteq> info then (CMD_ERR_NO_MATCH, ''Timezone configured is '' @ tolower_str tz @ nl, db)
     else case find (\<lambda>c. tolower_str c = (if no_flags then DEFAULT_TIMEZONE else info)) (list_of_zones_caps Z) of
            None \<Rightarrow> (CMD_ERR_NO_MATCH, ''Invalid timezone specified, please use a valid timezone'' @ nl, db)
          | Some c \<Rightarrow> (CMD_SUCCESS, [], if committed then idl_set L sys ''timezone'' (VStr c) db else db))"
proof -
  let ?caps = "list_of_zones_caps Z" and ?cmd = "if no_flags then DEFAULT_TIMEZONE else info"
  have Z: "list_of_zones Z = map tolower_str ?caps" "list_all (\<lambda>c. length c < 100) ?caps"
    using assms(1) by (simp_all add: zone_db_wf_def size_defs)
  have tz: "\<not> MAX_TIMEZONE_NAME_SIZE \<le> length tz" using assms(4) by simp
  show ?thesis
  proof (cases "find (\<lambda>c. tolower_str c = ?cmd) ?caps")
    case None
    then show ?thesis
      using translate_None [OF None] assms(2,3,5) tz
      by (simp add: cli_set_timezone_def translate_cmd_to_filepath_def Z(1) Let_def)
  next
    case (Some c)
    obtain n where n: "n < length ?caps" "translate_from 0 (map tolower_str ?caps) ?cmd = (int n, ?cmd)" "?caps ! n = c"
      using translate_Some [OF Some, of 0] by auto
    moreover have "length c < 100" using n(1,3) Z(2) by (auto simp: list_all_length)
    ultimately show ?thesis
      using Some assms(2,3,5) tz
      by (simp add: cli_set_timezone_def translate_cmd_to_filepath_def Z(1) Let_def)
  qed
qed

lemma set_timezone_success:
  assumes "zone_db_wf Z" "idl_rows L T_System db = sys # rest" "get_str L sys ''timezone'' db = Some tz"
    and "length tz < MAX_TIMEZONE_NAME_SIZE"
    and ok: "cli_set_timezone L Z nl True True info False db = Inr (CMD_SUCCESS, out, db')"
  shows "\<exists>c \<in> set (list_of_zones_caps Z). tolower_str c = info \<and> db' = idl_set L sys ''timezone'' (VStr c) db"
proof -
  have "length info < 500"
    using ok assms(2-4) by (cases "length info < 500") (simp_all add: cli_set_timezone_def Let_def)
  from set_timezone [OF assms(1-4) this, of nl True False] ok show ?thesis
    by (auto split: option.splits dest!: find_Some_in)
qed

text \<open>Whatever was typed, a command that returns has stored a zone of the table or nothing.\<close>

lemma set_timezone_effect:
  assumes "zone_db_wf Z" "cli_set_timezone L Z nl start_ok committed info no_flags db = Inr (res, out, db')"
  shows "db' = db \<or> (\<exists>sys rest c. idl_rows L T_System db = sys # rest \<and> c \<in> set (list_of_zones_caps Z) \<and>
    db' = idl_set L sys ''timezone'' (VStr c) db)"
proof (cases "db' = db")
  case False
  with assms(2) obtain sys rest tz where sys: "idl_rows L T_System db = sys # rest" "start_ok"
    "get_str L sys ''timezone'' db = Some tz" "length tz < MAX_TIMEZONE_NAME_SIZE"
    by (auto simp: cli_set_timezone_def split: list.splits option.splits if_splits)
  have "length info < 500"
  proof (rule ccontr)
    assume long: "\<not> length info < 500"
    then have "tolower_str tz \<noteq> info" using sys(4) by (auto simp: size_defs)
    with long sys False assms(2) show False
      by (auto simp: cli_set_timezone_def Let_def split: if_splits)
  qed
  from set_timezone [OF assms(1) sys(1,3,4) this, of nl committed no_flags] assms(2) sys(2) False
  obtain c where "c \<in> set (list_of_zones_caps Z)" "db' = idl_set L sys ''timezone'' (VStr c) db"
    by (auto split: if_splits option.splits dest: find_Some_in)
  with sys(1) show ?thesis by blast
qed simp

lemma find_zone:
  assumes "distinct (map tolower_str caps)" "c \<in> set caps"
  shows "find (\<lambda>d. tolower_str d = tolower_str c) caps = Some c"
  using assms by (induction caps) (auto simp: image_iff)

text \<open>
  Claim C8. The running configuration is one line that, entered on another system with the same
  table of zones, whose names differ in more than the case of letters, stores the same zone there,
  in its original letters, and the daemon's next update links the file of that zone.
\<close>

theorem running_config_restores_zone:
  assumes "ovs_idl L" "zone_db_wf Z" "distinct (list_of_zones Z)" "c \<in> set (list_of_zones_caps Z)"
    and "idl_rows L T_System db = sys # rest" "get_str L sys ''timezone'' db = Some c"
    and "idl_rows L T_System db2 = sys2 # rest2" "get_str L sys2 ''timezone'' db2 = Some tz"
    and "length tz < MAX_TIMEZONE_NAME_SIZE"
  shows "\<exists>zone db3. vtysh_config_context_system_callback L db = Inr [''timezone set '' @ zone] \<and>
    cli_platform_timezone_set L Z nl True True zone db2 = Inr (CMD_SUCCESS, [], db3) \<and>
    get_str L sys2 ''timezone'' db3 = Some c \<and>
    sysd_handle_timezone_update L db3 =
      Inr [Tz_Unlink ''/etc/localtime'', Tz_Symlink (''/usr/share/zoneinfo/posix/'' @ c) ''/etc/localtime'']"
proof -
  let ?db3 = "idl_set L sys2 ''timezone'' (VStr c) db2"
  have Z: "list_of_zones Z = map tolower_str (list_of_zones_caps Z)" "length c < 100"
    using assms(2,4) by (auto simp: zone_db_wf_def size_defs list_all_iff)
  have cb: "vtysh_config_context_system_callback L db = Inr [''timezone set '' @ tolower_str c]"
    using assms(5,6) Z(2) by (simp add: vtysh_config_context_system_callback_def)
  have set: "cli_platform_timezone_set L Z nl True True (tolower_str c) db2 = Inr (CMD_SUCCESS, [], ?db3)"
    using set_timezone [OF assms(2,7-9), of "tolower_str c" nl True False] Z(2)
      find_zone [OF assms(3) [unfolded Z(1)] assms(4)]
    by (simp add: cli_platform_timezone_set_def)
  have "get_str L sys2 ''timezone'' ?db3 = Some c" "idl_rows L T_System ?db3 = sys2 # rest2"
    using ovs_idl.get_same [OF assms(1)] ovs_idl.rows_set [OF assms(1)] assms(7) by simp_all
  with cb set Z(2) show ?thesis
    by (intro exI [of _ "tolower_str c"] exI [of _ ?db3])
       (simp add: sysd_handle_timezone_update_def posix_path_def)
qed

section \<open>Witnesses\<close>

definition ex_tree :: "dirent list option" where
  "ex_tree = Some [D_Dir ''.'' None, D_Dir ''..'' None,
     D_Dir ''Europe'' (Some [D_File ''London'', D_File ''Paris'']), D_File ''UTC'']"

definition ex_cmd :: string where
  "ex_cmd = ''timezone set (europe/london | europe/paris | utc | )''"

definition ex_help :: string where
  "ex_help = ''Help '' @ ''Europe/London Zone '' @ [CHR 0x0A] @ ''Europe/Paris Zone '' @ [CHR 0x0A] @ ''UTC Zone '' @ [CHR 0x0A]"

definition ex_zones :: zone_db where
  "ex_zones = \<lparr>list_of_zones = [''europe/london'', ''europe/paris'', ''utc''],
     list_of_zones_caps = [''Europe/London'', ''Europe/Paris'', ''UTC''], zcmd = ex_cmd, zhelp = ex_help\<rparr>"

lemma ex_tree_fits: "dir_fits posix_dir ex_tree" "list_all zone_ok (zone_names ex_tree)"
  "length (zone_names ex_tree) \<le> 900" "length ''Help '' \<le> 18000"
  by code_simp+

lemma ex_texts:
  "ex_cmd = ''timezone set ('' @ concat (map (\<lambda>z. tolower_str z @ '' | '') (zone_names ex_tree)) @ '')''"
  "ex_help = ''Help '' @ concat (map (\<lambda>z. z @ '' Zone '' @ [CHR 0x0A]) (zone_names ex_tree))"
  by code_simp+

lemma ex_zones_eq:
  "ex_zones = \<lparr>list_of_zones = map tolower_str (zone_names ex_tree), list_of_zones_caps = zone_names ex_tree,
     zcmd = ex_cmd, zhelp = ex_help\<rparr>"
  by code_simp

lemma ex_zones_wf: "zone_db_wf ex_zones" "distinct (list_of_zones ex_zones)"
  by code_simp+

theorem timezone_commands_installed_witness:
  "(\<exists>tail. system_install_timezone_set_command (True, True, True, True) ''Help '' ''No '' ex_tree =
     Inr (0, Some \<lparr>set_string = ex_cmd, set_doc = ex_help, no_string = ''no '' @ ex_cmd, no_doc = ex_help @ tail,
       zone_table = ex_zones\<rparr>)) \<and> ex_cmd = ''timezone set (europe/london | europe/paris | utc | )''"
  using timezone_commands_installed [OF ex_tree_fits ex_texts] unfolding ex_zones_eq ex_cmd_def by simp

theorem running_config_restores_zone_witness:
  "\<exists>zone db3. vtysh_config_context_system_callback mem_lib (mem_set 1 ''timezone'' (VStr ''Europe/Paris'') ex_system) =
      Inr [''timezone set '' @ zone] \<and>
    cli_platform_timezone_set mem_lib ex_zones [CHR 0x0A] True True zone (mem_set 1 ''timezone'' (VStr ''UTC'') ex_system) =
      Inr (CMD_SUCCESS, [], db3) \<and>
    get_str mem_lib 1 ''timezone'' db3 = Some ''Europe/Paris'' \<and>
    sysd_handle_timezone_update mem_lib db3 =
      Inr [Tz_Unlink ''/etc/localtime'', Tz_Symlink ''/usr/share/zoneinfo/posix/Europe/Paris'' ''/etc/localtime'']"
proof -
  have "idl_rows mem_lib T_System (mem_set 1 ''timezone'' v ex_system) = 1 # []"
    "get_str mem_lib 1 ''timezone'' (mem_set 1 ''timezone'' (VStr s) ex_system) = Some s" for v s
    by (simp_all add: mem_set_def get_str_def ex_system_rows)
  from running_config_restores_zone [OF mem_db.ovs_idl_axioms ex_zones_wf _ this(1,2) this(1,2), of "''Europe/Paris''" "''UTC''"]
  show ?thesis by (simp add: ex_zones_def size_defs)
qed

end
