(* ===== verification/Cli_Show.thy ===== *)
theory Cli_Show
  imports Ovsdb_Init "HOL-Library.Char_ord" "HOL-Library.List_Lexorder"
begin

text \<open>
  The show commands of the CLI plugin (\<open>src/cli/system_vty.c\<close>): \<open>show system\<close>, which prints the FRU
  information the daemon left in the Subsystem row and the fans, LEDs, power supplies and temperature
  sensors, and \<open>show system timezone\<close>. The properties say what a freshly configured database shows,
  that fans and power supplies are listed by name whatever sort the C library has, and when the copies
  made for sorting leave their array.
\<close>

section \<open>Printing\<close>

text \<open>\<open>%-ns\<close>; a null pointer given to it is undefined.\<close>

definition pad :: "nat \<Rightarrow> string \<Rightarrow> string" where
  "pad n s = s @ replicate (n - length s) (CHR '' '')"

definition out_str :: "nat \<Rightarrow> string option \<Rightarrow> fault + string" where
  "out_str n v = (case v of None \<Rightarrow> Inl Null_Deref | Some s \<Rightarrow> Inr (pad n s))"

text \<open>One field of the overview: the label, and the value or a blank.\<close>

definition show_field :: "string \<Rightarrow> nat \<Rightarrow> string option \<Rightarrow> string" where
  "show_field label w v = pad 20 label @ '': '' @ pad w (case v of None \<Rightarrow> '' '' | Some s \<Rightarrow> s)"

definition format_sys_output :: "('db, 'm) ovs_lib \<Rightarrow> string \<Rightarrow> row \<Rightarrow> row \<Rightarrow> 'db \<Rightarrow> string" where
  "format_sys_output L nl pSys pVswitch db =
     (let info = smap_get L (get_smap L pSys ''other_info'' db)
      in show_field ''OpenSwitch Version'' 30 (get_str L pVswitch ''switch_version'' db) @ nl @
         show_field ''Product Name'' 30 (info ''Product Name'') @ nl @ nl @
         show_field ''Vendor'' 30 (info ''vendor'') @ nl @
         show_field ''Platform'' 30 (info ''platform_name'') @ nl @
         show_field ''Manufacturer'' 20 (info ''manufacturer'') @ nl @
         show_field ''Manufacturer Date'' 20 (info ''manufacture_date'') @ nl @ nl @
         show_field ''Serial Number'' 20 (info ''serial_number'') @
         show_field ''Label Revision'' 10 (info ''label_revision'') @ nl @ nl @
         show_field ''ONIE Version'' 20 (info ''onie_version'') @
         show_field ''DIAG Version'' 10 (info ''diag_version'') @ nl @
         show_field ''Base MAC Address'' 20 (info ''base_mac_address'') @
         show_field ''Number of MACs'' 5 (info ''number_of_macs'') @ nl @
         show_field ''Interface Count'' 20 (info ''interface_count'') @
         show_field ''Max Interface Speed'' 6 (info ''max_interface_speed'') @ ''Mbps'' @ nl)"

section \<open>Sorting by name\<close>

text \<open>The sign of \<open>strcmp\<close>, by unsigned bytes.\<close>

fun strcmp :: "string \<Rightarrow> string \<Rightarrow> int" where
  "strcmp [] [] = 0"
| "strcmp [] (d # ds) = - int (of_char d)"
| "strcmp (c # cs) [] = int (of_char c)"
| "strcmp (c # cs) (d # ds) = (if c = d then strcmp cs ds else int (of_char c) - int (of_char d))"

definition name_of :: "('db, 'm) ovs_lib \<Rightarrow> 'db \<Rightarrow> row \<Rightarrow> string" where
  "name_of L db r = (case get_str L r ''name'' db of Some n \<Rightarrow> cstr n | None \<Rightarrow> [])"

definition compare_fan :: "('db, 'm) ovs_lib \<Rightarrow> 'db \<Rightarrow> row \<Rightarrow> row \<Rightarrow> int" where
  "compare_fan L db a b = strcmp (name_of L db a) (name_of L db b)"

definition compare_psu :: "('db, 'm) ovs_lib \<Rightarrow> 'db \<Rightarrow> row \<Rightarrow> row \<Rightarrow> int" where
  "compare_psu L db a b = strcmp (name_of L db a) (name_of L db b)"

text \<open>
  \<open>calloc\<close> for the number the Subsystem row refers to, then one copy for each row of the table: a table
  with more rows is copied past the array, one with fewer leaves structures of zeros, whose names are
  null pointers that are compared or printed. A row without a name is compared as a null pointer.
\<close>

definition copy_rows :: "('db, 'm) ovs_lib \<Rightarrow> bool \<Rightarrow> nat \<Rightarrow> row list \<Rightarrow> 'db \<Rightarrow> fault + row list" where
  "copy_rows L alloc_ok n rows db =
     (if \<not> alloc_ok \<and> rows \<noteq> [] then Inl Null_Deref
      else if n < length rows then Inl Out_Of_Bounds
      else if length rows < n \<or> (\<exists>r \<in> set rows. get_str L r ''name'' db = None) then Inl Null_Deref
      else Inr rows)"

section \<open>The parts of the report\<close>

definition fans_title :: "string \<Rightarrow> string" where
  "fans_title nl = nl @ ''Fan details:'' @ nl @ nl @ pad 15 ''Name'' @ pad 10 ''Speed'' @ pad 10 ''Status'' @ nl @
     ''--------------------------------'' @ nl"

definition leds_title :: "string \<Rightarrow> string" where
  "leds_title nl = nl @ ''LED details:'' @ nl @ nl @ pad 10 ''Name'' @ pad 10 ''State'' @ pad 8 ''Status'' @ nl @
     ''-------------------------'' @ nl"

definition psus_title :: "string \<Rightarrow> string" where
  "psus_title nl = nl @ ''Power supply details:'' @ nl @ nl @ pad 10 ''Name'' @ pad 10 ''Status'' @ nl @
     ''-----------------------'' @ nl"

definition temps_title :: "string \<Rightarrow> string" where
  "temps_title nl = nl @ ''Temperature Sensors:'' @ nl @ nl"

text \<open>The status constants of the schema and what is printed for them.\<close>

record psu_names =
  p_absent :: string
  p_input :: string
  p_output :: string
  p_unknown :: string
  p_ok :: string
  t_absent :: string
  t_input :: string
  t_output :: string
  t_unknown :: string
  t_ok :: string

definition format_psu_string :: "psu_names \<Rightarrow> string option \<Rightarrow> string option" where
  "format_psu_string N status =
     (case status of
        None \<Rightarrow> None
      | Some s \<Rightarrow> Some (if s = p_absent N then t_absent N
                        else if s = p_input N then t_input N
                        else if s = p_output N then t_output N
                        else if s = p_unknown N then t_unknown N
                        else if s = p_ok N then t_ok N
                        else s))"

fun concatE :: "('a \<Rightarrow> fault + string) \<Rightarrow> 'a list \<Rightarrow> fault + string" where
  "concatE f [] = Inr []"
| "concatE f (x # xs) = bindE (f x) (\<lambda>s. bindE (concatE f xs) (\<lambda>t. Inr (s @ t)))"

definition fan_line :: "('db, 'm) ovs_lib \<Rightarrow> string \<Rightarrow> 'db \<Rightarrow> row \<Rightarrow> fault + string" where
  "fan_line L nl db r =
     bindE (out_str 15 (get_str L r ''name'' db)) (\<lambda>a.
     bindE (out_str 10 (get_str L r ''speed'' db)) (\<lambda>b.
     bindE (out_str 10 (get_str L r ''status'' db)) (\<lambda>c. Inr (a @ b @ c @ nl))))"

definition show_fans ::
  "('db, 'm) ovs_lib \<Rightarrow> ((row \<Rightarrow> row \<Rightarrow> int) \<Rightarrow> row list \<Rightarrow> row list) \<Rightarrow> string \<Rightarrow> bool \<Rightarrow> row \<Rightarrow> 'db \<Rightarrow> fault + string" where
  "show_fans L qsort nl alloc_ok pSys db =
     bindE (if get_refs L pSys ''fans'' db \<noteq> []
            then bindE (copy_rows L alloc_ok (length (get_refs L pSys ''fans'' db)) (idl_rows L T_Fan db) db) (\<lambda>a.
                   concatE (fan_line L nl db) (qsort (compare_fan L db) a))
            else Inr []) (\<lambda>lines.
       Inr (fans_title nl @ lines))"

definition led_line :: "('db, 'm) ovs_lib \<Rightarrow> string \<Rightarrow> 'db \<Rightarrow> row \<Rightarrow> fault + string" where
  "led_line L nl db r =
     bindE (out_str 10 (get_str L r ''id'' db)) (\<lambda>a.
     bindE (out_str 10 (get_str L r ''state'' db)) (\<lambda>b.
     bindE (out_str 8 (get_str L r ''status'' db)) (\<lambda>c. Inr (a @ b @ c @ nl))))"

definition show_leds :: "('db, 'm) ovs_lib \<Rightarrow> string \<Rightarrow> row \<Rightarrow> 'db \<Rightarrow> fault + string" where
  "show_leds L nl pSys db =
     bindE (if get_refs L pSys ''leds'' db \<noteq> [] then concatE (led_line L nl db) (idl_rows L T_LED db) else Inr []) (\<lambda>lines.
       Inr (leds_title nl @ lines))"

definition psu_line :: "('db, 'm) ovs_lib \<Rightarrow> psu_names \<Rightarrow> string \<Rightarrow> 'db \<Rightarrow> row \<Rightarrow> fault + string" where
  "psu_line L N nl db r =
     bindE (out_str 15 (get_str L r ''name'' db)) (\<lambda>a.
     bindE (out_str 10 (format_psu_string N (get_str L r ''status'' db))) (\<lambda>b. Inr (a @ b @ nl)))"

definition show_psus ::
  "('db, 'm) ovs_lib \<Rightarrow> psu_names \<Rightarrow> ((row \<Rightarrow> row \<Rightarrow> int) \<Rightarrow> row list \<Rightarrow> row list) \<Rightarrow> string \<Rightarrow> bool \<Rightarrow> row \<Rightarrow> 'db \<Rightarrow>
   fault + string" where
  "show_psus L N qsort nl alloc_ok pSys db =
     bindE (if get_refs L pSys ''power_supplies'' db \<noteq> []
            then bindE (copy_rows L alloc_ok (length (get_refs L pSys ''power_supplies'' db)) (idl_rows L T_Power_Supply db) db) (\<lambda>a.
                   concatE (psu_line L N nl db) (qsort (compare_psu L db) a))
            else Inr []) (\<lambda>lines.
       Inr (psus_title nl @ lines))"

text \<open>\<open>%3.2f\<close> of a quotient of integers, which has no fraction left.\<close>

definition degrees :: "int \<Rightarrow> string" where
  "degrees t = fmt_d (if t < 0 then - (- t div 1000) else t div 1000) @ ''.00''"

definition temp_line :: "('db, 'm) ovs_lib \<Rightarrow> string \<Rightarrow> 'db \<Rightarrow> row \<Rightarrow> fault + string" where
  "temp_line L nl db r =
     bindE (out_str 50 (get_str L r ''location'' db)) (\<lambda>a.
     bindE (out_str 10 (get_str L r ''name'' db)) (\<lambda>b.
       Inr (a @ b @ degrees (get_int L r ''temperature'' db) @ nl)))"

definition show_temps :: "('db, 'm) ovs_lib \<Rightarrow> string \<Rightarrow> row \<Rightarrow> 'db \<Rightarrow> fault + string" where
  "show_temps L nl pSys db =
     bindE (if get_refs L pSys ''temp_sensors'' db \<noteq> []
            then bindE (concatE (temp_line L nl db) (idl_rows L T_Temp_Sensor db)) (\<lambda>lines.
                   Inr (pad 50 ''Location'' @ pad 10 ''Name'' @ pad 18 ''Reading(celsius)'' @ nl @
                        replicate 75 (CHR ''-'') @ nl @ lines))
            else Inr (pad 10 ''Location'' @ pad 10 ''Name'' @ pad 18 ''Reading(celsius)'' @ nl @
                      replicate 36 (CHR ''-'') @ nl)) (\<lambda>body.
       Inr (temps_title nl @ body))"

text \<open>
  \<open>cli_system_get_all\<close>: without a System row the overview is left out; without a Subsystem row it is
  left out as well and the null pointer is read next.
\<close>

definition cli_system_get_all ::
  "('db, 'm) ovs_lib \<Rightarrow> psu_names \<Rightarrow> ((row \<Rightarrow> row \<Rightarrow> int) \<Rightarrow> row list \<Rightarrow> row list) \<Rightarrow> string \<Rightarrow> bool \<times> bool \<Rightarrow> 'db \<Rightarrow>
   fault + string" where
  "cli_system_get_all L N qsort nl allocs db =
     (case idl_rows L T_Subsystem db of
        [] \<Rightarrow> Inl Null_Deref
      | pSys # _ \<Rightarrow>
          let overview = (case idl_rows L T_System db of [] \<Rightarrow> [] | pVswitch # _ \<Rightarrow> format_sys_output L nl pSys pVswitch db)
          in bindE (show_fans L qsort nl (fst allocs) pSys db) (\<lambda>fans.
             bindE (show_leds L nl pSys db) (\<lambda>leds.
             bindE (show_psus L N qsort nl (snd allocs) pSys db) (\<lambda>psus.
             bindE (show_temps L nl pSys db) (\<lambda>temps.
               Inr (overview @ fans @ leds @ psus @ temps))))))"

text \<open>
  \<open>show system timezone\<close>: \<open>status_lines\<close> is what \<open>fgets\<close> reads of the file \<open>timedatectl\<close> wrote, if it
  can be opened; the first loop reads one line beyond the six it counts.
\<close>

definition vtysh_show_system_timezone ::
  "('db, 'm) ovs_lib \<Rightarrow> bool \<Rightarrow> bool \<Rightarrow> string list option \<Rightarrow> 'db \<Rightarrow> fault + (bool \<times> string)" where
  "vtysh_show_system_timezone L start_ok popen_ok status_lines db =
     bindE (case idl_rows L T_System db of
              [] \<Rightarrow> Inr []
            | ovs # _ \<Rightarrow>
                if \<not> start_ok then Inr []
                else case get_str L ovs ''timezone'' db of
                       None \<Rightarrow> Inl Null_Deref
                     | Some tz \<Rightarrow> Inr (''System is configured for timezone : '' @ tz @ [CHR 0x0A])) (\<lambda>head.
       if \<not> popen_ok then Inl Null_Deref
       else case status_lines of
              None \<Rightarrow> Inr (False, head)
            | Some ls \<Rightarrow> Inr (True, head @ concat (drop 7 ls)))"

section \<open>What a configured database shows\<close>

definition fru_report :: "string \<Rightarrow> string option \<Rightarrow> fru_eeprom \<Rightarrow> yaml_port_info \<Rightarrow> string" where
  "fru_report nl version fru cmn =
     show_field ''OpenSwitch Version'' 30 version @ nl @
     show_field ''Product Name'' 30 (Some (or_empty (product_name fru))) @ nl @ nl @
     show_field ''Vendor'' 30 (Some (or_empty (vendor fru))) @ nl @
     show_field ''Platform'' 30 (Some (or_empty (platform_name fru))) @ nl @
     show_field ''Manufacturer'' 20 (Some (or_empty (manufacturer fru))) @ nl @
     show_field ''Manufacturer Date'' 20 (Some (manufacture_date fru)) @ nl @ nl @
     show_field ''Serial Number'' 20 (Some (or_empty (serial_number fru))) @
     show_field ''Label Revision'' 10 (Some (or_empty (label_revision fru))) @ nl @ nl @
     show_field ''ONIE Version'' 20 (Some (or_empty (onie_version fru))) @
     show_field ''DIAG Version'' 10 (Some (or_empty (diag_version fru))) @ nl @
     show_field ''Base MAC Address'' 20 (Some (mac_bytes_str (base_mac_address fru))) @
     show_field ''Number of MACs'' 5 (Some (fmt_d (uint (num_macs fru)))) @ nl @
     show_field ''Interface Count'' 20 (Some (fmt_d (number_ports cmn))) @
     show_field ''Max Interface Speed'' 6 (Some (fmt_d (max_port_speed cmn))) @ ''Mbps'' @ nl"

definition no_parts_report :: "string \<Rightarrow> string" where
  "no_parts_report nl =
     fans_title nl @
     leds_title nl @
     psus_title nl @
     temps_title nl @
       pad 10 ''Location'' @ pad 10 ''Name'' @ pad 18 ''Reading(celsius)'' @ nl @ replicate 36 (CHR ''-'') @ nl"

lemma rows_single: "set xs = {x} \<Longrightarrow> \<exists>ys. xs = x # ys"
  by (cases xs) auto

lemma overview_of_subsystem:
  assumes "describes_subsystem L U dir s cmn sub db"
  shows "format_sys_output L nl sub sys db = fru_report nl (get_str L sys ''switch_version'' db) (sub_fru s) cmn"
proof -
  have "smap_get L (get_smap L sub ''other_info'' db) = map_of (other_info_pairs (sub_fru s) cmn)"
    using assms by (simp add: describes_subsystem_def)
  then show ?thesis by (simp add: format_sys_output_def fru_report_def other_info_pairs_def Let_def)
qed

lemma report_without_parts:
  assumes "configured L K U dir name ds s cmn sys sub db"
  shows "cli_system_get_all L N qsort nl allocs db =
    Inr (fru_report nl (get_str L sys ''switch_version'' db) (sub_fru s) cmn @ no_parts_report nl)"
proof -
  have sub: "describes_subsystem L U dir s cmn sub db" and rows: "set (idl_rows L T_Subsystem db) = {sub}"
    "set (idl_rows L T_System db) = {sys}"
    using assms by (simp_all add: configured_def system_started_def)
  then obtain xs ys where "idl_rows L T_Subsystem db = sub # xs" "idl_rows L T_System db = sys # ys"
    using rows_single by meson
  moreover have "get_refs L sub ''fans'' db = []" "get_refs L sub ''leds'' db = []"
    "get_refs L sub ''power_supplies'' db = []" "get_refs L sub ''temp_sensors'' db = []"
    using sub by (simp_all add: describes_subsystem_def)
  ultimately show ?thesis
    by (simp add: cli_system_get_all_def show_fans_def show_leds_def show_psus_def show_temps_def no_parts_report_def
          overview_of_subsystem [OF sub])
qed

text \<open>
  Claim C15. After the daemon has configured an empty database, and before other daemons have added
  their parts, \<open>show system\<close> runs without fault and shows every FRU value under its label, the number of
  ports and their speed, and empty lists of fans, LEDs, power supplies and sensors: the keys the CLI
  looks up are those the daemon wrote.
\<close>

theorem configured_system_shown:
  assumes "ovs_idl L" "\<And>t. idl_rows L t db = []"
    and "mgmt_intf_name mst = Inr name" "wf_config Y"
    and "intf_cmn_info s = Some cmn" "list_all (port_ok K) (interfaces s)" "distinct (map yp_name (interfaces s))"
  shows "\<exists>db' version. sysd_initial_configure L K U Y dir release (True, True, True) mst [s] db = Inr db' \<and>
    cli_system_get_all L N qsort nl allocs db' = Inr (fru_report nl version (sub_fru s) cmn @ no_parts_report nl)"
proof -
  obtain sys sub db' where "sysd_initial_configure L K U Y dir release (True, True, True) mst [s] db = Inr db'"
    "configured L K U dir name (daemons mst) s cmn sys sub db'"
    using ovs_idl.configured_first [OF assms] by meson
  with report_without_parts [OF this(2)] show ?thesis by meson
qed

section \<open>Fans and power supplies by name\<close>

text \<open>
  The contract of \<open>qsort\<close>: for a comparison that orders its arguments, the same elements in an order
  in which no element is greater than a later one.
\<close>

definition consistent :: "('a \<Rightarrow> 'a \<Rightarrow> int) \<Rightarrow> bool" where
  "consistent cmp \<longleftrightarrow> (\<forall>a b. cmp a b \<le> 0 \<or> cmp b a \<le> 0) \<and> (\<forall>a b c. cmp a b \<le> 0 \<and> cmp b c \<le> 0 \<longrightarrow> cmp a c \<le> 0)"

locale c_qsort =
  fixes qsort :: "('a \<Rightarrow> 'a \<Rightarrow> int) \<Rightarrow> 'a list \<Rightarrow> 'a list"
  assumes mset_qsort: "consistent cmp \<Longrightarrow> mset (qsort cmp xs) = mset xs"
    and sorted_qsort: "consistent cmp \<Longrightarrow> sorted_wrt (\<lambda>a b. cmp a b \<le> 0) (qsort cmp xs)"
begin

lemma qsort_by_key:
  fixes key :: "'a \<Rightarrow> 'k :: linorder"
  assumes cmp: "\<And>a b. cmp a b \<le> 0 \<longleftrightarrow> key a \<le> key b" and inj: "inj_on key (set xs)"
  shows "qsort cmp xs = sort_key key xs"
proof -
  have cons: "consistent cmp" by (auto simp: consistent_def cmp)
  have "sorted (map key (qsort cmp xs))" using sorted_qsort [OF cons] by (simp add: cmp sorted_wrt_map)
  with mset_qsort [OF cons] inj show ?thesis by (metis sort_key_inj_key_eq)
qed

end

text \<open>A sort that keeps the contract.\<close>

fun ins_cmp :: "('a \<Rightarrow> 'a \<Rightarrow> int) \<Rightarrow> 'a \<Rightarrow> 'a list \<Rightarrow> 'a list" where
  "ins_cmp cmp x [] = [x]"
| "ins_cmp cmp x (y # ys) = (if cmp x y \<le> 0 then x # y # ys else y # ins_cmp cmp x ys)"

definition ins_qsort :: "('a \<Rightarrow> 'a \<Rightarrow> int) \<Rightarrow> 'a list \<Rightarrow> 'a list" where
  "ins_qsort cmp xs = foldr (ins_cmp cmp) xs []"

lemma mset_ins_cmp [simp]: "mset (ins_cmp cmp x ys) = add_mset x (mset ys)"
  by (induction ys) auto

lemma set_ins_cmp [simp]: "set (ins_cmp cmp x ys) = insert x (set ys)"
  by (induction ys) auto

lemma consistent_trans: "consistent cmp \<Longrightarrow> cmp a b \<le> 0 \<Longrightarrow> cmp b c \<le> 0 \<Longrightarrow> cmp a c \<le> 0"
  unfolding consistent_def by blast

lemma consistent_total: "consistent cmp \<Longrightarrow> \<not> cmp a b \<le> 0 \<Longrightarrow> cmp b a \<le> 0"
  unfolding consistent_def by blast

lemma sorted_ins_cmp:
  assumes "consistent cmp" "sorted_wrt (\<lambda>a b. cmp a b \<le> 0) ys"
  shows "sorted_wrt (\<lambda>a b. cmp a b \<le> 0) (ins_cmp cmp x ys)"
  using assms(2)
proof (induction ys)
  case (Cons y ys)
  have "cmp x z \<le> 0" if "cmp x y \<le> 0" "z \<in> set ys" for z
    by (rule consistent_trans [OF assms(1) that(1)]) (use Cons.prems that(2) in simp)
  moreover have "cmp y x \<le> 0" if "\<not> cmp x y \<le> 0" using consistent_total [OF assms(1) that] .
  ultimately show ?case using Cons by simp
qed simp

lemma ins_qsort_simps [simp]: "ins_qsort cmp [] = []" "ins_qsort cmp (x # xs) = ins_cmp cmp x (ins_qsort cmp xs)"
  by (simp_all add: ins_qsort_def)

lemma sorted_ins_qsort: "consistent cmp \<Longrightarrow> sorted_wrt (\<lambda>a b. cmp a b \<le> 0) (ins_qsort cmp xs)"
proof (induction xs)
  case (Cons x xs)
  from sorted_ins_cmp [OF Cons.prems Cons.IH [OF Cons.prems], of x] show ?case by (simp only: ins_qsort_simps)
qed simp

lemma mset_ins_qsort: "mset (ins_qsort cmp xs) = mset xs"
  by (induction xs) simp_all

interpretation insq: c_qsort ins_qsort
  by unfold_locales (rule mset_ins_qsort, erule sorted_ins_qsort)

lemma strcmp_le: "CHR 0x00 \<notin> set a \<Longrightarrow> CHR 0x00 \<notin> set b \<Longrightarrow> strcmp a b \<le> 0 \<longleftrightarrow> a \<le> b"
proof (induction a b rule: strcmp.induct)
  case (3 c cs)
  have "(of_char c :: nat) \<noteq> 0" using 3 of_char_eq_iff [of c "CHR 0x00"] by auto
  then show ?case by simp
next
  case (4 c cs d ds)
  have "int (of_char c) - int (of_char d) \<le> 0 \<longleftrightarrow> c < d" if "c \<noteq> d"
    using that by (auto simp: less_char_def order_le_less)
  with 4 show ?case by auto
qed simp_all

lemma name_of_no_NUL: "CHR 0x00 \<notin> set (name_of L db r)"
  by (auto simp: name_of_def cstr_def dest: set_takeWhileD split: option.splits)

lemma compare_le:
  "compare_fan L db a b \<le> 0 \<longleftrightarrow> name_of L db a \<le> name_of L db b"
  "compare_psu L db a b \<le> 0 \<longleftrightarrow> name_of L db a \<le> name_of L db b"
  by (simp_all add: compare_fan_def compare_psu_def strcmp_le name_of_no_NUL)

lemma concatE_map: "\<forall>x \<in> set xs. f x = Inr (g x) \<Longrightarrow> concatE f xs = Inr (concat (map g xs))"
  by (induction xs) simp_all

text \<open>The lines of rows whose columns are all set.\<close>

definition col :: "('db, 'm) ovs_lib \<Rightarrow> 'db \<Rightarrow> row \<Rightarrow> string \<Rightarrow> string" where
  "col L db r c = (case get_str L r c db of None \<Rightarrow> [] | Some s \<Rightarrow> s)"

definition has_cols :: "('db, 'm) ovs_lib \<Rightarrow> 'db \<Rightarrow> string list \<Rightarrow> row \<Rightarrow> bool" where
  "has_cols L db cs r \<longleftrightarrow> list_all (\<lambda>c. get_str L r c db \<noteq> None) cs"

definition fan_text :: "('db, 'm) ovs_lib \<Rightarrow> string \<Rightarrow> 'db \<Rightarrow> row \<Rightarrow> string" where
  "fan_text L nl db r = pad 15 (col L db r ''name'') @ pad 10 (col L db r ''speed'') @ pad 10 (col L db r ''status'') @ nl"

definition psu_text :: "('db, 'm) ovs_lib \<Rightarrow> psu_names \<Rightarrow> string \<Rightarrow> 'db \<Rightarrow> row \<Rightarrow> string" where
  "psu_text L N nl db r =
     pad 15 (col L db r ''name'') @ pad 10 (the (format_psu_string N (Some (col L db r ''status'')))) @ nl"

lemma fan_line_text: "has_cols L db [''name'', ''speed'', ''status''] r \<Longrightarrow> fan_line L nl db r = Inr (fan_text L nl db r)"
  by (auto simp: has_cols_def fan_line_def fan_text_def col_def out_str_def)

lemma psu_line_text: "has_cols L db [''name'', ''status''] r \<Longrightarrow> psu_line L N nl db r = Inr (psu_text L N nl db r)"
  by (auto simp: has_cols_def psu_line_def psu_text_def col_def out_str_def format_psu_string_def)

lemma copy_rows_all:
  assumes "length rows = n" "\<forall>r \<in> set rows. has_cols L db (''name'' # cs) r"
  shows "copy_rows L True n rows db = Inr rows"
  using assms by (auto simp: copy_rows_def has_cols_def)

lemma fans_by_name:
  assumes "c_qsort qsort" "length (get_refs L sub ''fans'' db) = length (idl_rows L T_Fan db)"
    and "distinct (map (name_of L db) (idl_rows L T_Fan db))"
    and cols: "\<forall>r \<in> set (idl_rows L T_Fan db). has_cols L db [''name'', ''speed'', ''status''] r"
  shows "show_fans L qsort nl True sub db =
    Inr (fans_title nl @
      concat (map (fan_text L nl db) (sort_key (name_of L db) (idl_rows L T_Fan db))))"
proof -
  let ?rows = "idl_rows L T_Fan db"
  have sorted: "qsort (compare_fan L db) ?rows = sort_key (name_of L db) ?rows"
    using assms(3) by (intro c_qsort.qsort_by_key [OF assms(1)]) (simp_all add: compare_le distinct_map)
  have "concatE (fan_line L nl db) (sort_key (name_of L db) ?rows) =
      Inr (concat (map (fan_text L nl db) (sort_key (name_of L db) ?rows)))"
    using cols by (intro concatE_map) (simp add: fan_line_text)
  moreover have "copy_rows L True (length ?rows) ?rows db = Inr ?rows"
    by (rule copy_rows_all [OF refl cols])
  ultimately show ?thesis
    using assms(2) sorted by (cases "?rows = []") (auto simp: show_fans_def)
qed

lemma psus_by_name:
  assumes "c_qsort qsort" "length (get_refs L sub ''power_supplies'' db) = length (idl_rows L T_Power_Supply db)"
    and "distinct (map (name_of L db) (idl_rows L T_Power_Supply db))"
    and cols: "\<forall>r \<in> set (idl_rows L T_Power_Supply db). has_cols L db [''name'', ''status''] r"
  shows "show_psus L N qsort nl True sub db =
    Inr (psus_title nl @
      concat (map (psu_text L N nl db) (sort_key (name_of L db) (idl_rows L T_Power_Supply db))))"
proof -
  let ?rows = "idl_rows L T_Power_Supply db"
  have sorted: "qsort (compare_psu L db) ?rows = sort_key (name_of L db) ?rows"
    using assms(3) by (intro c_qsort.qsort_by_key [OF assms(1)]) (simp_all add: compare_le distinct_map)
  have "concatE (psu_line L N nl db) (sort_key (name_of L db) ?rows) =
      Inr (concat (map (psu_text L N nl db) (sort_key (name_of L db) ?rows)))"
    using cols by (intro concatE_map) (simp add: psu_line_text)
  moreover have "copy_rows L True (length ?rows) ?rows db = Inr ?rows"
    by (rule copy_rows_all [OF refl cols])
  ultimately show ?thesis
    using assms(2) sorted by (cases "?rows = []") (auto simp: show_psus_def)
qed

text \<open>
  Claim C38. When the Subsystem row refers to as many fans and power supplies as their tables have rows,
  all with their columns and each table with different names, every \<open>qsort\<close> that keeps its contract
  gives the same report: one line for each row, in the order of their names.
\<close>

theorem parts_listed_by_name:
  assumes "c_qsort qsort" "length (get_refs L sub ''fans'' db) = length (idl_rows L T_Fan db)"
    and "distinct (map (name_of L db) (idl_rows L T_Fan db))"
    and "\<forall>r \<in> set (idl_rows L T_Fan db). has_cols L db [''name'', ''speed'', ''status''] r"
    and "length (get_refs L sub ''power_supplies'' db) = length (idl_rows L T_Power_Supply db)"
    and "distinct (map (name_of L db) (idl_rows L T_Power_Supply db))"
    and "\<forall>r \<in> set (idl_rows L T_Power_Supply db). has_cols L db [''name'', ''status''] r"
  shows "show_fans L qsort nl True sub db =
      Inr (fans_title nl @
        concat (map (fan_text L nl db) (sort_key (name_of L db) (idl_rows L T_Fan db)))) \<and>
    show_psus L N qsort nl True sub db =
      Inr (psus_title nl @
        concat (map (psu_text L N nl db) (sort_key (name_of L db) (idl_rows L T_Power_Supply db))))"
  using fans_by_name [OF assms(1-4)] psus_by_name [OF assms(1,5-7)] by blast

text \<open>
  \<open>show system\<close> reads a null pointer when there is no Subsystem row, and writes past its array
  when the Fan table has more rows than the first Subsystem row refers to, as with a second subsystem.
\<close>

lemma show_system_faults:
  "(idl_rows L T_Subsystem db = [] \<longrightarrow> cli_system_get_all L N qsort nl (True, True) db = Inl Null_Deref) \<and>
   (\<forall>sub rest. idl_rows L T_Subsystem db = sub # rest \<longrightarrow> get_refs L sub ''fans'' db \<noteq> [] \<longrightarrow>
      length (get_refs L sub ''fans'' db) < length (idl_rows L T_Fan db) \<longrightarrow>
      cli_system_get_all L N qsort nl (True, True) db = Inl Out_Of_Bounds)"
  by (simp add: cli_system_get_all_def show_fans_def copy_rows_def)

section \<open>Witnesses\<close>

text \<open>A switch with two fans and one power supply.\<close>

definition ex_parts :: mem_db where
  "ex_parts = \<lparr>mem_rows = (\<lambda>t. if t = T_Subsystem then [1] else if t = T_Fan then [3, 2] else if t = T_Power_Supply then [4] else []),
     mem_cells = (\<lambda>r c. if r = 1 then (if c = ''fans'' then VRefs [2, 3] else if c = ''power_supplies'' then VRefs [4] else VNone)
        else if c = ''name'' then VStr (if r = 2 then ''fan-1'' else if r = 3 then ''fan-2'' else ''psu-1'')
        else if c = ''speed'' then VStr ''slow'' else VStr ''ok'')\<rparr>"

definition ex_psu_names :: psu_names where
  "ex_psu_names = \<lparr>p_absent = ''fault_absent'', p_input = ''fault_input'', p_output = ''fault_output'',
     p_unknown = ''unknown'', p_ok = ''ok'', t_absent = ''Absent'', t_input = ''Input Fault'',
     t_output = ''Output Fault'', t_unknown = ''Unknown'', t_ok = ''OK''\<rparr>"

theorem configured_system_shown_witness:
  "\<exists>db' version. sysd_initial_configure mem_lib ex_names ex_utils ex_yaml ''/hw'' None (True, True, True) ex_mst
      [subsystem_zero\<lparr>intf_cmn_info := Some ex_port_info, interfaces := [ex_port ''49'' [] None]\<rparr>] mem_init = Inr db' \<and>
    cli_system_get_all mem_lib ex_psu_names ins_qsort [CHR 0x0A] (True, True) db' =
      Inr (fru_report [CHR 0x0A] version fru_zero ex_port_info @ no_parts_report [CHR 0x0A])"
proof -
  let ?s = "subsystem_zero\<lparr>intf_cmn_info := Some ex_port_info, interfaces := [ex_port ''49'' [] None]\<rparr>"
  have "mgmt_intf_name ex_mst = Inr ''eth0''" by (simp add: mgmt_intf_name_def ex_mst_def cstr_def)
  moreover have "port_ok ex_names (ex_port ''49'' [] None)"
    by (simp add: port_ok_def wf_port_keys_def ex_names_def ex_port_def SYSD_MAX_SPLIT_PORTS_def)
  ultimately show ?thesis
    using configured_system_shown [OF mem_db.ovs_idl_axioms, of mem_init ex_mst "''eth0''" ex_yaml ?s ex_port_info
      ex_names ex_utils "''/hw''" None ex_psu_names ins_qsort "[CHR 0x0A]" "(True, True)"] wf_config_ex_yaml
    by (simp add: mem_init_def subsystem_zero_def)
qed

theorem parts_listed_by_name_witness:
  "\<forall>nl. show_fans mem_lib ins_qsort nl True 1 ex_parts =
     Inr (fans_title nl @ fan_text mem_lib nl ex_parts 2 @ fan_text mem_lib nl ex_parts 3)"
proof
  fix nl
  let ?L = mem_lib and ?db = ex_parts
  have rows: "idl_rows ?L T_Fan ?db = [3, 2]" "idl_rows ?L T_Power_Supply ?db = [4]"
    "get_refs ?L 1 ''fans'' ?db = [2, 3]" "get_refs ?L 1 ''power_supplies'' ?db = [4]"
    by (simp_all add: ex_parts_def get_refs_def)
  have names: "name_of ?L ?db 2 = ''fan-1''" "name_of ?L ?db 3 = ''fan-2''"
    by (simp_all add: ex_parts_def name_of_def get_str_def cstr_def)
  have cols: "has_cols ?L ?db cs r" if "r \<in> {2, 3, 4}" "set cs \<subseteq> {''name'', ''speed'', ''status''}" for r cs
    using that by (auto simp: has_cols_def list_all_iff ex_parts_def get_str_def)
  have "''fan-1'' \<le> ''fan-2''" "\<not> ''fan-2'' \<le> ''fan-1''" by simp_all
  then have sorted: "sort_key (name_of ?L ?db) [3, 2] = [2, 3]" by (simp add: names)
  have dist: "distinct (map (name_of ?L ?db) (idl_rows ?L T_Fan ?db))"
    "distinct (map (name_of ?L ?db) (idl_rows ?L T_Power_Supply ?db))" unfolding rows by (simp_all add: names)
  have len: "length (get_refs ?L 1 ''fans'' ?db) = length (idl_rows ?L T_Fan ?db)"
    "length (get_refs ?L 1 ''power_supplies'' ?db) = length (idl_rows ?L T_Power_Supply ?db)" unfolding rows by simp_all
  have "\<forall>r \<in> set (idl_rows ?L T_Fan ?db). has_cols ?L ?db [''name'', ''speed'', ''status''] r"
    "\<forall>r \<in> set (idl_rows ?L T_Power_Supply ?db). has_cols ?L ?db [''name'', ''status''] r"
    unfolding rows by (simp_all add: cols)
  from parts_listed_by_name [OF insq.c_qsort_axioms len(1) dist(1) this(1) len(2) dist(2) this(2), of nl ex_psu_names]
  have "show_fans ?L ins_qsort nl True 1 ?db =
      Inr (fans_title nl @ concat (map (fan_text ?L nl ?db) (sort_key (name_of ?L ?db) (idl_rows ?L T_Fan ?db))))"
    by (rule conjunct1)
  then show "show_fans ?L ins_qsort nl True 1 ?db =
      Inr (fans_title nl @ fan_text ?L nl ?db 2 @ fan_text ?L nl ?db 3)"
    by (simp only: rows sorted) simp
qed

end
