(* ===== verification/Setup.thy ===== *)
theory Setup
  imports Sysd_Main Cli_Show
begin

text \<open>
  What daemon and CLI plugin set up before they work: the command line of the daemon (\<open>parse_options\<close> and \<open>main\<close>
  in \<open>src/sysd.c\<close>) and the tables and columns each registers with the database library
  (\<open>sysd_ovsdb_conn_init\<close>, and \<open>system_ovsdb_init\<close> in \<open>src/cli/system_vty.c\<close>). The properties say that the
  daemon's own writes are to registered columns and do not wake it, while the columns it waits for do,
  and what \<open>show system\<close> cannot show on the plugin's own registrations.
\<close>

section \<open>The command line\<close>

text \<open>
  What \<open>getopt_long\<close> returns, one by one: the two options of the daemon, those handled by macros of the
  library, an unknown one, and any other value.
\<close>

datatype cmd_option = Opt_help | Opt_unixctl string | Opt_library | Opt_unknown | Opt_other

text \<open>What \<open>usage\<close> prints: its own texts around those of the library's functions. It exits with success.\<close>

datatype usage_part = Printed string | Daemon_Usage | Vlog_Usage

definition usage :: "string \<Rightarrow> string \<Rightarrow> usage_part list" where
  "usage program_name ovs_rundir =
     [Printed (program_name @ '': OpenSwitch system daemon'' @ [CHR 0x0A] @
               ''usage: '' @ program_name @ '' [OPTIONS] [DATABASE]'' @ [CHR 0x0A] @
               ''where DATABASE is a socket on which ovsdb-server is listening'' @ [CHR 0x0A] @
               ''      (default: '' @ [CHR 0x22] @ ''unix:'' @ ovs_rundir @ ''/db.sock'' @ [CHR 0x22] @ '').'' @ [CHR 0x0A]),
      Daemon_Usage, Vlog_Usage,
      Printed ([CHR 0x0A] @ ''Other options:'' @ [CHR 0x0A] @
               ''  --unixctl=SOCKET        override default control socket name'' @ [CHR 0x0A] @
               ''  -h, --help              display this help message'' @ [CHR 0x0A])]"

datatype cmd_line = Exits bool "usage_part list" | Aborts | Fatal | Parsed "string option" string

fun parse_option_list :: "usage_part list \<Rightarrow> cmd_option list \<Rightarrow> string option \<Rightarrow> cmd_line + string option" where
  "parse_option_list help [] unixctl_path = Inr unixctl_path"
| "parse_option_list help (Opt_help # os) unixctl_path = Inl (Exits True help)"
| "parse_option_list help (Opt_unixctl arg # os) unixctl_path = parse_option_list help os (Some arg)"
| "parse_option_list help (Opt_library # os) unixctl_path = parse_option_list help os unixctl_path"
| "parse_option_list help (Opt_unknown # os) unixctl_path = Inl (Exits False [])"
| "parse_option_list help (Opt_other # os) unixctl_path = Inl Aborts"

definition parse_options :: "string \<Rightarrow> string \<Rightarrow> cmd_option list \<Rightarrow> string list \<Rightarrow> cmd_line" where
  "parse_options program_name ovs_rundir opts args =
     (case parse_option_list (usage program_name ovs_rundir) opts None of
        Inl r \<Rightarrow> r
      | Inr unixctl_path \<Rightarrow>
          (case args of
             [] \<Rightarrow> Parsed unixctl_path (''unix:'' @ ovs_rundir @ ''/db.sock'')
           | [db] \<Rightarrow> Parsed unixctl_path db
           | _ \<Rightarrow> Fatal))"

text \<open>Of several control sockets the last one given counts.\<close>

lemma last_unixctl_counts:
  "list_all (\<lambda>opt. case opt of Opt_unixctl _ \<Rightarrow> True | Opt_library \<Rightarrow> True | _ \<Rightarrow> False) os \<Longrightarrow>
   parse_option_list help os path = Inr (fold (\<lambda>opt p. case opt of Opt_unixctl a \<Rightarrow> Some a | _ \<Rightarrow> p) os path)"
  by (induction os arbitrary: path) (auto split: cmd_option.splits)

section \<open>Registration\<close>

text \<open>The calls to the database library.\<close>

datatype idl_call =
    Idl_Create string | Get_Seqno | Idl_Set_Lock string | Diag_Dump_Basic | Add_Table ovs_table | Add_Column ovs_table string
  | Omit_Alert ovs_table string

text \<open>Column and \<open>omit_alert\<close>, as the daemon registers most of them.\<close>

definition quiet :: "ovs_table \<Rightarrow> string \<Rightarrow> idl_call list" where
  "quiet t c = [Add_Column t c, Omit_Alert t c]"

definition sysd_ovsdb_conn_init :: "string \<Rightarrow> idl_call list" where
  "sysd_ovsdb_conn_init remote =
     [Idl_Create remote, Get_Seqno, Idl_Set_Lock ''ops_sysd'', Add_Table T_System] @
     concat (map (quiet T_System) [''subsystems'', ''cur_hw'', ''next_hw'', ''other_info'', ''software_info'', ''switch_version'']) @
     [Add_Column T_System ''timezone'', Add_Table T_Subsystem] @
     concat (map (quiet T_Subsystem) [''name'', ''asset_tag_number'', ''hw_desc_dir'', ''other_config'', ''interfaces'']) @
     [Add_Table T_Interface] @
     concat (map (quiet T_Interface) [''name'', ''hw_intf_info'', ''type'', ''user_config'']) @
     [Add_Table T_Daemon, Add_Column T_Daemon ''name'', Add_Column T_Daemon ''cur_hw''] @ quiet T_Daemon ''is_hw_handler'' @
     [Add_Column T_System ''mgmt_intf'', Add_Column T_System ''mgmt_intf_status'', Add_Table T_Package_Info] @
     concat (map (quiet T_Package_Info) [''name'', ''src_type'', ''src_url'', ''version'']) @ [Diag_Dump_Basic]"

definition system_ovsdb_init :: "idl_call list" where
  "system_ovsdb_init =
     [Add_Table T_Fan, Add_Table T_LED, Add_Table T_System, Add_Table T_Subsystem, Add_Column T_System ''timezone''] @
     map (Add_Column T_LED) [''id'', ''state'', ''status'', ''other_config'', ''external_ids''] @
     map (Add_Column T_Subsystem) [''interfaces'', ''leds'', ''fans'', ''asset_tag_number'', ''name'', ''type'', ''hw_desc_dir'',
       ''other_info'', ''other_config'', ''external_ids''] @
     map (Add_Column T_Fan) [''status'', ''direction'', ''name'', ''rpm'', ''other_config'', ''hw_config'', ''external_ids'', ''speed'']"

text \<open>
  What the library makes of the calls: the replica holds the registered columns, and the sequence
  number advances for changes of those without \<open>omit_alert\<close>.
\<close>

definition monitored :: "idl_call list \<Rightarrow> ovs_table \<Rightarrow> string \<Rightarrow> bool" where
  "monitored cs t c \<longleftrightarrow> Add_Column t c \<in> set cs"

definition alerts :: "idl_call list \<Rightarrow> ovs_table \<Rightarrow> string \<Rightarrow> bool" where
  "alerts cs t c \<longleftrightarrow> monitored cs t c \<and> Omit_Alert t c \<notin> set cs"

section \<open>The program up to its loop\<close>

text \<open>
  \<open>main\<close> from the command line on: the value is the end that the command line put to it, or the calls of the
  registration, which is made once the control server runs, with the end of start-up. A control command sees the
  daemon in its loop only.
\<close>

definition main_start ::
  "string \<Rightarrow> string \<Rightarrow> cmd_option list \<Rightarrow> string list \<Rightarrow> boot_env \<Rightarrow> cmd_line + (fault + (idl_call list \<times> boot_result))" where
  "main_start program_name ovs_rundir opts args E =
     (case parse_options program_name ovs_rundir opts args of
        Parsed appctl_path ovsdb_sock \<Rightarrow>
          Inr (bindE (sysd_boot E) (\<lambda>r.
            Inr (case r of Exit Stage_Unixctl _ \<Rightarrow> [] | _ \<Rightarrow> sysd_ovsdb_conn_init ovsdb_sock, r)))
      | ended \<Rightarrow> Inl ended)"

lemma main_running:
  assumes "main_start program_name ovs_rundir opts args E = Inr (Inr (cs, Running b))"
  shows "sysd_boot E = Inr (Running b) \<and> running_inv E b \<and>
    (\<exists>path db. parse_options program_name ovs_rundir opts args = Parsed path db \<and> cs = sysd_ovsdb_conn_init db)"
proof -
  obtain path db where p: "parse_options program_name ovs_rundir opts args = Parsed path db"
    using assms by (cases "parse_options program_name ovs_rundir opts args") (simp_all add: main_start_def)
  with assms have boot: "sysd_boot E = Inr (Running b)" and "cs = sysd_ovsdb_conn_init db"
    by (auto simp: main_start_def bindE_eq_Inr)
  with p boot_running [OF boot] show ?thesis by simp
qed

section \<open>The daemon's own writes\<close>

text \<open>
  Writes without a transaction are either kept or dropped, cell by cell, and the package transactions
  only add rows to their table.
\<close>

definition writes_kept :: "('db, 'm) ovs_lib \<Rightarrow> 'db run_env \<Rightarrow> bool" where
  "writes_kept L env \<longleftrightarrow> (\<forall>d. evolves L {T_Package_Info} {} d (e_after_pkgs env d)) \<and>
     (\<forall>d d' d''. e_outside env d d' = Inr d'' \<longrightarrow> (\<forall>t. idl_rows L t d'' = idl_rows L t d) \<and>
        (\<forall>r c. idl_get L r c d'' \<in> {idl_get L r c d, idl_get L r c d'}))"

definition round_columns :: "string list" where
  "round_columns = [''software_info'', ''switch_version'', ''cur_hw'', ''next_hw'']"

lemma round_columns_quiet:
  "c \<in> set round_columns \<Longrightarrow>
   monitored (sysd_ovsdb_conn_init remote) T_System c \<and> \<not> alerts (sysd_ovsdb_conn_init remote) T_System c"
  by (auto simp: round_columns_def sysd_ovsdb_conn_init_def quiet_def monitored_def alerts_def)

context ovs_idl
begin

lemma run_system_configured:
  assumes "run_system L C env st = Inr (st', evs)" "idl_rows L T_System (replica st) \<noteq> []" "writes_kept L env"
  shows "\<exists>db1. (\<forall>t. idl_rows L t db1 = idl_rows L t (replica st)) \<and>
    (\<forall>r c. idl_get L r c db1 \<noteq> idl_get L r c (replica st) \<longrightarrow>
       r \<in> set (idl_rows L T_System (replica st)) \<and> c \<in> {''software_info'', ''switch_version''}) \<and>
    (replica st' = db1 \<and> hw_init_done_set st' = hw_init_done_set st \<or>
     (num_hw_daemons (c_mst C) \<le> 0 \<or> hw_ready L (daemons (c_mst C)) db1) \<and> hw_init_done_set st' \<and>
     (replica st' = db1 \<or> replica st' = snd (sysd_set_hw_done L True db1)))"
proof -
  let ?db = "replica st"
  obtain cfg rest where rows: "idl_rows L T_System ?db = cfg # rest"
    using assms(2) by (cases "idl_rows L T_System ?db") auto
  then obtain db1 where out: "e_outside env ?db (sysd_update_sw_info L (e_release env) cfg ?db) = Inr db1"
    using assms(1) by (auto simp: run_system_def bindE_eq_Inr split: if_splits prod.splits)
  have rows1: "idl_rows L t db1 = idl_rows L t ?db" for t using assms(3) out by (simp add: writes_kept_def)
  have get1: "r \<in> set (idl_rows L T_System ?db) \<and> c \<in> {''software_info'', ''switch_version''}"
    if "idl_get L r c db1 \<noteq> idl_get L r c ?db" for r c
  proof -
    have "idl_get L r c db1 = idl_get L r c (sysd_update_sw_info L (e_release env) cfg ?db)"
      using assms(3) out that unfolding writes_kept_def by blast
    with that sw_info_frame [of r cfg c "e_release env" ?db] show ?thesis by (auto simp: rows)
  qed
  have "replica st' = db1 \<and> hw_init_done_set st' = hw_init_done_set st \<or>
     (num_hw_daemons (c_mst C) \<le> 0 \<or> hw_ready L (daemons (c_mst C)) db1) \<and> hw_init_done_set st' \<and>
     (replica st' = db1 \<or> replica st' = snd (sysd_set_hw_done L True db1))"
    using assms(1) out rows
    by (auto simp: run_system_def check_done_cases sysd_set_hw_done_def split: if_splits)
  with rows1 get1 show ?thesis by blast
qed

lemma run_system_writes:
  assumes "run_system L C env st = Inr (st', evs)" "idl_rows L T_System (replica st) \<noteq> []" "writes_kept L env"
  shows "(\<forall>t. idl_rows L t (replica st') = idl_rows L t (replica st)) \<and>
    (\<forall>r c. idl_get L r c (replica st') \<noteq> idl_get L r c (replica st) \<longrightarrow>
       r \<in> set (idl_rows L T_System (replica st)) \<and> c \<in> set round_columns)"
proof -
  let ?db = "replica st"
  obtain db1 where rows1: "\<And>t. idl_rows L t db1 = idl_rows L t ?db"
    and get1: "\<And>r c. idl_get L r c db1 \<noteq> idl_get L r c ?db \<Longrightarrow>
       r \<in> set (idl_rows L T_System ?db) \<and> c \<in> {''software_info'', ''switch_version''}"
    and st': "replica st' = db1 \<or> replica st' = snd (sysd_set_hw_done L True db1)"
    using run_system_configured [OF assms] by blast
  have "r \<in> set (idl_rows L T_System ?db) \<and> c \<in> set round_columns"
    if h: "idl_get L r c (replica st') \<noteq> idl_get L r c ?db" for r c
  proof (cases "idl_get L r c (replica st') = idl_get L r c db1")
    case True
    with h get1 [of r c] show ?thesis by (auto simp: round_columns_def)
  next
    case False
    with st' have "r \<in> set (idl_rows L T_System db1) \<and> (c = ''cur_hw'' \<or> c = ''next_hw'')"
      using set_hw_done_get [of r c db1] by (auto split: if_splits)
    then show ?thesis by (auto simp: rows1 round_columns_def)
  qed
  moreover have "idl_rows L t (replica st') = idl_rows L t ?db" for t
    using st' rows1 [of t] set_hw_done_rows [of t True db1] by auto
  ultimately show ?thesis by blast
qed

lemma round_writes:
  assumes run: "sysd_run L C env st = Inr (st', evs)" and sys: "idl_rows L T_System (e_db env) \<noteq> []"
    and kept: "writes_kept L env" and r: "r \<in> set (idl_rows L t (e_db env))"
    and changed: "idl_get L r c (replica st') \<noteq> idl_get L r c (e_db env)"
  shows "r \<in> set (idl_rows L T_System (e_db env)) \<and> c \<in> set round_columns"
proof (cases "active env st")
  case True
  then obtain st1 evs1 evs2 where 1: "run_system L C env (enter env st) = Inr (st1, evs1)"
    and 2: "run_packages L env st1 = Inr (st', evs2)"
    using run by (auto simp: run_active)
  note w = run_system_writes [OF 1 _ kept, simplified, OF sys]
  have "evolves L {T_Package_Info} {} (replica st1) (replica st')"
    using 2 kept by (auto simp: run_packages_def writes_kept_def bindE_eq_Inr evolves_refl split: if_splits)
  moreover have "r \<in> set (idl_rows L t (replica st1))" using w r by simp
  ultimately have "idl_get L r c (replica st') = idl_get L r c (replica st1)" by (rule evolves_get) simp
  with changed w show ?thesis by auto
next
  case False
  with run changed show ?thesis by (auto simp: run_idle)
qed

end

text \<open>
  Claim C32. In a round that finds a System row, whatever the daemon changes in existing rows are columns of
  the System row it has registered without alert, so no round wakes the next one; the progress of other
  daemons and a new time zone are registered with alert, so they do.
\<close>

theorem own_writes_silent:
  assumes "ovs_idl L" "sysd_run L C env st = Inr (st', evs)" "idl_rows L T_System (e_db env) \<noteq> []" "writes_kept L env"
  shows "(\<forall>t r c. r \<in> set (idl_rows L t (e_db env)) \<longrightarrow> idl_get L r c (replica st') \<noteq> idl_get L r c (e_db env) \<longrightarrow>
      r \<in> set (idl_rows L T_System (e_db env)) \<and> monitored (sysd_ovsdb_conn_init remote) T_System c \<and>
      \<not> alerts (sysd_ovsdb_conn_init remote) T_System c) \<and>
    alerts (sysd_ovsdb_conn_init remote) T_Daemon ''cur_hw'' \<and> alerts (sysd_ovsdb_conn_init remote) T_System ''timezone''"
proof -
  have "alerts (sysd_ovsdb_conn_init remote) T_Daemon ''cur_hw''" "alerts (sysd_ovsdb_conn_init remote) T_System ''timezone''"
    by (simp_all add: alerts_def monitored_def sysd_ovsdb_conn_init_def quiet_def)
  with ovs_idl.round_writes [OF assms] round_columns_quiet show ?thesis by blast
qed

text \<open>A round that completes the handshake on a replica with a System row and no hardware daemons.\<close>

theorem own_writes_silent_witness:
  "\<exists>st' evs. sysd_run mem_lib (ex_conf\<lparr>c_mst := manifest_init\<rparr>) ((ex_env ex_zone 1)\<lparr>e_outside := (\<lambda>d d'. Inr d)\<rparr>) ex_state = Inr (st', evs) \<and>
     get_int mem_lib 1 ''cur_hw'' (replica st') = 1 \<and> get_int mem_lib 1 ''cur_hw'' ex_zone = 0 \<and>
     \<not> alerts (sysd_ovsdb_conn_init ''unix:db'') T_System ''cur_hw''"
proof -
  let ?env = "(ex_env ex_zone 1)\<lparr>e_outside := (\<lambda>d d'. Inr d)\<rparr>" and ?C = "ex_conf\<lparr>c_mst := manifest_init\<rparr>"
  let ?db = "mem_set 1 ''next_hw'' (VInt 1) (mem_set 1 ''cur_hw'' (VInt 1) ex_zone)"
  have fin: "sysd_set_hw_done mem_lib True ex_zone = (True, ?db)"
    by (simp add: sysd_set_hw_done_def ex_zone_facts Let_def)
  have zone: "mem_rows ?db t = (if t = T_System then [1] else [])" "get_str mem_lib (Suc 0) ''timezone'' ?db = Some ''UTC''"
    "get_int mem_lib 1 ''cur_hw'' ?db = 1" for t
    by (simp_all add: mem_set_def ex_zone_def ex_system_rows get_str_def get_int_def)
  have zero: "get_int mem_lib 1 ''cur_hw'' ex_zone = 0" by code_simp
  have run: "sysd_run mem_lib ?C ?env ex_state = Inr (\<lparr>replica = ?db, idl_seqno = 1, hw_init_done_set = True\<rparr>,
      [Hw_Check True, Packages [], Timezone [Tz_Unlink ''/etc/localtime'', Tz_Symlink (posix_path @ ''UTC'') ''/etc/localtime''],
       Startup_Complete])"
    using fin zone(1,2)
    by (simp add: sysd_run_def run_system_def run_packages_def ex_env_def ex_state_def ex_zone_facts sysd_update_sw_info_def
          sysd_chk_if_hw_daemons_done_def manifest_init_def sysd_add_package_info_def
          sysd_handle_timezone_update_def posix_path_def Let_def)
  have kept: "writes_kept mem_lib ?env" by (auto simp: writes_kept_def ex_env_def evolves_refl)
  have sys: "idl_rows mem_lib T_System (e_db ?env) \<noteq> []" "1 \<in> set (idl_rows mem_lib T_System (e_db ?env))"
    by (simp_all add: ex_env_def ex_zone_facts)
  have "idl_get mem_lib 1 ''cur_hw'' ?db \<noteq> idl_get mem_lib 1 ''cur_hw'' (e_db ?env)"
    using zone(3) zero by (auto simp: get_int_def ex_env_def)
  then have "\<not> alerts (sysd_ovsdb_conn_init ''unix:db'') T_System ''cur_hw''"
    using own_writes_silent [OF mem_db.ovs_idl_axioms run sys(1) kept, of "''unix:db''"] sys(2) by simp
  with run zone(3) zero show ?thesis by (intro exI conjI) (assumption, simp_all)
qed

section \<open>What the plugin's own registrations show\<close>

text \<open>The replica as a client sees it that has made only the calls given.\<close>

definition replica_view :: "idl_call list \<Rightarrow> ('db, 'm) ovs_lib \<Rightarrow> ('db, 'm) ovs_lib" where
  "replica_view cs L = L\<lparr>
     idl_get := (\<lambda>r c db. if list_ex (\<lambda>k. case k of Add_Column t c' \<Rightarrow> c' = c \<and> r \<in> set (idl_rows L t db) | _ \<Rightarrow> False) cs
                          then idl_get L r c db else VNone),
     idl_rows := (\<lambda>t db. if Add_Table t \<in> set cs then idl_rows L t db else [])\<rparr>"

text \<open>
  The plugin does not register the columns for power supplies, temperature sensors and the version:
  unless another plugin does, \<open>show system\<close> shows none of them, whatever the database holds.
\<close>

lemma unregistered_not_shown:
  "show_psus (replica_view system_ovsdb_init L) N qsort nl ok pSys db = Inr (psus_title nl)"
  "get_refs (replica_view system_ovsdb_init L) pSys ''temp_sensors'' db = []"
  "get_str (replica_view system_ovsdb_init L) pVswitch ''switch_version'' db = None"
  by (simp_all add: show_psus_def get_refs_def get_str_def replica_view_def system_ovsdb_init_def)

end
