(* ===== verification/Cli_Init.thy ===== *)
theory Cli_Init
  imports Setup Cli_Timezone
begin

text \<open>
  The CLI plugin from its start (\<open>cli_pre_init\<close> and \<open>cli_post_init\<close> in \<open>src/cli/system_vty.c\<close>): which
  commands it installs at which nodes, with which strings, and those that only call another function or program. The
  property says that the commands installed offer exactly the zones that are accepted.
\<close>

section \<open>Commands and nodes\<close>

datatype cli_node = ENABLE_NODE | VIEW_NODE | CONFIG_NODE

datatype cli_command =
    Show_System | Show_System_Clock | Show_Date | Show_System_Timezone | Timezone_Set | No_Timezone_Set

definition cli_platform_show_system ::
  "('db, 'm) ovs_lib \<Rightarrow> psu_names \<Rightarrow> ((row \<Rightarrow> row \<Rightarrow> int) \<Rightarrow> row list \<Rightarrow> row list) \<Rightarrow> string \<Rightarrow> bool \<times> bool \<Rightarrow> 'db \<Rightarrow>
   fault + (cmd_result \<times> string)" where
  "cli_platform_show_system L N qsort nl allocs db = bindE (cli_system_get_all L N qsort nl allocs db) (\<lambda>out. Inr (CMD_SUCCESS, out))"

text \<open>The command each of these runs, with its result.\<close>

definition vtysh_show_system_clock :: "cmd_result \<times> string" where
  "vtysh_show_system_clock = (CMD_SUCCESS, ''date'')"

definition vtysh_show_date :: "cmd_result \<times> string" where
  "vtysh_show_date = (CMD_SUCCESS, ''date'')"

text \<open>
  What the plugin leaves with the library: the columns registered, the elements installed, in order, and
  whether the callback of the running configuration is. The two zone commands have their own strings once
  they are installed.
\<close>

record cli_plugin =
  registered :: "idl_call list"
  installed :: "(cli_node \<times> cli_command) list"
  context_callback :: bool
  tz_cmds :: "tz_commands option"

fun command_string :: "cli_plugin \<Rightarrow> cli_command \<Rightarrow> string" where
  "command_string P Show_System = ''show system''"
| "command_string P Show_System_Clock = ''show system clock''"
| "command_string P Show_Date = ''show date''"
| "command_string P Show_System_Timezone = ''show system timezone''"
| "command_string P Timezone_Set = (case tz_cmds P of None \<Rightarrow> ''timezone set '' | Some T \<Rightarrow> set_string T)"
| "command_string P No_Timezone_Set = (case tz_cmds P of None \<Rightarrow> ''no timezone set '' | Some T \<Rightarrow> no_string T)"

section \<open>The start of the plugin\<close>

text \<open>The result of installing the zone commands is not looked at.\<close>

definition cli_pre_init ::
  "bool \<times> bool \<times> bool \<times> bool \<Rightarrow> string \<Rightarrow> string \<Rightarrow> dirent list option \<Rightarrow> fault + cli_plugin" where
  "cli_pre_init allocs doc doc_no dir =
     bindE (system_install_timezone_set_command allocs doc doc_no dir) (\<lambda>(rc, T).
       Inr \<lparr>registered = system_ovsdb_init,
            installed = (if T = None then [] else [(CONFIG_NODE, Timezone_Set), (CONFIG_NODE, No_Timezone_Set)]),
            context_callback = False, tz_cmds = T\<rparr>)"

text \<open>\<open>None\<close> is the assertion that fails when the callback could not be added.\<close>

definition cli_post_init :: "bool \<Rightarrow> cli_plugin \<Rightarrow> cli_plugin option" where
  "cli_post_init callback_ok P =
     (let P1 = P\<lparr>installed := installed P @
            [(ENABLE_NODE, Show_System), (VIEW_NODE, Show_System),
             (VIEW_NODE, Show_System_Clock), (ENABLE_NODE, Show_System_Clock),
             (VIEW_NODE, Show_Date), (ENABLE_NODE, Show_Date),
             (VIEW_NODE, Show_System_Timezone), (ENABLE_NODE, Show_System_Timezone)]\<rparr>
      in if callback_ok then Some (P1\<lparr>context_callback := True\<rparr>) else None)"

section \<open>The zones on offer\<close>

text \<open>
  Claim C26. However the tree of zones looks, when the plugin has started with its zone commands, they are the only
  ones at the configuration node, their strings list the zones of the table and nothing else, the table is
  well formed, and the zones on offer are exactly the accepted ones: a zone that is typed is stored if it is
  one of those, in its original letters, and any other leaves the database alone.
\<close>

theorem offered_zones_accepted:
  assumes "cli_pre_init allocs doc doc_no dir = Inr P0" "tz_cmds P0 = Some T" "cli_post_init True P0 = Some P"
    and "idl_rows L T_System db = sys # rest" "get_str L sys ''timezone'' db = Some tz"
    and "length tz < MAX_TIMEZONE_NAME_SIZE" "length info < 500"
  shows "filter (\<lambda>(node, cmd). node = CONFIG_NODE) (installed P) = [(CONFIG_NODE, Timezone_Set), (CONFIG_NODE, No_Timezone_Set)] \<and>
    command_string P Timezone_Set =
      ''timezone set ('' @ concat (map (\<lambda>z. z @ '' | '') (list_of_zones (zone_table T))) @ '')'' \<and>
    command_string P No_Timezone_Set = ''no '' @ command_string P Timezone_Set \<and> zone_db_wf (zone_table T) \<and>
    (if info \<in> set (list_of_zones (zone_table T))
     then \<exists>c \<in> set (list_of_zones_caps (zone_table T)). tolower_str c = info \<and>
       cli_platform_timezone_set L (zone_table T) nl True True info db = Inr (CMD_SUCCESS, [], idl_set L sys ''timezone'' (VStr c) db)
     else cli_platform_timezone_set L (zone_table T) nl True True info db =
       Inr (CMD_ERR_NO_MATCH, ''Invalid timezone specified, please use a valid timezone'' @ nl, db))"
proof -
  from assms(1,2) obtain rc where inst: "system_install_timezone_set_command allocs doc doc_no dir = Inr (rc, Some T)"
    and P0: "installed P0 = [(CONFIG_NODE, Timezone_Set), (CONFIG_NODE, No_Timezone_Set)]"
    by (auto simp: cli_pre_init_def bindE_eq_Inr)
  note T = installed_table [OF inst]
  then have zones: "list_of_zones (zone_table T) = map tolower_str (list_of_zones_caps (zone_table T))"
    by (simp add: zone_db_wf_def)
  have P: "installed P = installed P0 @ drop 2 (installed P)" "tz_cmds P = Some T"
    "filter (\<lambda>(node, cmd). node = CONFIG_NODE) (installed P) = filter (\<lambda>(node, cmd). node = CONFIG_NODE) (installed P0)"
    using assms(2,3) P0 by (auto simp: cli_post_init_def)
  have set: "cli_platform_timezone_set L (zone_table T) nl True True info db =
     Inr (case find (\<lambda>c. tolower_str c = info) (list_of_zones_caps (zone_table T)) of
            None \<Rightarrow> (CMD_ERR_NO_MATCH, ''Invalid timezone specified, please use a valid timezone'' @ nl, db)
          | Some c \<Rightarrow> (CMD_SUCCESS, [], idl_set L sys ''timezone'' (VStr c) db))"
    using set_timezone [OF _ assms(4-7), of "zone_table T" nl True False] T
    by (simp add: cli_platform_timezone_set_def cong: option.case_cong)
  have "if info \<in> set (list_of_zones (zone_table T))
     then \<exists>c \<in> set (list_of_zones_caps (zone_table T)). tolower_str c = info \<and>
       cli_platform_timezone_set L (zone_table T) nl True True info db = Inr (CMD_SUCCESS, [], idl_set L sys ''timezone'' (VStr c) db)
     else cli_platform_timezone_set L (zone_table T) nl True True info db =
       Inr (CMD_ERR_NO_MATCH, ''Invalid timezone specified, please use a valid timezone'' @ nl, db)"
  proof (cases "find (\<lambda>c. tolower_str c = info) (list_of_zones_caps (zone_table T))")
    case None
    then have "info \<notin> set (list_of_zones (zone_table T))" by (auto simp: zones find_None_iff)
    with None set show ?thesis by simp
  next
    case (Some c)
    with find_Some_in [OF this] have "c \<in> set (list_of_zones_caps (zone_table T))" "tolower_str c = info" by simp_all
    with Some set zones show ?thesis by auto
  qed
  then show ?thesis using T P P0 by (simp add: offers_def)
qed

text \<open>Without memory for its texts the plugin starts all the same, without the zone commands.\<close>

lemma no_memory_no_zone_commands:
  "\<exists>P0 P. cli_pre_init (False, False, False, False) doc doc_no dir = Inr P0 \<and> cli_post_init True P0 = Some P \<and>
     CONFIG_NODE \<notin> fst ` set (installed P)"
  by (simp add: cli_pre_init_def system_install_timezone_set_command_def cli_post_init_def Let_def)

theorem offered_zones_accepted_witness:
  "\<exists>P0 P T. cli_pre_init (True, True, True, True) ''Help '' ''No '' ex_tree = Inr P0 \<and> tz_cmds P0 = Some T \<and>
     cli_post_init True P0 = Some P \<and> zone_table T = ex_zones \<and>
     cli_platform_timezone_set mem_lib ex_zones [CHR 0x0A] True True ''mars'' (mem_set 1 ''timezone'' (VStr ''UTC'') ex_system) =
       Inr (CMD_ERR_NO_MATCH, ''Invalid timezone specified, please use a valid timezone'' @ [CHR 0x0A],
            mem_set 1 ''timezone'' (VStr ''UTC'') ex_system)"
proof -
  obtain T where T: "system_install_timezone_set_command (True, True, True, True) ''Help '' ''No '' ex_tree = Inr (0, Some T)"
    "zone_table T = ex_zones"
    using install_fits [OF ex_tree_fits ex_texts, of "''No ''"]
    by (elim exE) (rule that, assumption, simp add: ex_zones_eq)
  obtain P0 P where P: "cli_pre_init (True, True, True, True) ''Help '' ''No '' ex_tree = Inr P0" "tz_cmds P0 = Some T"
    "cli_post_init True P0 = Some P"
    by (simp add: cli_pre_init_def T(1) cli_post_init_def Let_def)
  have db: "idl_rows mem_lib T_System (mem_set 1 ''timezone'' (VStr ''UTC'') ex_system) = 1 # []"
    "get_str mem_lib 1 ''timezone'' (mem_set 1 ''timezone'' (VStr ''UTC'') ex_system) = Some ''UTC''"
    by (simp_all add: mem_set_def get_str_def ex_system_rows)
  have new: "''mars'' \<notin> set (list_of_zones (zone_table T))" "length ''mars'' < 500" "length ''UTC'' < MAX_TIMEZONE_NAME_SIZE"
    unfolding T(2) by (simp_all add: ex_zones_def size_defs)
  from offered_zones_accepted [OF P db new(3,2), of "[CHR 0x0A]"] new(1) T(2) P show ?thesis
    by (intro exI conjI) (assumption, assumption, assumption, assumption, simp)
qed

end
