(* ===== verification/System.thy ===== *)
theory System
  imports Cli_Init
begin

text \<open>
  The daemon, the other daemons and the CLI over one database. A step of the whole system is a round of the
  daemon, progress of the other daemons, or a time zone command; the relation that a small abstract machine
  gives of it - nothing configured, hardware initialising, hardware done, with the zone and the daemons that
  have reported - is proved to be a refinement, and invariants and a response property follow for every
  state the system can reach.
\<close>

section \<open>Steps of the whole system\<close>

record 'db world =
  w_db :: 'db
  w_sysd :: "'db run_state"

text \<open>
  A round in which nothing is wrong with the daemon's memory and the library; any commit may still fail,
  the lock may be missing and the release file may have any contents.
\<close>

definition sound_env :: "('db, 'm) ovs_lib \<Rightarrow> 'db run_env \<Rightarrow> bool" where
  "sound_env L env \<longleftrightarrow> e_allocs env = (True, True, True) \<and> writes_kept L env"

text \<open>
  What the other daemons may do once there is a System row: anything but lose rows of the two tables of the
  handshake, rename the daemons or take back the progress they reported.
\<close>

definition others_step :: "('db, 'm) ovs_lib \<Rightarrow> 'db \<Rightarrow> 'db \<Rightarrow> bool" where
  "others_step L db db' \<longleftrightarrow> idl_rows L T_System db \<noteq> [] \<and> others_progress L db db' \<and>
     (\<forall>r \<in> set (idl_rows L T_System db). idl_get L r ''cur_hw'' db' = idl_get L r ''cur_hw'' db \<and>
        idl_get L r ''next_hw'' db' = idl_get L r ''next_hw'' db) \<and>
     (\<forall>r \<in> set (idl_rows L T_Daemon db). row_cur_hw L db r > 0 \<longrightarrow> row_cur_hw L db' r > 0)"

datatype sys_label = Round "run_event list" | Others | Zone_Command bool string cmd_result

text \<open>
  The daemon's rounds start from the database as it is. A command is what the CLI hands over, with its
  answer: setting a zone, or unsetting it.
\<close>

inductive sys_step ::
  "('db, 'm) ovs_lib \<Rightarrow> sysd_conf \<Rightarrow> zone_db \<Rightarrow> 'db world \<Rightarrow> sys_label \<Rightarrow> 'db world \<Rightarrow> bool"
  for L C Z where
  step_round: "e_db env = w_db w \<Longrightarrow> sound_env L env \<Longrightarrow> sysd_run L C env (w_sysd w) = Inr (st', evs) \<Longrightarrow>
    sys_step L C Z w (Round evs) \<lparr>w_db = replica st', w_sysd = st'\<rparr>"
| step_others: "others_step L (w_db w) db' \<Longrightarrow> sys_step L C Z w Others (w\<lparr>w_db := db'\<rparr>)"
| step_zone: "cli_set_timezone L Z nl start_ok committed info no_flags (w_db w) = Inr (res, out, db') \<Longrightarrow>
    sys_step L C Z w (Zone_Command no_flags info res) (w\<lparr>w_db := db'\<rparr>)"

inductive_cases sys_stepE: "sys_step L C Z w l w'"

text \<open>The steps one after another; the system starts with an empty database and the daemon before its first round.\<close>

abbreviation sys_steps ::
  "('db, 'm) ovs_lib \<Rightarrow> sysd_conf \<Rightarrow> zone_db \<Rightarrow> 'db world \<Rightarrow> sys_label list \<Rightarrow> 'db world \<Rightarrow> bool" where
  "sys_steps L C Z \<equiv> lsteps (sys_step L C Z)"

definition initial_world :: "('db, 'm) ovs_lib \<Rightarrow> 'db world \<Rightarrow> bool" where
  "initial_world L w \<longleftrightarrow> (\<forall>t. idl_rows L t (w_db w) = []) \<and> \<not> hw_init_done_set (w_sysd w)"

definition reachable :: "('db, 'm) ovs_lib \<Rightarrow> sysd_conf \<Rightarrow> zone_db \<Rightarrow> 'db world \<Rightarrow> bool" where
  "reachable L C Z w \<longleftrightarrow> lreach (initial_world L) (sys_step L C Z) w"

text \<open>
  A configuration the start-up transaction can work with, and that the hardware check can tell apart:
  what start-up guarantees, with names and files that fit.
\<close>

definition good_conf :: "sysd_conf \<Rightarrow> bool" where
  "good_conf C \<longleftrightarrow>
     (\<exists>name. mgmt_intf_name (c_mst C) = Inr name) \<and> wf_config (c_yaml C) \<and>
     (\<exists>s cmn. c_subs C = [s] \<and> intf_cmn_info s = Some cmn \<and> list_all (port_ok (c_names C)) (interfaces s) \<and>
        distinct (map yp_name (interfaces s))) \<and>
     num_hw_daemons (c_mst C) = int (length (filter d_is_hw_handler (daemons (c_mst C)))) \<and>
     distinct (map d_name (daemons (c_mst C))) \<and> prefix_free (daemons (c_mst C))"

lemma boot_good_conf:
  assumes "sysd_boot E = Inr (Running b)" "mgmt_intf_name (g_mst b) = Inr name" "wf_config (b_yaml E)"
    and "g_subsystems b = [s]" "list_all (port_ok K) (interfaces s)" "distinct (map yp_name (interfaces s))"
    and "distinct (map d_name (daemons (g_mst b)))" "prefix_free (daemons (g_mst b))"
  shows "good_conf (conf_of K E b)"
  using assms boot_running [OF assms(1)] by (auto simp: good_conf_def conf_of_def running_inv_def)

section \<open>The abstract machine\<close>

text \<open>What a client of the database can see: how far the system is, the zone, and who has reported.\<close>

datatype phase = Unconfigured | Waiting | Done

record spec_state =
  phase :: phase
  zone :: "string option"
  reported :: "string set"

text \<open>\<open>hw\<close> and \<open>ready\<close> are the hardware daemons and those that need no initialisation.\<close>

inductive spec_step :: "string list \<Rightarrow> string set \<Rightarrow> string set \<Rightarrow> spec_state \<Rightarrow> spec_state \<Rightarrow> bool"
  for zones hw ready where
  spec_configure: "phase s = Unconfigured \<Longrightarrow>
    spec_step zones hw ready s \<lparr>phase = Waiting, zone = Some ''UTC'', reported = ready\<rparr>"
| spec_report: "phase s \<noteq> Unconfigured \<Longrightarrow> N \<subseteq> hw \<Longrightarrow>
    spec_step zones hw ready s (s\<lparr>reported := reported s \<union> N\<rparr>)"
| spec_finish: "phase s = Waiting \<Longrightarrow> hw \<subseteq> reported s \<Longrightarrow> spec_step zones hw ready s (s\<lparr>phase := Done\<rparr>)"
| spec_zone: "phase s \<noteq> Unconfigured \<Longrightarrow> c \<in> set zones \<Longrightarrow> spec_step zones hw ready s (s\<lparr>zone := Some c\<rparr>)"

definition hw_names :: "daemon_info list \<Rightarrow> string set" where
  "hw_names ds = d_name ` {d \<in> set ds. d_is_hw_handler d}"

definition ready_names :: "daemon_info list \<Rightarrow> string set" where
  "ready_names ds = d_name ` {d \<in> set ds. d_is_hw_handler d \<and> d_cur_hw d > 0}"

definition reported_names :: "('db, 'm) ovs_lib \<Rightarrow> 'db \<Rightarrow> string set" where
  "reported_names L db = row_name L db ` {r \<in> set (idl_rows L T_Daemon db). row_is_hw L db r \<and> row_cur_hw L db r > 0}"

text \<open>What the abstract machine sees of a database; only the columns clients read matter, not the daemon's flag.\<close>

definition spec_of :: "('db, 'm) ovs_lib \<Rightarrow> 'db \<Rightarrow> spec_state" where
  "spec_of L db =
     (case idl_rows L T_System db of
        [] \<Rightarrow> \<lparr>phase = Unconfigured, zone = None, reported = {}\<rparr>
      | sys # _ \<Rightarrow> \<lparr>phase = (if get_int L sys ''cur_hw'' db = 0 then Waiting else Done),
                     zone = get_str L sys ''timezone'' db, reported = reported_names L db\<rparr>)"

section \<open>The invariant\<close>

definition all_reported :: "('db, 'm) ovs_lib \<Rightarrow> daemon_info list \<Rightarrow> 'db \<Rightarrow> bool" where
  "all_reported L ds db \<longleftrightarrow> hw_names ds \<subseteq> reported_names L db"

text \<open>A configured database with its System row, and the daemon's flag.\<close>

definition started_inv :: "('db, 'm) ovs_lib \<Rightarrow> sysd_conf \<Rightarrow> zone_db \<Rightarrow> row \<Rightarrow> 'db \<Rightarrow> bool \<Rightarrow> bool" where
  "started_inv L C Z sys db flag \<longleftrightarrow>
     set (idl_rows L T_System db) = {sys} \<and> sys \<notin> set (idl_rows L T_Daemon db) \<and>
     (\<exists>c \<in> insert ''UTC'' (set (list_of_zones_caps Z)). get_str L sys ''timezone'' db = Some c) \<and>
     lists_daemons L (daemons (c_mst C)) db \<and>
     get_int L sys ''cur_hw'' db \<in> {0, 1} \<and> get_int L sys ''next_hw'' db = get_int L sys ''cur_hw'' db \<and>
     (flag \<or> get_int L sys ''cur_hw'' db = 1 \<longrightarrow> all_reported L (daemons (c_mst C)) db)"

text \<open>Before the start-up transaction has gone through, only the package table may have rows.\<close>

definition fresh_db :: "('db, 'm) ovs_lib \<Rightarrow> 'db \<Rightarrow> bool" where
  "fresh_db L db \<longleftrightarrow> (\<forall>t. t \<noteq> T_Package_Info \<longrightarrow> idl_rows L t db = [])"

definition world_inv :: "('db, 'm) ovs_lib \<Rightarrow> sysd_conf \<Rightarrow> zone_db \<Rightarrow> 'db world \<Rightarrow> bool" where
  "world_inv L C Z w \<longleftrightarrow>
     fresh_db L (w_db w) \<and> \<not> hw_init_done_set (w_sysd w) \<or>
     (\<exists>sys. started_inv L C Z sys (w_db w) (hw_init_done_set (w_sysd w)))"

text \<open>Reporting, in terms of the rows.\<close>

lemma all_reported_rows:
  assumes "lists_daemons L ds db"
  shows "all_reported L ds db \<longleftrightarrow> (\<forall>d \<in> set ds. d_is_hw_handler d \<longrightarrow>
    (\<forall>r \<in> set (idl_rows L T_Daemon db). row_name L db r = d_name d \<longrightarrow> row_cur_hw L db r > 0))"
proof
  assume rep: "all_reported L ds db"
  show "\<forall>d \<in> set ds. d_is_hw_handler d \<longrightarrow>
    (\<forall>r \<in> set (idl_rows L T_Daemon db). row_name L db r = d_name d \<longrightarrow> row_cur_hw L db r > 0)"
  proof (intro ballI impI)
    fix d r assume d: "d \<in> set ds" "d_is_hw_handler d" and r: "r \<in> set (idl_rows L T_Daemon db)" "row_name L db r = d_name d"
    from d rep have "d_name d \<in> reported_names L db" unfolding all_reported_def hw_names_def by blast
    then obtain r' where "r' \<in> set (idl_rows L T_Daemon db)" "row_name L db r' = d_name d" "row_cur_hw L db r' > 0"
      unfolding reported_names_def by auto
    with r assms show "row_cur_hw L db r > 0" unfolding lists_daemons_def by (metis inj_onD)
  qed
next
  assume rows: "\<forall>d \<in> set ds. d_is_hw_handler d \<longrightarrow>
    (\<forall>r \<in> set (idl_rows L T_Daemon db). row_name L db r = d_name d \<longrightarrow> row_cur_hw L db r > 0)"
  have "d_name d \<in> reported_names L db" if d: "d \<in> set ds" "d_is_hw_handler d" for d
  proof -
    obtain r where r: "r \<in> set (idl_rows L T_Daemon db)" "row_name L db r = d_name d" "row_is_hw L db r"
      using assms d by (auto simp: lists_daemons_def)
    with rows d have "row_cur_hw L db r > 0" by blast
    with r show ?thesis unfolding reported_names_def by force
  qed
  then show "all_reported L ds db" by (auto simp: all_reported_def hw_names_def)
qed

lemma ready_all_reported:
  assumes "lists_daemons L ds db" "prefix_free ds" "n = int (length (filter d_is_hw_handler ds))"
  shows "n \<le> 0 \<or> hw_ready L ds db \<longleftrightarrow> all_reported L ds db"
  using assms(3) by (auto simp: hw_ready_listed [OF assms(1,2)] all_reported_rows [OF assms(1)] filter_empty_conv)

lemma reported_hw:
  assumes "lists_daemons L ds db" "distinct (map d_name ds)"
  shows "reported_names L db \<subseteq> hw_names ds"
proof
  fix n assume "n \<in> reported_names L db"
  then obtain r where r: "r \<in> set (idl_rows L T_Daemon db)" "row_is_hw L db r" "row_name L db r = n"
    by (auto simp: reported_names_def)
  have "row_name L db r \<in> d_name ` set ds" using assms(1) r(1) by (auto simp: lists_daemons_def)
  with r(3) obtain d where d: "d \<in> set ds" "d_name d = n" by auto
  then obtain r' where "r' \<in> set (idl_rows L T_Daemon db)" "row_name L db r' = n" "row_is_hw L db r' = d_is_hw_handler d"
    using assms(1) unfolding lists_daemons_def by metis
  with r assms(1) have "d_is_hw_handler d" unfolding lists_daemons_def by (metis inj_onD)
  with d show "n \<in> hw_names ds" by (auto simp: hw_names_def)
qed

lemma spec_of_started:
  "set (idl_rows L T_System db) = {sys} \<Longrightarrow>
   spec_of L db = \<lparr>phase = (if get_int L sys ''cur_hw'' db = 0 then Waiting else Done),
     zone = get_str L sys ''timezone'' db, reported = reported_names L db\<rparr>"
  by (auto simp: spec_of_def split: list.split)

lemma spec_of_empty: "idl_rows L T_System db = [] \<Longrightarrow> spec_of L db = \<lparr>phase = Unconfigured, zone = None, reported = {}\<rparr>"
  by (simp add: spec_of_def)

section \<open>Steps that clients do not see\<close>

definition same_view :: "('db, 'm) ovs_lib \<Rightarrow> 'db \<Rightarrow> 'db \<Rightarrow> bool" where
  "same_view L db db' \<longleftrightarrow>
     set (idl_rows L T_System db') = set (idl_rows L T_System db) \<and>
     set (idl_rows L T_Daemon db') = set (idl_rows L T_Daemon db) \<and>
     (\<forall>r \<in> set (idl_rows L T_System db). \<forall>c \<in> {''timezone'', ''cur_hw'', ''next_hw''}. idl_get L r c db' = idl_get L r c db) \<and>
     (\<forall>r \<in> set (idl_rows L T_Daemon db). \<forall>c \<in> {''name'', ''is_hw_handler'', ''cur_hw''}. idl_get L r c db' = idl_get L r c db)"

lemma same_view_reported:
  assumes "same_view L db db'"
  shows "reported_names L db' = reported_names L db"
proof -
  have "row_name L db' r = row_name L db r \<and> row_is_hw L db' r = row_is_hw L db r \<and> row_cur_hw L db' r = row_cur_hw L db r"
    if "r \<in> set (idl_rows L T_Daemon db)" for r
    using assms that by (simp add: same_view_def row_name_def row_is_hw_def row_cur_hw_def get_defs)
  moreover have "set (idl_rows L T_Daemon db') = set (idl_rows L T_Daemon db)"
    using assms by (simp add: same_view_def)
  ultimately show ?thesis unfolding reported_names_def by (intro image_cong) auto
qed

lemma same_view_started:
  assumes "same_view L db db'" "started_inv L C Z sys db flag"
  shows "started_inv L C Z sys db' flag \<and> spec_of L db' = spec_of L db"
proof -
  have sys: "set (idl_rows L T_System db) = {sys}" "set (idl_rows L T_System db') = {sys}"
    using assms by (simp_all add: same_view_def started_inv_def)
  have cells: "get_str L sys ''timezone'' db' = get_str L sys ''timezone'' db"
    "get_int L sys ''cur_hw'' db' = get_int L sys ''cur_hw'' db" "get_int L sys ''next_hw'' db' = get_int L sys ''next_hw'' db"
    using assms(1) sys(1) by (simp_all add: same_view_def get_defs)
  have "lists_daemons L (daemons (c_mst C)) db'"
    by (rule lists_daemons_cong [of _ _ db]) (use assms in \<open>simp_all add: same_view_def started_inv_def\<close>)
  moreover have "set (idl_rows L T_Daemon db') = set (idl_rows L T_Daemon db)" using assms(1) by (simp add: same_view_def)
  ultimately show ?thesis
    using assms(2) same_view_reported [OF assms(1)]
    by (simp add: started_inv_def all_reported_def cells sys spec_of_started [OF sys(1)] spec_of_started [OF sys(2)])
qed

context ovs_idl
begin

lemma packages_same_view: "evolves L {T_Package_Info} {} db db' \<Longrightarrow> same_view L db db'"
proof -
  assume ev: "evolves L {T_Package_Info} {} db db'"
  have "idl_get L r c db' = idl_get L r c db" if "r \<in> set (idl_rows L t db)" for r c t
    using evolves_get [OF ev that] by simp
  with evolves_rows(2) [OF ev] show "same_view L db db'" by (simp add: same_view_def)
qed

lemma hw_done_started:
  assumes "started_inv L C Z sys db flag" "all_reported L (daemons (c_mst C)) db"
  defines "db' \<equiv> snd (sysd_set_hw_done L True db)"
  shows "started_inv L C Z sys db' True \<and> spec_of L db' = (spec_of L db)\<lparr>phase := Done\<rparr>"
proof -
  have sys: "set (idl_rows L T_System db) = {sys}" "sys \<notin> set (idl_rows L T_Daemon db)"
    using assms(1) by (simp_all add: started_inv_def)
  have rows: "idl_rows L t db' = idl_rows L t db" for t by (simp add: db'_def set_hw_done_rows)
  have get: "idl_get L r c db' = (if r = sys \<and> (c = ''cur_hw'' \<or> c = ''next_hw'') then VInt 1 else idl_get L r c db)" for r c
    using set_hw_done_get [of r c db] sys(1) by (simp add: db'_def)
  have lists: "lists_daemons L (daemons (c_mst C)) db'"
    by (rule lists_daemons_cong [of _ _ db]) (use assms(1) get in \<open>simp_all add: started_inv_def rows\<close>)
  have "row_name L db' r = row_name L db r \<and> row_is_hw L db' r = row_is_hw L db r \<and> row_cur_hw L db' r = row_cur_hw L db r"
    if "r \<in> set (idl_rows L T_Daemon db)" for r
    using that sys(2) get by (auto simp: row_name_def row_is_hw_def row_cur_hw_def get_defs)
  then have rep: "reported_names L db' = reported_names L db"
    unfolding reported_names_def rows by (intro image_cong) auto
  have cells: "get_str L sys ''timezone'' db' = get_str L sys ''timezone'' db"
    "get_int L sys ''cur_hw'' db' = 1" "get_int L sys ''next_hw'' db' = 1"
    by (simp_all add: get_defs get)
  have sys': "set (idl_rows L T_System db') = {sys}" by (simp add: rows sys)
  show ?thesis
    using assms(1,2) lists
    by (simp add: started_inv_def all_reported_def rep cells rows spec_of_started [OF sys(1)] spec_of_started [OF sys'])
qed

lemma zone_started:
  assumes "started_inv L C Z sys db flag" "c \<in> set (list_of_zones_caps Z)"
  defines "db' \<equiv> idl_set L sys ''timezone'' (VStr c) db"
  shows "started_inv L C Z sys db' flag \<and> spec_of L db' = (spec_of L db)\<lparr>zone := Some c\<rparr>"
proof -
  have sys: "set (idl_rows L T_System db) = {sys}" "set (idl_rows L T_System db') = {sys}"
    using assms(1) by (simp_all add: started_inv_def db'_def rows_set)
  have cells: "get_str L sys ''timezone'' db' = Some c" "get_int L sys ''cur_hw'' db' = get_int L sys ''cur_hw'' db"
    "get_int L sys ''next_hw'' db' = get_int L sys ''next_hw'' db"
    by (simp_all add: db'_def idl_simps)
  have row: "row_name L db' = row_name L db" "row_is_hw L db' = row_is_hw L db" "row_cur_hw L db' = row_cur_hw L db"
    by (simp_all add: fun_eq_iff db'_def row_name_def row_is_hw_def row_cur_hw_def get_other)
  have rows: "idl_rows L t db' = idl_rows L t db" for t by (simp add: db'_def rows_set)
  have rep: "reported_names L db' = reported_names L db" by (simp add: reported_names_def row rows)
  have "lists_daemons L ds db' = lists_daemons L ds db" for ds by (simp add: lists_daemons_def row rows)
  then show ?thesis
    using assms(1,2)
    by (simp add: started_inv_def all_reported_def rep cells rows spec_of_started [OF sys(1)] spec_of_started [OF sys(2)])
qed

end

lemma others_started:
  assumes "started_inv L C Z sys db flag" "others_step L db db'"
  shows "started_inv L C Z sys db' flag \<and>
    spec_of L db' = (spec_of L db)\<lparr>reported := reported_names L db \<union> reported_names L db'\<rparr>"
proof -
  have rows: "set (idl_rows L T_System db') = set (idl_rows L T_System db)" "set (idl_rows L T_Daemon db') = set (idl_rows L T_Daemon db)"
    using assms(2) by (simp_all add: others_step_def others_progress_def)
  have sys: "set (idl_rows L T_System db) = {sys}" "set (idl_rows L T_System db') = {sys}"
    using assms(1) rows by (simp_all add: started_inv_def)
  have cells: "get_str L sys ''timezone'' db' = get_str L sys ''timezone'' db"
    "get_int L sys ''cur_hw'' db' = get_int L sys ''cur_hw'' db" "get_int L sys ''next_hw'' db' = get_int L sys ''next_hw'' db"
    using assms(2) sys(1) by (simp_all add: others_step_def others_progress_def get_defs)
  have lists: "lists_daemons L (daemons (c_mst C)) db'"
    by (rule lists_daemons_cong [of _ _ db]) (use assms in \<open>simp_all add: others_step_def others_progress_def started_inv_def\<close>)
  have "row_name L db' r = row_name L db r \<and> row_is_hw L db' r = row_is_hw L db r \<and>
      (row_cur_hw L db r > 0 \<longrightarrow> row_cur_hw L db' r > 0)" if "r \<in> set (idl_rows L T_Daemon db)" for r
    using assms(2) that by (simp add: others_step_def others_progress_def row_name_def row_is_hw_def get_defs)
  then have mono: "reported_names L db \<subseteq> reported_names L db'"
    unfolding reported_names_def rows by force
  then have "reported_names L db \<union> reported_names L db' = reported_names L db'" by blast
  with mono assms(1) lists show ?thesis
    by (auto simp: started_inv_def all_reported_def cells rows spec_of_started [OF sys(1)] spec_of_started [OF sys(2)])
qed

section \<open>Rounds of the daemon\<close>

definition first_spec :: "sysd_conf \<Rightarrow> spec_state" where
  "first_spec C = \<lparr>phase = Waiting, zone = Some ''UTC'', reported = ready_names (daemons (c_mst C))\<rparr>"

lemma reported_written:
  assumes "daemons_written L ds sys db"
  shows "reported_names L db = ready_names ds"
proof -
  from assms obtain rs where rs: "length rs = length ds" "set (idl_rows L T_Daemon db) = set rs"
    "\<forall>i < length ds. row_name L db (rs ! i) = d_name (ds ! i) \<and>
       row_is_hw L db (rs ! i) = d_is_hw_handler (ds ! i) \<and> row_cur_hw L db (rs ! i) = d_cur_hw (ds ! i)"
    unfolding daemons_written_def by blast
  have "n \<in> reported_names L db \<longleftrightarrow>
      (\<exists>i < length ds. n = d_name (ds ! i) \<and> d_is_hw_handler (ds ! i) \<and> d_cur_hw (ds ! i) > 0)" for n
    using rs unfolding reported_names_def by (force simp: in_set_conv_nth)
  moreover have "n \<in> ready_names ds \<longleftrightarrow>
      (\<exists>i < length ds. n = d_name (ds ! i) \<and> d_is_hw_handler (ds ! i) \<and> d_cur_hw (ds ! i) > 0)" for n
    unfolding ready_names_def by (force simp: in_set_conv_nth)
  ultimately show ?thesis by blast
qed

lemma configured_started:
  assumes "configured L K U dir name (daemons (c_mst C)) s cmn sys sub db" "good_conf C"
  shows "started_inv L C Z sys db False \<and> spec_of L db = first_spec C"
proof -
  have dw: "daemons_written L (daemons (c_mst C)) sys db" and sys: "set (idl_rows L T_System db) = {sys}"
    and cols: "get_str L sys ''timezone'' db = Some ''UTC''" "get_int L sys ''cur_hw'' db = 0" "get_int L sys ''next_hw'' db = 0"
    using assms(1) by (simp_all add: configured_def system_started_def)
  have "sys \<notin> set (idl_rows L T_Daemon db)" using dw by (auto simp: daemons_written_def)
  moreover have "lists_daemons L (daemons (c_mst C)) db"
    using daemons_written_lists [OF dw] assms(2) by (simp add: good_conf_def)
  ultimately show ?thesis
    using sys cols by (simp add: started_inv_def spec_of_started [OF sys] first_spec_def reported_written [OF dw])
qed

lemma run_packages_evolves:
  "run_packages L env st = Inr (st', evs) \<Longrightarrow> writes_kept L env \<Longrightarrow> evolves L {T_Package_Info} {} (replica st) (replica st')"
  by (auto simp: run_packages_def writes_kept_def bindE_eq_Inr evolves_refl split: if_splits)

text \<open>The stages of a round before the time zone, on a configured database and on a fresh one.\<close>

context ovs_idl
begin

lemma stages_started:
  assumes 1: "run_system L C env st = Inr (st1, evs1)" and 2: "run_packages L env st1 = Inr (st2, evs2)"
    and "sound_env L env" and conf: "good_conf C" and inv: "started_inv L C Z sys (replica st) (hw_init_done_set st)"
  shows "started_inv L C Z sys (replica st2) (hw_init_done_set st2) \<and>
    (spec_of L (replica st2) = spec_of L (replica st) \<or>
     spec_of L (replica st2) = (spec_of L (replica st))\<lparr>phase := Done\<rparr> \<and> all_reported L (daemons (c_mst C)) (replica st))"
proof -
  have kept: "writes_kept L env" using assms(3) by (simp add: sound_env_def)
  let ?ds = "daemons (c_mst C)"
  have "idl_rows L T_System (replica st) \<noteq> []" using inv by (auto simp: started_inv_def)
  from run_system_configured [OF 1 this kept] obtain db1 where rows1: "\<And>t. idl_rows L t db1 = idl_rows L t (replica st)"
    and get1: "\<And>r c. idl_get L r c db1 \<noteq> idl_get L r c (replica st) \<Longrightarrow> c \<in> {''software_info'', ''switch_version''}"
    and st1: "replica st1 = db1 \<and> hw_init_done_set st1 = hw_init_done_set st \<or>
     (num_hw_daemons (c_mst C) \<le> 0 \<or> hw_ready L ?ds db1) \<and> hw_init_done_set st1 \<and>
     (replica st1 = db1 \<or> replica st1 = snd (sysd_set_hw_done L True db1))"
    by blast
  have "idl_get L r c db1 = idl_get L r c (replica st)" if "c \<notin> {''software_info'', ''switch_version''}" for r c
    using get1 [of r c] that by blast
  then have view1: "same_view L (replica st) db1" by (simp add: same_view_def rows1)
  note inv1 = same_view_started [OF view1 inv]
  have rep1: "all_reported L ?ds db1 = all_reported L ?ds (replica st)"
    by (simp add: all_reported_def same_view_reported [OF view1])
  have ready: "num_hw_daemons (c_mst C) \<le> 0 \<or> hw_ready L ?ds db1 \<longleftrightarrow> all_reported L ?ds db1"
    using inv1 conf by (intro ready_all_reported) (simp_all add: started_inv_def good_conf_def)
  have "started_inv L C Z sys (replica st1) (hw_init_done_set st1) \<and>
    (spec_of L (replica st1) = spec_of L (replica st) \<or>
     spec_of L (replica st1) = (spec_of L (replica st))\<lparr>phase := Done\<rparr> \<and> all_reported L ?ds (replica st))"
    using st1
  proof (elim disjE conjE)
    assume "replica st1 = db1" "hw_init_done_set st1 = hw_init_done_set st"
    with inv1 show ?thesis by simp
  next
    assume "replica st1 = db1" "hw_init_done_set st1" "num_hw_daemons (c_mst C) \<le> 0"
    with inv1 ready show ?thesis by (simp add: started_inv_def)
  next
    assume "replica st1 = db1" "hw_init_done_set st1" "hw_ready L ?ds db1"
    with inv1 ready show ?thesis by (simp add: started_inv_def)
  next
    assume h: "replica st1 = snd (sysd_set_hw_done L True db1)" "hw_init_done_set st1" "num_hw_daemons (c_mst C) \<le> 0"
    with ready have "all_reported L ?ds db1" by simp
    with hw_done_started [OF conjunct1 [OF inv1] this] h inv1 rep1 show ?thesis by simp
  next
    assume h: "replica st1 = snd (sysd_set_hw_done L True db1)" "hw_init_done_set st1" "hw_ready L ?ds db1"
    with ready have "all_reported L ?ds db1" by simp
    with hw_done_started [OF conjunct1 [OF inv1] this] h inv1 rep1 show ?thesis by simp
  qed
  moreover have "same_view L (replica st1) (replica st2)"
    by (rule packages_same_view [OF run_packages_evolves [OF 2 kept]])
  moreover have "hw_init_done_set st2 = hw_init_done_set st1" using run_packages_keeps [OF 2] by simp
  ultimately show ?thesis using same_view_started [of L "replica st1" "replica st2" C Z sys "hw_init_done_set st1"] by simp
qed

lemma configure_fresh:
  assumes "good_conf C" "fresh_db L db"
  shows "\<exists>sys db'. sysd_initial_configure L (c_names C) (c_utils C) (c_yaml C) (c_dir C) release (True, True, True)
    (c_mst C) (c_subs C) db = Inr db' \<and> started_inv L C Z sys db' False \<and> spec_of L db' = first_spec C"
proof -
  obtain name s cmn where conf: "mgmt_intf_name (c_mst C) = Inr name" "wf_config (c_yaml C)" "c_subs C = [s]"
    "intf_cmn_info s = Some cmn" "list_all (port_ok (c_names C)) (interfaces s)" "distinct (map yp_name (interfaces s))"
    using assms(1) by (auto simp: good_conf_def)
  have "t \<noteq> T_Package_Info \<Longrightarrow> idl_rows L t db = []" for t using assms(2) by (simp add: fresh_db_def)
  from configured_first [OF this conf(1,2,4-6)] configured_started [OF _ assms(1)] show ?thesis
    unfolding conf(3) by meson
qed

lemma stages_fresh:
  assumes 1: "run_system L C env st = Inr (st1, evs1)" and 2: "run_packages L env st1 = Inr (st2, evs2)"
    and "sound_env L env" "good_conf C" and fresh: "fresh_db L (replica st)"
  shows "hw_init_done_set st2 = hw_init_done_set st \<and>
    (fresh_db L (replica st2) \<or> (\<exists>sys. started_inv L C Z sys (replica st2) False \<and> spec_of L (replica st2) = first_spec C))"
proof -
  have kept: "writes_kept L env" and al: "e_allocs env = (True, True, True)" using assms(3) by (simp_all add: sound_env_def)
  have none: "idl_rows L T_System (replica st) = []" using fresh by (simp add: fresh_db_def)
  obtain sys db' where conf: "sysd_initial_configure L (c_names C) (c_utils C) (c_yaml C) (c_dir C) (e_release env)
    (True, True, True) (c_mst C) (c_subs C) (replica st) = Inr db'"
    and db': "started_inv L C Z sys db' False" "spec_of L db' = first_spec C"
    using configure_fresh [OF assms(4) fresh] by blast
  note ev = run_packages_evolves [OF 2 kept]
  have flag: "hw_init_done_set st2 = hw_init_done_set st"
    using run_packages_keeps [OF 2] run_system_flag(3) [OF 1 none] by simp
  show ?thesis
  proof (cases "e_init_committed env")
    case True
    with 1 none conf al have "replica st1 = db'" by (auto simp: run_system_def)
    with same_view_started [OF packages_same_view [OF ev], of C Z sys False] db'
    have "started_inv L C Z sys (replica st2) False \<and> spec_of L (replica st2) = first_spec C" by simp
    with flag show ?thesis by blast
  next
    case False
    with 1 none conf al have st1: "replica st1 = replica st" by (auto simp: run_system_def)
    have "idl_rows L t (replica st2) = []" if "t \<noteq> T_Package_Info" for t
      using evolves_rows(2) [OF ev, of t] that fresh by (simp add: st1 fresh_db_def)
    with flag show ?thesis by (simp add: fresh_db_def)
  qed
qed

end

lemma zone_link:
  assumes "zone_db_wf Z" "started_inv L C Z sys db flag" "get_str L sys ''timezone'' db = Some c"
  shows "sysd_handle_timezone_update L db =
    Inr [Tz_Unlink ''/etc/localtime'', Tz_Symlink (posix_path @ c) ''/etc/localtime'']"
proof -
  have "c \<in> insert ''UTC'' (set (list_of_zones_caps Z))" using assms(2,3) by (auto simp: started_inv_def)
  then have "length c < 100" using assms(1) by (auto simp: zone_db_wf_def size_defs list_all_iff)
  moreover obtain rest where "idl_rows L T_System db = sys # rest"
    using assms(2) rows_single [of "idl_rows L T_System db" sys] by (auto simp: started_inv_def)
  ultimately show ?thesis using assms(3) by (simp add: sysd_handle_timezone_update_def posix_path_def)
qed

section \<open>Every step refines the abstract machine and keeps the invariant\<close>

abbreviation spec_steps :: "sysd_conf \<Rightarrow> zone_db \<Rightarrow> spec_state \<Rightarrow> spec_state \<Rightarrow> bool" where
  "spec_steps C Z \<equiv> spec_step (list_of_zones_caps Z) (hw_names (daemons (c_mst C))) (ready_names (daemons (c_mst C)))"

lemma fresh_no_system: "fresh_db L db \<Longrightarrow> idl_rows L T_System db = []"
  by (simp add: fresh_db_def)

lemma started_phase:
  assumes "started_inv L C Z sys db flag"
  shows "phase (spec_of L db) = (if get_int L sys ''cur_hw'' db = 0 then Waiting else Done)"
    and "reported (spec_of L db) = reported_names L db"
  using assms by (simp_all add: started_inv_def spec_of_started)

context ovs_idl
begin

lemma round_refines:
  assumes "good_conf C" "world_inv L C Z w" "e_db env = w_db w" "sound_env L env"
    and run: "sysd_run L C env (w_sysd w) = Inr (st', evs)"
  shows "world_inv L C Z \<lparr>w_db = replica st', w_sysd = st'\<rparr> \<and>
    (spec_of L (replica st') = spec_of L (w_db w) \<or> spec_steps C Z (spec_of L (w_db w)) (spec_of L (replica st')))"
proof (cases "active env (w_sysd w)")
  case False
  with run have "replica st' = w_db w" "hw_init_done_set st' = hw_init_done_set (w_sysd w)"
    by (auto simp: run_idle assms(3))
  with assms(2) show ?thesis by (simp add: world_inv_def)
next
  case True
  then obtain st1 evs1 evs2 where 1: "run_system L C env (enter env (w_sysd w)) = Inr (st1, evs1)"
    and 2: "run_packages L env st1 = Inr (st', evs2)"
    using run by (auto simp: run_active)
  from assms(2) consider "fresh_db L (w_db w)" "\<not> hw_init_done_set (w_sysd w)"
    | sys where "started_inv L C Z sys (w_db w) (hw_init_done_set (w_sysd w))"
    by (auto simp: world_inv_def)
  then show ?thesis
  proof cases
    case 1
    from stages_fresh [OF \<open>run_system L C env _ = _\<close> 2 assms(4,1), of Z] 1 assms(3)
    consider "fresh_db L (replica st')" "\<not> hw_init_done_set st'"
      | sys where "started_inv L C Z sys (replica st') False" "spec_of L (replica st') = first_spec C" "\<not> hw_init_done_set st'"
      by auto
    then show ?thesis
    proof cases
      case a: 1
      then show ?thesis using 1 by (simp add: world_inv_def spec_of_empty fresh_no_system)
    next
      case a: 2
      then have "world_inv L C Z \<lparr>w_db = replica st', w_sysd = st'\<rparr>" by (auto simp: world_inv_def)
      moreover have "spec_steps C Z (spec_of L (w_db w)) (first_spec C)"
        unfolding first_spec_def using 1 by (intro spec_configure) (simp add: spec_of_empty fresh_no_system)
      ultimately show ?thesis using a(2) by simp
    qed
  next
    case 2
    from stages_started [OF 1 \<open>run_packages L env st1 = _\<close> assms(4,1), of Z sys] 2 assms(3)
    have inv: "started_inv L C Z sys (replica st') (hw_init_done_set st')"
      and spec: "spec_of L (replica st') = spec_of L (w_db w) \<or>
        spec_of L (replica st') = (spec_of L (w_db w))\<lparr>phase := Done\<rparr> \<and> all_reported L (daemons (c_mst C)) (w_db w)"
      by simp_all
    have "spec_of L (replica st') = spec_of L (w_db w) \<or> spec_steps C Z (spec_of L (w_db w)) (spec_of L (replica st'))"
    proof (cases "phase (spec_of L (w_db w)) = Waiting")
      case True
      then have "spec_steps C Z (spec_of L (w_db w)) ((spec_of L (w_db w))\<lparr>phase := Done\<rparr>)"
        if "all_reported L (daemons (c_mst C)) (w_db w)"
        using that by (intro spec_finish) (simp_all add: all_reported_def started_phase(2) [OF 2])
      with spec show ?thesis by auto
    next
      case False
      then have "phase (spec_of L (w_db w)) = Done" using started_phase(1) [OF 2] by (simp split: if_splits)
      then show ?thesis using spec by auto
    qed
    with inv show ?thesis by (auto simp: world_inv_def)
  qed
qed

lemma zone_step_started:
  assumes "zone_db_wf Z" "cli_set_timezone L Z nl start_ok committed info no_flags db = Inr (res, out, db')"
    and inv: "started_inv L C Z sys db flag"
  shows "started_inv L C Z sys db' flag \<and>
    (spec_of L db' = spec_of L db \<or> (\<exists>c \<in> set (list_of_zones_caps Z). spec_of L db' = (spec_of L db)\<lparr>zone := Some c\<rparr>))"
  using set_timezone_effect [OF assms(1,2)]
proof (elim disjE exE conjE)
  fix sys' rest c
  assume sys: "idl_rows L T_System db = sys' # rest" and c: "c \<in> set (list_of_zones_caps Z)"
    and db': "db' = idl_set L sys' ''timezone'' (VStr c) db"
  have "sys' = sys" using inv sys by (auto simp: started_inv_def)
  with zone_started [OF inv c] c show ?thesis unfolding db' by blast
qed (use inv in simp)

lemma step_refines:
  assumes "good_conf C" "zone_db_wf Z" "world_inv L C Z w" "sys_step L C Z w l w'"
  shows "world_inv L C Z w' \<and> (spec_of L (w_db w') = spec_of L (w_db w) \<or> spec_steps C Z (spec_of L (w_db w)) (spec_of L (w_db w')))"
  using assms(4)
proof cases
  case (step_round env st' evs)
  with round_refines [OF assms(1,3)] show ?thesis by simp
next
  case (step_others db')
  then have "\<not> fresh_db L (w_db w)" by (auto simp: others_step_def fresh_db_def)
  then obtain sys where inv: "started_inv L C Z sys (w_db w) (hw_init_done_set (w_sysd w))"
    using assms(3) by (auto simp: world_inv_def)
  from others_started [OF inv step_others(3)] have inv': "started_inv L C Z sys db' (hw_init_done_set (w_sysd w))"
    and spec: "spec_of L db' = (spec_of L (w_db w))\<lparr>reported := reported_names L (w_db w) \<union> reported_names L db'\<rparr>" by simp_all
  have "reported_names L db' \<subseteq> hw_names (daemons (c_mst C))"
    using inv' assms(1) by (intro reported_hw) (simp_all add: started_inv_def good_conf_def)
  then have "spec_steps C Z (spec_of L (w_db w)) (spec_of L db')"
    unfolding spec started_phase(2) [OF inv, symmetric]
    by (intro spec_report) (simp_all add: started_phase(1) [OF inv])
  with inv' step_others show ?thesis by (auto simp: world_inv_def)
next
  case (step_zone nl start_ok committed info no_flags res out db')
  show ?thesis
  proof (cases "fresh_db L (w_db w) \<and> \<not> hw_init_done_set (w_sysd w)")
    case True
    with set_timezone_effect [OF assms(2) step_zone(3)] have "db' = w_db w" by (auto simp: fresh_db_def)
    with assms(3) step_zone show ?thesis by (simp add: world_inv_def)
  next
    case False
    with assms(3) obtain sys where inv: "started_inv L C Z sys (w_db w) (hw_init_done_set (w_sysd w))"
      by (auto simp: world_inv_def)
    note zone = zone_step_started [OF assms(2) step_zone(3) inv]
    have "spec_steps C Z (spec_of L (w_db w)) ((spec_of L (w_db w))\<lparr>zone := Some c\<rparr>)" if "c \<in> set (list_of_zones_caps Z)" for c
      using that by (intro spec_zone) (simp_all add: started_phase(1) [OF inv])
    with zone step_zone show ?thesis by (auto simp: world_inv_def)
  qed
qed

end

text \<open>
  The system with a configuration and a table of zones that fit: an instance of the interface, and one of
  every database library.
\<close>

locale system = ovs_idl L for L :: "('db, 'm) ovs_lib" +
  fixes C :: sysd_conf and Z :: zone_db
  assumes good: "good_conf C" and zones: "zone_db_wf Z"
begin

lemma initial_inv:
  assumes "initial_world L w"
  shows "world_inv L C Z w" "spec_of L (w_db w) = \<lparr>phase = Unconfigured, zone = None, reported = {}\<rparr>"
  using assms by (simp_all add: world_inv_def initial_world_def fresh_db_def spec_of_empty)

end

sublocale system \<subseteq> sim: simulation "initial_world L" "sys_step L C Z" "world_inv L C Z" "\<lambda>w. spec_of L (w_db w)"
  "spec_steps C Z" "\<lparr>phase = Unconfigured, zone = None, reported = {}\<rparr>"
  by unfold_locales (blast intro: initial_inv dest: step_refines [OF good zones])+

lemma systemI: "ovs_idl L \<Longrightarrow> good_conf C \<Longrightarrow> zone_db_wf Z \<Longrightarrow> system L C Z"
  by (simp add: system_def system_axioms_def)

text \<open>Both programs as they start: a daemon that reached its loop, a plugin that installed its zone commands.\<close>

lemma system_started:
  assumes "ovs_idl L" "main_start program_name ovs_rundir opts args E = Inr (Inr (cs, Running b))"
    and "mgmt_intf_name (g_mst b) = Inr name" "wf_config (b_yaml E)"
    and "g_subsystems b = [s]" "list_all (port_ok K) (interfaces s)" "distinct (map yp_name (interfaces s))"
    and "distinct (map d_name (daemons (g_mst b)))" "prefix_free (daemons (g_mst b))"
    and "cli_pre_init allocs doc doc_no dir = Inr P" "tz_cmds P = Some T"
  shows "system L (conf_of K E b) (zone_table T)"
proof (rule systemI [OF assms(1) boot_good_conf [OF conjunct1 [OF main_running [OF assms(2)]] assms(3-9)]])
  obtain rc where "system_install_timezone_set_command allocs doc doc_no dir = Inr (rc, Some T)"
    using assms(10,11) by (auto simp: cli_pre_init_def bindE_eq_Inr)
  then show "zone_db_wf (zone_table T)" by (simp add: installed_table)
qed

context system
begin

lemma reachable_inv: "reachable L C Z w \<Longrightarrow> world_inv L C Z w"
  unfolding reachable_def by (rule sim.inv_reachable)

lemma reachable_refines:
  assumes "reachable L C Z w"
  shows "(spec_steps C Z)\<^sup>*\<^sup>* \<lparr>phase = Unconfigured, zone = None, reported = {}\<rparr> (spec_of L (w_db w))"
    and "sys_step L C Z w l w' \<Longrightarrow>
      spec_of L (w_db w') = spec_of L (w_db w) \<or> spec_steps C Z (spec_of L (w_db w)) (spec_of L (w_db w'))"
  using sim.view_reachable sim.step_simulated assms unfolding reachable_def by blast+

lemma reachable_started:
  assumes "reachable L C Z w" "idl_rows L T_System (w_db w) \<noteq> []"
  obtains sys rest c where "idl_rows L T_System (w_db w) = sys # rest"
    "started_inv L C Z sys (w_db w) (hw_init_done_set (w_sysd w))"
    "get_str L sys ''timezone'' (w_db w) = Some c" "length c < MAX_TIMEZONE_NAME_SIZE"
proof -
  have "\<not> fresh_db L (w_db w)" using assms(2) by (auto simp: fresh_db_def)
  with reachable_inv [OF assms(1)] obtain sys where inv: "started_inv L C Z sys (w_db w) (hw_init_done_set (w_sysd w))"
    by (auto simp: world_inv_def)
  then obtain c where c: "c \<in> insert ''UTC'' (set (list_of_zones_caps Z))" "get_str L sys ''timezone'' (w_db w) = Some c"
    by (auto simp: started_inv_def)
  have "length c < MAX_TIMEZONE_NAME_SIZE" using c(1) zones by (auto simp: zone_db_wf_def size_defs list_all_iff)
  moreover obtain rest where "idl_rows L T_System (w_db w) = sys # rest"
    using inv rows_single [of "idl_rows L T_System (w_db w)" sys] by (auto simp: started_inv_def)
  ultimately show ?thesis using that inv c(2) by blast
qed

end

section \<open>Rounds return, and what they do next\<close>

text \<open>
  A library that answers. The software columns are written without a transaction, which the library need not
  survive: \<open>sw_write_passes\<close> says that it does; with no release file there is nothing to write. And the events
  of the package file are such that the package transactions return.
\<close>

definition sw_write_passes :: "('db, 'm) ovs_lib \<Rightarrow> 'db run_env \<Rightarrow> bool" where
  "sw_write_passes L env \<longleftrightarrow>
     (\<forall>cfg \<in> set (idl_rows L T_System (e_db env)).
        \<exists>d. e_outside env (e_db env) (sysd_update_sw_info L (e_release env) cfg (e_db env)) = Inr d)"

definition answering :: "('db, 'm) ovs_lib \<Rightarrow> 'db run_env \<Rightarrow> bool" where
  "answering L env \<longleftrightarrow> sw_write_passes L env \<and>
     (\<exists>cs. sysd_add_package_info (e_insert_ok env) (e_parser_ok env) (e_version_file env) = Inr cs)"

lemma answeringI: "sw_write_passes L env \<Longrightarrow> file_in_order (e_version_file env) \<Longrightarrow> answering L env"
  using file_in_order_returns [of "e_version_file env" "e_insert_ok env" "e_parser_ok env"] by (auto simp: answering_def)

lemma active_run:
  "active env st \<Longrightarrow> sysd_run L C env st =
     bindE (lift_fault (run_system L C env (enter env st))) (\<lambda>(st1, evs1).
       bindE (lift_misuse (run_packages L env st1)) (\<lambda>(st2, evs2).
         bindE (lift_fault (sysd_handle_timezone_update L (replica st2))) (\<lambda>tz.
           Inr (st2, evs1 @ evs2 @ [Timezone tz, Startup_Complete]))))"
  by (simp add: sysd_run_def active_def Let_def)

context ovs_idl
begin

lemma stages_return:
  assumes "good_conf C" "sound_env L env" "answering L env"
    and st: "replica st = e_db env" "fresh_db L (replica st) \<or> idl_rows L T_System (replica st) \<noteq> []"
  shows "\<exists>st1 evs1 st2 evs2. run_system L C env st = Inr (st1, evs1) \<and> run_packages L env st1 = Inr (st2, evs2)"
proof -
  obtain cs where pk: "sysd_add_package_info (e_insert_ok env) (e_parser_ok env) (e_version_file env) = Inr cs"
    using assms(3) by (auto simp: answering_def)
  have "\<exists>st1 evs1. run_system L C env st = Inr (st1, evs1)"
  proof (cases "idl_rows L T_System (replica st)")
    case Nil
    with st(2) obtain db' where "sysd_initial_configure L (c_names C) (c_utils C) (c_yaml C) (c_dir C) (e_release env)
      (True, True, True) (c_mst C) (c_subs C) (replica st) = Inr db'" using configure_fresh [OF assms(1)] by blast
    with Nil assms(2) show ?thesis by (simp add: run_system_def sound_env_def)
  next
    case (Cons cfg rest)
    obtain db1 where "e_outside env (replica st) (sysd_update_sw_info L (e_release env) cfg (replica st)) = Inr db1"
      using assms(3) Cons st(1) by (auto simp: answering_def sw_write_passes_def)
    with Cons show ?thesis by (simp add: run_system_def split_beta Let_def)
  qed
  then obtain st1 evs1 where "run_system L C env st = Inr (st1, evs1)" by blast
  moreover have "\<exists>st2 evs2. run_packages L env st1 = Inr (st2, evs2)" by (simp add: run_packages_def pk)
  ultimately show ?thesis by blast
qed

lemma round_started_returns:
  assumes "good_conf C" "zone_db_wf Z" "started_inv L C Z sys (e_db env) (hw_init_done_set st)"
    and "sound_env L env" "answering L env" "active env st" and zone: "get_str L sys ''timezone'' (e_db env) = Some c"
  shows "\<exists>st' evs. sysd_run L C env st = Inr (st', evs) \<and>
    Timezone [Tz_Unlink ''/etc/localtime'', Tz_Symlink (posix_path @ c) ''/etc/localtime''] \<in> set evs"
proof -
  have "idl_rows L T_System (replica (enter env st)) \<noteq> []" using assms(3) by (auto simp: started_inv_def)
  from stages_return [OF assms(1,4,5) _ disjI2 [OF this]] obtain st1 evs1 st2 evs2 where
    1: "run_system L C env (enter env st) = Inr (st1, evs1)" and 2: "run_packages L env st1 = Inr (st2, evs2)" by auto
  from stages_started [OF 1 2 assms(4,1), of Z sys] assms(3)
  have inv: "started_inv L C Z sys (replica st2) (hw_init_done_set st2)"
    and spec: "zone (spec_of L (replica st2)) = zone (spec_of L (e_db env))" by auto
  have "set (idl_rows L T_System (replica st2)) = {sys}" "set (idl_rows L T_System (e_db env)) = {sys}"
    using inv assms(3) by (simp_all add: started_inv_def)
  with spec zone have "get_str L sys ''timezone'' (replica st2) = Some c" by (simp add: spec_of_started)
  from zone_link [OF assms(2) inv this] 1 2 show ?thesis
    by (auto simp: run_active [OF assms(6)])
qed

text \<open>The ways a round can fail: the write without a transaction, and the package file.\<close>

lemma zone_readable:
  assumes "zone_db_wf Z" "fresh_db L db \<or> started_inv L C Z sys db flag"
  shows "\<exists>tz. sysd_handle_timezone_update L db = Inr tz"
  using assms(2)
proof
  assume "fresh_db L db"
  then show ?thesis by (simp add: sysd_handle_timezone_update_def fresh_no_system)
next
  assume inv: "started_inv L C Z sys db flag"
  then obtain c where "get_str L sys ''timezone'' db = Some c" by (auto simp: started_inv_def)
  from zone_link [OF assms(1) inv this] show ?thesis by blast
qed

lemma stages_zone_readable:
  assumes "good_conf C" "zone_db_wf Z" "world_inv L C Z w" "e_db env = w_db w" "sound_env L env"
    and run: "run_system L C env (enter env (w_sysd w)) = Inr (st1, evs1)" "run_packages L env st1 = Inr (st2, evs2)"
  shows "\<exists>tz. sysd_handle_timezone_update L (replica st2) = Inr tz"
proof -
  from assms(3) consider "fresh_db L (replica (enter env (w_sysd w)))"
    | sys where "started_inv L C Z sys (replica (enter env (w_sysd w))) (hw_init_done_set (enter env (w_sysd w)))"
    by (auto simp: world_inv_def assms(4))
  then show ?thesis
  proof cases
    case 1
    from stages_fresh [OF run assms(5,1) 1, of Z] zone_readable [OF assms(2)] show ?thesis by blast
  next
    case 2
    from stages_started [OF run assms(5,1) 2] zone_readable [OF assms(2)] show ?thesis by blast
  qed
qed

lemma system_stage_fault:
  assumes "good_conf C" "world_inv L C Z w" "e_db env = w_db w" "sound_env L env"
    and fault: "run_system L C env (enter env (w_sysd w)) = Inl f"
  shows "\<exists>cfg rest. idl_rows L T_System (w_db w) = cfg # rest \<and>
    e_outside env (w_db w) (sysd_update_sw_info L (e_release env) cfg (w_db w)) = Inl f"
proof (cases "idl_rows L T_System (w_db w)")
  case Nil
  with assms(2) have "fresh_db L (replica (enter env (w_sysd w)))"
    by (auto simp: world_inv_def started_inv_def assms(3))
  then have "fresh_db L (w_db w)" by (simp add: assms(3))
  from configure_fresh [OF assms(1) this] obtain db' where
    "sysd_initial_configure L (c_names C) (c_utils C) (c_yaml C) (c_dir C) (e_release env) (True, True, True)
       (c_mst C) (c_subs C) (w_db w) = Inr db'" by blast
  with fault Nil assms(3,4) show ?thesis by (simp add: run_system_def sound_env_def)
next
  case (Cons cfg rest)
  with fault assms(3) show ?thesis
    by (cases "e_outside env (w_db w) (sysd_update_sw_info L (e_release env) cfg (w_db w))")
       (simp_all add: run_system_def split_beta Let_def split: if_splits)
qed

lemma round_faults:
  assumes "good_conf C" "zone_db_wf Z" "world_inv L C Z w" "e_db env = w_db w" "sound_env L env"
    and fault: "sysd_run L C env (w_sysd w) = Inl x"
  shows "active env (w_sysd w) \<and>
    ((\<exists>f cfg rest. x = Run_Fault f \<and> idl_rows L T_System (w_db w) = cfg # rest \<and>
        e_outside env (w_db w) (sysd_update_sw_info L (e_release env) cfg (w_db w)) = Inl f) \<or>
     (\<exists>m. x = Run_Misuse m \<and> sysd_add_package_info (e_insert_ok env) (e_parser_ok env) (e_version_file env) = Inl m))"
proof -
  have act: "active env (w_sysd w)"
  proof (rule ccontr)
    assume "\<not> active env (w_sysd w)"
    with fault show False by (simp add: run_idle)
  qed
  show ?thesis
  proof (cases "run_system L C env (enter env (w_sysd w))")
    case (Inl f)
    with fault act have "x = Run_Fault f" by (simp add: active_run)
    with system_stage_fault [OF assms(1,3,4,5) Inl] act show ?thesis by blast
  next
    case (Inr p)
    obtain st1 evs1 where p: "p = (st1, evs1)" by (cases p)
    note 1 = Inr [unfolded p]
    show ?thesis
    proof (cases "run_packages L env st1")
      case (Inl m)
      then have "sysd_add_package_info (e_insert_ok env) (e_parser_ok env) (e_version_file env) = Inl m"
        by (auto simp: run_packages_def bindE_def split: if_splits sum.splits)
      with fault act 1 Inl show ?thesis by (simp add: active_run)
    next
      case (Inr q)
      obtain st2 evs2 where q: "q = (st2, evs2)" by (cases q)
      from stages_zone_readable [OF assms(1-5) 1 Inr [unfolded q]] fault act 1 Inr q show ?thesis
        by (auto simp: active_run)
    qed
  qed
qed

lemma round_returns:
  assumes "good_conf C" "zone_db_wf Z" "world_inv L C Z w" "e_db env = w_db w" "sound_env L env" "answering L env"
  shows "\<exists>st' evs. sysd_run L C env (w_sysd w) = Inr (st', evs)"
proof (cases "sysd_run L C env (w_sysd w)")
  case (Inl x)
  from round_faults [OF assms(1-5) this] assms(4,6) show ?thesis
    by (auto simp: answering_def sw_write_passes_def)
next
  case (Inr p)
  then show ?thesis by (cases p) simp
qed

lemma round_completes:
  assumes "good_conf C" "zone_db_wf Z" "started_inv L C Z sys (e_db env) False" "\<not> hw_init_done_set st"
    and "sound_env L env" "answering L env" "active env st" "e_hw_committed env"
    and "all_reported L (daemons (c_mst C)) (e_db env)"
  shows "\<exists>st' evs. sysd_run L C env st = Inr (st', evs) \<and> hw_init_done_set st' \<and> phase (spec_of L (replica st')) = Done"
proof -
  let ?st = "enter env st" and ?ds = "daemons (c_mst C)"
  obtain c where zone: "get_str L sys ''timezone'' (e_db env) = Some c" using assms(3) by (auto simp: started_inv_def)
  have inv: "started_inv L C Z sys (e_db env) (hw_init_done_set st)" using assms(3,4) by simp
  obtain st' evs where run: "sysd_run L C env st = Inr (st', evs)"
    using round_started_returns [OF assms(1,2) inv assms(5,6,7) zone] by blast
  then obtain st1 evs1 evs2 where 1: "run_system L C env ?st = Inr (st1, evs1)" and 2: "run_packages L env st1 = Inr (st', evs2)"
    by (auto simp: run_active [OF assms(7)])
  have kept: "writes_kept L env" using assms(5) by (simp add: sound_env_def)
  obtain cfg rest where rows: "idl_rows L T_System (e_db env) = cfg # rest"
    using assms(3) rows_single [of "idl_rows L T_System (e_db env)" sys] by (auto simp: started_inv_def)
  with 1 assms(4) obtain db1 where out: "e_outside env (e_db env) (sysd_update_sw_info L (e_release env) cfg (e_db env)) = Inr db1"
    and st1: "replica st1 = snd (sysd_chk_if_hw_daemons_done L ?ds (num_hw_daemons (c_mst C)) (e_hw_committed env) (False, db1))"
    "hw_init_done_set st1 = fst (sysd_chk_if_hw_daemons_done L ?ds (num_hw_daemons (c_mst C)) (e_hw_committed env) (False, db1))"
    by (auto simp: run_system_def bindE_eq_Inr split_beta Let_def)
  have "idl_rows L t db1 = idl_rows L t (e_db env)" for t using kept out by (simp add: writes_kept_def)
  moreover have "idl_get L r c db1 = idl_get L r c (e_db env)" if "c \<notin> {''software_info'', ''switch_version''}" for r c
    using kept out sw_info_frame [of r cfg c "e_release env" "e_db env"] that unfolding writes_kept_def by fastforce
  ultimately have view: "same_view L (e_db env) db1" by (simp add: same_view_def)
  note inv1 = conjunct1 [OF same_view_started [OF view assms(3)]]
  have rep: "all_reported L ?ds db1" using assms(9) by (simp add: all_reported_def same_view_reported [OF view])
  have "num_hw_daemons (c_mst C) \<le> 0 \<or> hw_ready L ?ds db1 \<longleftrightarrow> all_reported L ?ds db1"
    using inv1 assms(1) by (intro ready_all_reported) (simp_all add: started_inv_def good_conf_def)
  with rep st1 assms(8) have st1': "replica st1 = snd (sysd_set_hw_done L True db1)" "hw_init_done_set st1"
    by (simp_all add: check_done_cases) (simp add: sysd_set_hw_done_def Let_def)
  from hw_done_started [OF inv1 rep] have fin: "started_inv L C Z sys (replica st1) True" "phase (spec_of L (replica st1)) = Done"
    by (simp_all add: st1')
  from same_view_started [OF packages_same_view [OF run_packages_evolves [OF 2 kept]] fin(1)] fin(2)
  have "phase (spec_of L (replica st')) = Done" by simp
  moreover have "hw_init_done_set st'" using run_packages_keeps [OF 2] st1' by simp
  ultimately show ?thesis using run by blast
qed

end

section \<open>The zone between commands\<close>

fun is_zone_command :: "sys_label \<Rightarrow> bool" where
  "is_zone_command (Zone_Command _ _ _) = True"
| "is_zone_command _ = False"

context ovs_idl
begin

lemma step_keeps_zone:
  assumes "good_conf C" "started_inv L C Z sys (w_db w) (hw_init_done_set (w_sysd w))"
    and "sys_step L C Z w l w'" "\<not> is_zone_command l"
  shows "started_inv L C Z sys (w_db w') (hw_init_done_set (w_sysd w')) \<and> zone (spec_of L (w_db w')) = zone (spec_of L (w_db w))"
  using assms(3)
proof cases
  case (step_round env st' evs)
  show ?thesis
  proof (cases "active env (w_sysd w)")
    case False
    with step_round have "replica st' = w_db w" "hw_init_done_set st' = hw_init_done_set (w_sysd w)"
      by (auto simp: run_idle)
    with step_round assms(2) show ?thesis by simp
  next
    case True
    with step_round obtain st1 evs1 evs2 where 1: "run_system L C env (enter env (w_sysd w)) = Inr (st1, evs1)"
      and 2: "run_packages L env st1 = Inr (st', evs2)" by (auto simp: run_active)
    from stages_started [OF 1 2 step_round(4) assms(1), of Z sys] assms(2) step_round show ?thesis by auto
  qed
next
  case (step_others db')
  with others_started [OF assms(2), of db'] show ?thesis by simp
next
  case step_zone
  with assms(4) show ?thesis by simp
qed

lemma steps_keep_zone:
  assumes "sys_steps L C Z w ls w'" "good_conf C" "started_inv L C Z sys (w_db w) (hw_init_done_set (w_sysd w))"
    and "\<forall>l \<in> set ls. \<not> is_zone_command l"
  shows "started_inv L C Z sys (w_db w') (hw_init_done_set (w_sysd w')) \<and> zone (spec_of L (w_db w')) = zone (spec_of L (w_db w))"
  by (rule lsteps_keep [OF assms(1) _ assms(4), where P = "\<lambda>v. started_inv L C Z sys (w_db v) (hw_init_done_set (w_sysd v)) \<and>
        zone (spec_of L (w_db v)) = zone (spec_of L (w_db w))"])
     (use assms(3) step_keeps_zone [OF assms(2)] in auto)

text \<open>A daemon's report is such progress.\<close>

lemma report_step:
  assumes "started_inv L C Z sys db flag" "r \<in> set (idl_rows L T_Daemon db)" "k > 0"
  shows "others_step L db (idl_set L r ''cur_hw'' (VInt k) db)"
proof -
  have "sys \<noteq> r" using assms(1,2) by (auto simp: started_inv_def)
  then have "idl_get L sys c (idl_set L r ''cur_hw'' (VInt k) db) = idl_get L sys c db" for c by (simp add: get_set_other)
  moreover have "row_cur_hw L (idl_set L r ''cur_hw'' (VInt k) db) q = (if q = r then k else row_cur_hw L db q)" for q
    by (simp add: row_cur_hw_def idl_simps)
  ultimately show ?thesis
    using assms(1,3) by (auto simp: others_step_def others_progress_def started_inv_def rows_set get_set_other)
qed

end

context system
begin

lemma zone_command_followed:
  assumes "reachable L C Z w" "idl_rows L T_System (w_db w) \<noteq> []"
    and set: "cli_platform_timezone_set L Z nl True True info (w_db w) = Inr (CMD_SUCCESS, out, db')"
    and steps: "sys_steps L C Z (w\<lparr>w_db := db'\<rparr>) ls w2" "\<forall>l \<in> set ls. \<not> is_zone_command l"
    and env: "e_db env = w_db w2" "sound_env L env" "answering L env" "active env (w_sysd w2)"
  shows "\<exists>c st' evs. c \<in> set (list_of_zones_caps Z) \<and> tolower_str c = info \<and> sysd_run L C env (w_sysd w2) = Inr (st', evs) \<and>
    Timezone [Tz_Unlink ''/etc/localtime'', Tz_Symlink (posix_path @ c) ''/etc/localtime''] \<in> set evs"
proof -
  obtain sys rest tz where sys: "idl_rows L T_System (w_db w) = sys # rest"
    "started_inv L C Z sys (w_db w) (hw_init_done_set (w_sysd w))"
    "get_str L sys ''timezone'' (w_db w) = Some tz" "length tz < MAX_TIMEZONE_NAME_SIZE"
    by (rule reachable_started [OF assms(1,2)])
  from set_timezone_success [OF zones sys(1,3,4)] set
  obtain c where c: "c \<in> set (list_of_zones_caps Z)" "tolower_str c = info" "db' = idl_set L sys ''timezone'' (VStr c) (w_db w)"
    unfolding cli_platform_timezone_set_def by blast
  from zone_started [OF sys(2) c(1)] have db': "started_inv L C Z sys db' (hw_init_done_set (w_sysd w))"
    "zone (spec_of L db') = Some c" by (simp_all add: c(3))
  from steps_keep_zone [OF steps(1) good _ steps(2)] db'
  have w2: "started_inv L C Z sys (w_db w2) (hw_init_done_set (w_sysd w2))" "zone (spec_of L (w_db w2)) = Some c" by simp_all
  have "set (idl_rows L T_System (w_db w2)) = {sys}" using w2(1) by (simp add: started_inv_def)
  with w2(2) have "get_str L sys ''timezone'' (w_db w2) = Some c" by (simp add: spec_of_started)
  with round_started_returns [OF good zones _ env(2,3,4), of sys c] w2(1) c(1,2) show ?thesis by (auto simp: env(1))
qed

end

section \<open>Properties of the whole system\<close>

text \<open>
  Claim C1. The system refines the abstract machine: what clients see starts unconfigured, and in every state
  the system can reach, every step - a round with any commits failing, progress of other daemons, a command -
  leaves it as it is or is a step of the machine: configuring to UTC once, a report, done only when all
  hardware daemons have reported, a zone of the table.
\<close>

theorem system_refines:
  assumes "ovs_idl L" "good_conf C" "zone_db_wf Z" "reachable L C Z w" "sys_step L C Z w l w'"
  shows "(spec_step (list_of_zones_caps Z) (hw_names (daemons (c_mst C))) (ready_names (daemons (c_mst C))))\<^sup>*\<^sup>*
      \<lparr>phase = Unconfigured, zone = None, reported = {}\<rparr> (spec_of L (w_db w)) \<and>
    (spec_of L (w_db w') = spec_of L (w_db w) \<or>
     spec_step (list_of_zones_caps Z) (hw_names (daemons (c_mst C))) (ready_names (daemons (c_mst C)))
       (spec_of L (w_db w)) (spec_of L (w_db w')))"
  using system.reachable_refines [OF systemI [OF assms(1-3)] assms(4)] assms(5) by blast

text \<open>
  Claim C4. In every state the system can reach there is no System row and the daemon's flag is not set, or there
  is one, whose zone is UTC or one of the CLI's table, with the manifest's daemons in the Daemon table and both
  hardware columns equal, 0 or 1; and when they are 1, or the flag is set, every hardware daemon of the
  manifest has reported.
\<close>

theorem system_safe:
  assumes "ovs_idl L" "good_conf C" "zone_db_wf Z" "reachable L C Z w"
  shows "idl_rows L T_System (w_db w) = [] \<and> \<not> hw_init_done_set (w_sysd w) \<or>
    (\<exists>sys. set (idl_rows L T_System (w_db w)) = {sys} \<and>
       (\<exists>c \<in> insert ''UTC'' (set (list_of_zones_caps Z)). get_str L sys ''timezone'' (w_db w) = Some c) \<and>
       lists_daemons L (daemons (c_mst C)) (w_db w) \<and>
       get_int L sys ''cur_hw'' (w_db w) \<in> {0, 1} \<and> get_int L sys ''next_hw'' (w_db w) = get_int L sys ''cur_hw'' (w_db w) \<and>
       (hw_init_done_set (w_sysd w) \<or> get_int L sys ''cur_hw'' (w_db w) = 1 \<longrightarrow>
          hw_names (daemons (c_mst C)) \<subseteq> reported_names L (w_db w)))"
  using system.reachable_inv [OF systemI [OF assms(1-3)] assms(4)]
  unfolding world_inv_def started_inv_def all_reported_def by (auto dest: fresh_no_system)


text \<open>
  Claim C5. A zone command that succeeds is followed: whatever rounds and progress of other daemons come next,
  the first active round links the file of the zone that was typed, in its original letters, as long as no
  other zone command comes in between.
\<close>

theorem zone_followed:
  assumes "ovs_idl L" "good_conf C" "zone_db_wf Z" "reachable L C Z w" "idl_rows L T_System (w_db w) \<noteq> []"
    and "cli_platform_timezone_set L Z nl True True info (w_db w) = Inr (CMD_SUCCESS, out, db')"
    and "sys_steps L C Z (w\<lparr>w_db := db'\<rparr>) ls w2" "\<forall>l \<in> set ls. \<not> is_zone_command l"
    and "e_db env = w_db w2" "sound_env L env" "answering L env" "active env (w_sysd w2)"
  shows "\<exists>c st' evs. c \<in> set (list_of_zones_caps Z) \<and> tolower_str c = info \<and> sysd_run L C env (w_sysd w2) = Inr (st', evs) \<and>
    Timezone [Tz_Unlink ''/etc/localtime'', Tz_Symlink (''/usr/share/zoneinfo/posix/'' @ c) ''/etc/localtime''] \<in> set evs"
  using system.zone_command_followed [OF systemI [OF assms(1-3)] assms(4-12)] unfolding posix_path_def .

text \<open>
  Claim C9. From every state the system can reach in which all hardware daemons have reported and the handshake
  is still open, the next active round completes it when its commit goes through.
\<close>

theorem system_completes:
  assumes "ovs_idl L" "good_conf C" "zone_db_wf Z" "reachable L C Z w" "idl_rows L T_System (w_db w) \<noteq> []"
    and "\<not> hw_init_done_set (w_sysd w)" "hw_names (daemons (c_mst C)) \<subseteq> reported_names L (w_db w)"
    and "e_db env = w_db w" "sound_env L env" "answering L env" "active env (w_sysd w)" "e_hw_committed env"
  shows "\<exists>st' evs. sysd_run L C env (w_sysd w) = Inr (st', evs) \<and> hw_init_done_set st' \<and> phase (spec_of L (replica st')) = Done"
proof -
  obtain sys rest tz where "started_inv L C Z sys (w_db w) (hw_init_done_set (w_sysd w))"
    by (rule system.reachable_started [OF systemI [OF assms(1-3)] assms(4,5)])
  with ovs_idl.round_completes [OF assms(1-3) _ assms(6,9,10,11,12), of sys] assms(6,7,8) show ?thesis
    by (simp add: all_reported_def)
qed

section \<open>Witnesses\<close>

abbreviation ex_step :: "mem_db world \<Rightarrow> sys_label \<Rightarrow> mem_db world \<Rightarrow> bool" where
  "ex_step \<equiv> sys_step mem_lib ex_conf ex_zones"

definition ex_start :: "mem_db world" where
  "ex_start = \<lparr>w_db = mem_init, w_sysd = ex_state\<rparr>"

lemma ex_good_conf: "good_conf ex_conf"
  unfolding good_conf_def
  using ex_conf_facts by (simp add: subsystem_zero_def)

text \<open>A round whose writes without a transaction are dropped.\<close>

definition ex_round :: "mem_db \<Rightarrow> u32 \<Rightarrow> mem_db run_env" where
  "ex_round db n = (ex_env db n)\<lparr>e_outside := (\<lambda>d d'. Inr d)\<rparr>"

lemma ex_round_ok: "sound_env mem_lib (ex_round db n)" "answering mem_lib (ex_round db n)"
  "idl_seqno st \<noteq> n \<Longrightarrow> active (ex_round db n) st" "e_db (ex_round db n) = db" "e_hw_committed (ex_round db n)"
  "e_init_committed (ex_round db n)" "file_in_order (e_version_file (ex_round db n))"
  "sw_write_passes mem_lib (ex_round db n)"
  by (simp_all add: sound_env_def writes_kept_def answering_def active_def ex_round_def ex_env_def evolves_refl
        sysd_add_package_info_def file_in_order_def sw_write_passes_def)

lemma ex_start_reachable: "initial_world mem_lib ex_start" "reachable mem_lib ex_conf ex_zones ex_start"
proof -
  show init: "initial_world mem_lib ex_start" by (simp add: initial_world_def ex_start_def ex_state_def mem_init_def)
  show "reachable mem_lib ex_conf ex_zones ex_start" unfolding reachable_def using init by (rule lreach_init)
qed

interpretation ex_system: system mem_lib ex_conf ex_zones
  by unfold_locales (rule ex_good_conf, rule ex_zones_wf(1))

lemma ex_reachable_step: "reachable mem_lib ex_conf ex_zones w \<Longrightarrow> ex_step w l w' \<Longrightarrow> reachable mem_lib ex_conf ex_zones w'"
  unfolding reachable_def by (rule lreach_step)

text \<open>After the first round.\<close>

lemma ex_names_hw: "hw_names (daemons (c_mst ex_conf)) = {''ops-fand''}" "ready_names (daemons (c_mst ex_conf)) = {}"
  by (simp_all add: hw_names_def ready_names_def ex_conf_def ex_mst_def Collect_disj_eq Collect_conv_if conj_disj_distribR)

lemma ex_first_step:
  "\<exists>w evs sys. ex_step ex_start (Round evs) w \<and> reachable mem_lib ex_conf ex_zones w \<and>
     set (mem_rows (w_db w) T_System) = {sys} \<and> spec_of mem_lib (w_db w) = first_spec ex_conf \<and>
     lists_daemons mem_lib (daemons ex_mst) (w_db w) \<and> idl_seqno (w_sysd w) = 1 \<and> \<not> hw_init_done_set (w_sysd w)"
proof -
  have "\<And>t. idl_rows mem_lib t (e_db (ex_round mem_init 1)) = []" by (simp add: ex_round_ok mem_init_def)
  note empty = this
  have lib: "e_allocs (ex_round mem_init 1) = (True, True, True)"
    "evolves mem_lib {T_Package_Info} {} d (e_after_pkgs (ex_round mem_init 1) d)" for d
    by (simp_all add: ex_round_def ex_env_def evolves_refl)
  from ovs_idl.first_run [OF mem_db.ovs_idl_axioms ex_round_ok(3) [of ex_state 1 mem_init] ex_round_ok(6) lib(1,2) ex_round_ok(7) empty
      ex_conf_facts(1-3) _ _ _ ex_conf_facts(6)]
  obtain st1 evs sys where run: "sysd_run mem_lib ex_conf (ex_round mem_init 1) ex_state = Inr (st1, evs)"
    and st1: "set (mem_rows (replica st1) T_System) = {sys}"
    "lists_daemons mem_lib (daemons ex_mst) (replica st1)" "idl_seqno st1 = 1" "\<not> hw_init_done_set st1"
    using ex_conf_facts(4) by (simp add: ex_state_def ex_conf_def ex_round_def ex_env_def) blast
  let ?w = "\<lparr>w_db = replica st1, w_sysd = st1\<rparr>"
  have step: "ex_step ex_start (Round evs) ?w"
    by (rule step_round [of "ex_round mem_init 1"]) (simp_all add: ex_round_ok ex_start_def run)
  have start: "spec_of mem_lib (w_db ex_start) = \<lparr>phase = Unconfigured, zone = None, reported = {}\<rparr>"
    by (simp add: spec_of_empty ex_start_def mem_init_def)
  have "phase (spec_of mem_lib (replica st1)) \<noteq> Unconfigured" using st1(1) by (simp add: spec_of_started)
  with ovs_idl.step_refines [OF mem_db.ovs_idl_axioms ex_good_conf ex_zones_wf(1) _ step] start
  have "spec_steps ex_conf ex_zones (spec_of mem_lib (w_db ex_start)) (spec_of mem_lib (replica st1))"
    using ex_system.reachable_inv [OF ex_start_reachable(2)] by auto
  then have "spec_of mem_lib (replica st1) = first_spec ex_conf"
    unfolding start by cases (simp_all add: first_spec_def)
  with step st1 ex_reachable_step [OF ex_start_reachable(2) step] show ?thesis
    by (intro exI [of _ ?w] exI [of _ evs] exI [of _ sys]) simp
qed

lemma ex_first_zone:
  "set (mem_rows db T_System) = {sys} \<Longrightarrow> spec_of mem_lib db = first_spec ex_conf \<Longrightarrow>
   get_str mem_lib sys ''timezone'' db = Some ''UTC''"
  by (auto simp: spec_of_started first_spec_def)

theorem system_refines_witness:
  "\<exists>w evs. ex_step ex_start (Round evs) w \<and> spec_of mem_lib (w_db ex_start) = \<lparr>phase = Unconfigured, zone = None, reported = {}\<rparr> \<and>
     spec_step [''Europe/London'', ''Europe/Paris'', ''UTC''] {''ops-fand''} {} (spec_of mem_lib (w_db ex_start)) (spec_of mem_lib (w_db w))"
proof -
  obtain w evs sys where step: "ex_step ex_start (Round evs) w" "set (mem_rows (w_db w) T_System) = {sys}"
    using ex_first_step by blast
  note ref = system_refines [OF mem_db.ovs_idl_axioms ex_good_conf ex_zones_wf(1) ex_start_reachable(2) step(1)]
  have start: "spec_of mem_lib (w_db ex_start) = \<lparr>phase = Unconfigured, zone = None, reported = {}\<rparr>"
    by (rule ex_system.initial_inv(2) [OF ex_start_reachable(1)])
  have "phase (spec_of mem_lib (w_db w)) \<noteq> Unconfigured" using step(2) by (simp add: spec_of_started)
  then have "spec_of mem_lib (w_db w) \<noteq> spec_of mem_lib (w_db ex_start)" unfolding start by auto
  with ref have "spec_step (list_of_zones_caps ex_zones) {''ops-fand''} {} (spec_of mem_lib (w_db ex_start)) (spec_of mem_lib (w_db w))"
    unfolding ex_names_hw by blast
  moreover have "list_of_zones_caps ex_zones = [''Europe/London'', ''Europe/Paris'', ''UTC'']" by (simp add: ex_zones_def)
  ultimately have "spec_step [''Europe/London'', ''Europe/Paris'', ''UTC''] {''ops-fand''} {}
    (spec_of mem_lib (w_db ex_start)) (spec_of mem_lib (w_db w))" by (simp only:)
  with step(1) start show ?thesis by blast
qed

theorem system_safe_witness:
  "\<exists>w sys. reachable mem_lib ex_conf ex_zones w \<and> set (mem_rows (w_db w) T_System) = {sys} \<and>
     lists_daemons mem_lib (daemons ex_mst) (w_db w) \<and> get_int mem_lib sys ''cur_hw'' (w_db w) \<in> {0, 1}"
proof -
  obtain w sys where w: "reachable mem_lib ex_conf ex_zones w" "set (mem_rows (w_db w) T_System) = {sys}"
    using ex_first_step by blast
  from system_safe [OF mem_db.ovs_idl_axioms ex_good_conf ex_zones_wf(1) w(1)] w show ?thesis
    by (intro exI [of _ w] exI [of _ sys]) (auto simp: ex_conf_def)
qed


theorem zone_followed_witness:
  "\<exists>w db' st' evs. reachable mem_lib ex_conf ex_zones w \<and>
     cli_platform_timezone_set mem_lib ex_zones [CHR 0x0A] True True ''europe/paris'' (w_db w) = Inr (CMD_SUCCESS, [], db') \<and>
     sysd_run mem_lib ex_conf (ex_round db' 2) (w_sysd w) = Inr (st', evs) \<and>
     Timezone [Tz_Unlink ''/etc/localtime'', Tz_Symlink ''/usr/share/zoneinfo/posix/Europe/Paris'' ''/etc/localtime''] \<in> set evs"
proof -
  obtain w sys where w: "reachable mem_lib ex_conf ex_zones w" "set (mem_rows (w_db w) T_System) = {sys}"
    "get_str mem_lib sys ''timezone'' (w_db w) = Some ''UTC''" "idl_seqno (w_sysd w) = 1"
    using ex_first_step ex_first_zone by blast
  then obtain rest where rows: "idl_rows mem_lib T_System (w_db w) = sys # rest" using rows_single [OF w(2)] by auto
  have low: "tolower_str ''Europe/London'' = ''europe/london''" "tolower_str ''Europe/Paris'' = ''europe/paris''"
    "tolower_str ''UTC'' = ''utc''" by code_simp+
  let ?db' = "idl_set mem_lib sys ''timezone'' (VStr ''Europe/Paris'') (w_db w)"
  have set: "cli_platform_timezone_set mem_lib ex_zones [CHR 0x0A] True True ''europe/paris'' (w_db w) = Inr (CMD_SUCCESS, [], ?db')"
    using set_timezone [OF ex_zones_wf(1) rows w(3), of "''europe/paris''" "[CHR 0x0A]" True False]
    by (simp add: cli_platform_timezone_set_def ex_zones_def low size_defs)
  have "idl_rows mem_lib T_System (w_db w) \<noteq> []" using rows by simp
  from zone_followed [OF mem_db.ovs_idl_axioms ex_good_conf ex_zones_wf(1) w(1) this set lsteps_Nil, of "ex_round ?db' 2"]
  obtain c st' evs where c: "c \<in> set (list_of_zones_caps ex_zones)" "tolower_str c = ''europe/paris''"
    and run: "sysd_run mem_lib ex_conf (ex_round ?db' 2) (w_sysd w) = Inr (st', evs)"
    "Timezone [Tz_Unlink ''/etc/localtime'', Tz_Symlink (''/usr/share/zoneinfo/posix/'' @ c) ''/etc/localtime''] \<in> set evs"
    using w(4) by (auto simp: ex_round_ok)
  have "c = ''Europe/Paris''" using c low by (auto simp: ex_zones_def)
  with w(1) set run show ?thesis by (intro exI conjI) (assumption, assumption, assumption, simp)
qed

text \<open>The fan daemon reports after the first round.\<close>

theorem system_completes_witness:
  "\<exists>w st' evs. reachable mem_lib ex_conf ex_zones w \<and> phase (spec_of mem_lib (w_db w)) = Waiting \<and>
     sysd_run mem_lib ex_conf (ex_round (w_db w) 2) (w_sysd w) = Inr (st', evs) \<and> phase (spec_of mem_lib (replica st')) = Done"
proof -
  obtain w sys where w: "reachable mem_lib ex_conf ex_zones w" "set (mem_rows (w_db w) T_System) = {sys}"
    "spec_of mem_lib (w_db w) = first_spec ex_conf" "lists_daemons mem_lib (daemons ex_mst) (w_db w)"
    "idl_seqno (w_sysd w) = 1" "\<not> hw_init_done_set (w_sysd w)" using ex_first_step by blast
  obtain r where r: "r \<in> set (mem_rows (w_db w) T_Daemon)" "row_name mem_lib (w_db w) r = ''ops-fand''" "row_is_hw mem_lib (w_db w) r"
    using w(4) by (auto simp: lists_daemons_def ex_mst_def)
  let ?db = "idl_set mem_lib r ''cur_hw'' (VInt 1) (w_db w)"
  let ?w = "w\<lparr>w_db := ?db\<rparr>"
  have "idl_rows mem_lib T_System (w_db w) \<noteq> []" using w(2) by auto
  then obtain sys' where inv: "started_inv mem_lib ex_conf ex_zones sys' (w_db w) (hw_init_done_set (w_sysd w))"
    by (rule ex_system.reachable_started [OF w(1)])
  have others: "others_step mem_lib (w_db w) ?db"
    by (rule ovs_idl.report_step [OF mem_db.ovs_idl_axioms inv]) (simp_all add: r)
  have reach: "reachable mem_lib ex_conf ex_zones ?w" by (rule ex_reachable_step [OF w(1) step_others [OF others]])
  have rows: "mem_rows ?db t = mem_rows (w_db w) t" for t by (simp add: mem_set_def)
  have row: "row_name mem_lib ?db r = ''ops-fand''" "row_is_hw mem_lib ?db r" "row_cur_hw mem_lib ?db r = 1"
    using r(2,3) by (simp_all add: row_name_def row_is_hw_def row_cur_hw_def get_defs mem_set_def)
  have "''ops-fand'' \<in> reported_names mem_lib ?db"
    unfolding reported_names_def using r(1) row rows [of T_Daemon] by force
  then have rep: "hw_names (daemons (c_mst ex_conf)) \<subseteq> reported_names mem_lib (w_db ?w)" by (simp add: ex_names_hw)
  have sys: "idl_rows mem_lib T_System (w_db ?w) \<noteq> []" using w(2) rows [of T_System] by auto
  have "phase (spec_of mem_lib (w_db ?w)) = Waiting"
    using others_started [OF inv others] w(3) by (simp add: first_spec_def)
  moreover from system_completes [OF mem_db.ovs_idl_axioms ex_good_conf ex_zones_wf(1) reach sys _ rep, of "ex_round ?db 2"]
  obtain st' evs where "sysd_run mem_lib ex_conf (ex_round ?db 2) (w_sysd w) = Inr (st', evs)"
    "phase (spec_of mem_lib (replica st')) = Done"
    using w(5,6) by (auto simp: ex_round_ok)
  ultimately show ?thesis using reach by (intro exI [of _ ?w] exI [of _ st'] exI [of _ evs]) simp
qed

end
