(* ===== verification/Handshake.thy ===== *)
theory Handshake
  imports System
begin

text \<open>
  From start-up to the completed handshake, over the steps of the whole system: the first round configures the
  database, and the first round after it that finds every hardware daemon done completes the handshake,
  whatever rounds, reports of daemons and zone commands lie in between.
\<close>

section \<open>The first round\<close>

context ovs_idl
begin

lemma first_round:
  fixes w :: "'db world"
  assumes "good_conf C" "zone_db_wf Z" "fresh_db L (w_db w)" "\<not> hw_init_done_set (w_sysd w)"
    and env: "e_db env = w_db w" "sound_env L env" "active env (w_sysd w)" "e_init_committed env" "file_in_order (e_version_file env)"
  shows "\<exists>st1 evs sys. sysd_run L C env (w_sysd w) = Inr (st1, evs) \<and> Configure True \<in> set evs \<and>
    started_inv L C Z sys (replica st1) False \<and> spec_of L (replica st1) = first_spec C \<and> \<not> hw_init_done_set st1"
proof -
  have none: "idl_rows L T_System (replica (enter env (w_sysd w))) = []" using assms(3) by (simp add: env(1) fresh_no_system)
  have "sw_write_passes L env" using none by (simp add: sw_write_passes_def)
  from answeringI [OF this env(5)] have "answering L env" .
  moreover have "world_inv L C Z w" using assms(3,4) by (simp add: world_inv_def)
  ultimately obtain st2 evs where run: "sysd_run L C env (w_sysd w) = Inr (st2, evs)"
    using round_returns [OF assms(1,2) _ env(1,2)] by blast
  then obtain st1 evs1 evs2 tz where 1: "run_system L C env (enter env (w_sysd w)) = Inr (st1, evs1)"
    and 2: "run_packages L env st1 = Inr (st2, evs2)" and evs: "evs = evs1 @ evs2 @ [Timezone tz, Startup_Complete]"
    by (auto simp: run_active [OF env(3)])
  have "fresh_db L (replica (enter env (w_sysd w)))" using assms(3) env(1) by simp
  from configure_fresh [OF assms(1) this, of "e_release env" Z] obtain sys db' where
    "sysd_initial_configure L (c_names C) (c_utils C) (c_yaml C) (c_dir C) (e_release env) (True, True, True)
       (c_mst C) (c_subs C) (replica (enter env (w_sysd w))) = Inr db'"
    and db': "started_inv L C Z sys db' False" "spec_of L db' = first_spec C" by blast
  with 1 none env(2,4) have st1: "replica st1 = db'" "evs1 = [Configure True]" "\<not> hw_init_done_set st1"
    using assms(4) by (auto simp: run_system_def sound_env_def)
  have "same_view L db' (replica st2)"
    using packages_same_view [OF run_packages_evolves [OF 2]] env(2) by (simp add: sound_env_def st1)
  from same_view_started [OF this db'(1)] db'(2) run st1 run_packages_keeps [OF 2] show ?thesis by (auto simp: evs)
qed

end

section \<open>While the handshake is open\<close>

text \<open>The database is configured, the handshake's columns are 0 and no check has succeeded.\<close>

definition still_open :: "('db, 'm) ovs_lib \<Rightarrow> sysd_conf \<Rightarrow> zone_db \<Rightarrow> row \<Rightarrow> 'db world \<Rightarrow> bool" where
  "still_open L C Z sys w \<longleftrightarrow> started_inv L C Z sys (w_db w) False \<and> \<not> hw_init_done_set (w_sysd w) \<and> phase (spec_of L (w_db w)) = Waiting"

fun unfinished :: "sys_label \<Rightarrow> bool" where
  "unfinished (Round evs) = (Hw_Check True \<notin> set evs)"
| "unfinished _ = True"

lemma set_hw_events: "b \<in> set (hw_events evs) \<Longrightarrow> Hw_Check b \<in> set evs"
proof (induction evs)
  case (Cons e evs)
  then show ?case by (cases e) auto
qed simp

text \<open>All daemons reporting at once.\<close>

definition report_all :: "('db, 'm) ovs_lib \<Rightarrow> row list \<Rightarrow> 'db \<Rightarrow> 'db" where
  "report_all L rs db = fold (\<lambda>r. idl_set L r ''cur_hw'' (VInt 1)) rs db"

context ovs_idl
begin

text \<open>A round without a successful check leaves the flag and the columns alone.\<close>

lemma round_still_open:
  assumes "good_conf C" "still_open L C Z sys w" "e_db env = w_db w" "sound_env L env"
    and run: "sysd_run L C env (w_sysd w) = Inr (st', evs)" and no: "Hw_Check True \<notin> set evs"
  shows "still_open L C Z sys \<lparr>w_db = replica st', w_sysd = st'\<rparr>"
proof (cases "active env (w_sysd w)")
  case False
  with run assms(2,3) show ?thesis by (auto simp: run_idle still_open_def)
next
  case True
  then obtain st1 evs1 evs2 where 1: "run_system L C env (enter env (w_sysd w)) = Inr (st1, evs1)"
    and 2: "run_packages L env st1 = Inr (st', evs2)" using run by (auto simp: run_active)
  have open': "started_inv L C Z sys (w_db w) False" "\<not> hw_init_done_set (w_sysd w)" "phase (spec_of L (w_db w)) = Waiting"
    using assms(2) by (simp_all add: still_open_def)
  then have rows: "idl_rows L T_System (replica (enter env (w_sysd w))) \<noteq> []" by (auto simp: started_inv_def assms(3))
  have kept: "writes_kept L env" using assms(4) by (simp add: sound_env_def)
  have "hw_events evs = [hw_init_done_set st']"
    using run_flag(1) [OF run] True open'(2) rows by (simp add: assms(3))
  with no set_hw_events [of "hw_init_done_set st'" evs] have flag: "\<not> hw_init_done_set st'" by auto
  then have "\<not> hw_init_done_set st1" using run_packages_keeps [OF 2] by simp
  with run_system_configured [OF 1 rows kept] obtain db1 where rows1: "\<And>t. idl_rows L t db1 = idl_rows L t (w_db w)"
    and get1: "\<And>r c. idl_get L r c db1 \<noteq> idl_get L r c (w_db w) \<Longrightarrow> c \<in> {''software_info'', ''switch_version''}"
    and st1: "replica st1 = db1" by (auto simp: assms(3))
  have "idl_get L r c db1 = idl_get L r c (w_db w)" if "c \<notin> {''software_info'', ''switch_version''}" for r c
    using get1 [of r c] that by blast
  then have "same_view L (w_db w) db1" by (simp add: same_view_def rows1)
  note inv1 = same_view_started [OF this open'(1)]
  have "same_view L db1 (replica st')" using packages_same_view [OF run_packages_evolves [OF 2 kept]] by (simp add: st1)
  from same_view_started [OF this conjunct1 [OF inv1]] inv1 flag open'(3) show ?thesis by (simp add: still_open_def)
qed

lemma step_still_open:
  assumes "good_conf C" "zone_db_wf Z" "still_open L C Z sys w" "unfinished l" "sys_step L C Z w l w'"
  shows "still_open L C Z sys w'"
  using assms(5)
proof cases
  case (step_round env st' evs)
  with round_still_open [OF assms(1,3)] assms(4) show ?thesis by simp
next
  case (step_others db')
  with others_started [of L C Z sys "w_db w" False db'] assms(3) show ?thesis by (simp add: still_open_def)
next
  case (step_zone nl start_ok committed info no_flags res out db')
  with zone_step_started [OF assms(2) step_zone(3), of C sys False] assms(3) show ?thesis by (auto simp: still_open_def)
qed

lemma steps_still_open:
  "sys_steps L C Z w ls w' \<Longrightarrow> good_conf C \<Longrightarrow> zone_db_wf Z \<Longrightarrow> still_open L C Z sys w \<Longrightarrow> \<forall>l \<in> set ls. unfinished l \<Longrightarrow>
   still_open L C Z sys w'"
  by (rule lsteps_keep [where Q = unfinished]) (use step_still_open in blast)+

text \<open>The round that finds all hardware daemons done.\<close>

lemma completing_round:
  assumes "good_conf C" "zone_db_wf Z" "still_open L C Z sys w" "hw_names (daemons (c_mst C)) \<subseteq> reported_names L (w_db w)"
    and env: "e_db env = w_db w" "sound_env L env" "answering L env" "active env (w_sysd w)" "e_hw_committed env"
  shows "\<exists>st' evs. sysd_run L C env (w_sysd w) = Inr (st', evs) \<and> Hw_Check True \<in> set evs \<and> hw_init_done_set st' \<and>
    set (idl_rows L T_System (replica st')) = {sys} \<and>
    get_int L sys ''cur_hw'' (replica st') = 1 \<and> get_int L sys ''next_hw'' (replica st') = 1"
proof -
  have inv: "started_inv L C Z sys (e_db env) False" and flag: "\<not> hw_init_done_set (w_sysd w)"
    using assms(3) by (simp_all add: still_open_def env(1))
  have "all_reported L (daemons (c_mst C)) (e_db env)" using assms(4) by (simp add: all_reported_def env(1))
  from round_completes [OF assms(1,2) inv flag env(2,3,4,5) this] obtain st' evs where
    run: "sysd_run L C env (w_sysd w) = Inr (st', evs)" and fin: "hw_init_done_set st'" "phase (spec_of L (replica st')) = Done" by blast
  have step: "sys_step L C Z w (Round evs) \<lparr>w_db = replica st', w_sysd = st'\<rparr>"
    using env(1,2) run by (rule step_round)
  have "started_inv L C Z sys (w_db w) (hw_init_done_set (w_sysd w))" using inv flag env(1) by simp
  from step_keeps_zone [OF assms(1) this step] have inv': "started_inv L C Z sys (replica st') True" using fin(1) by simp
  with fin(2) have cols: "get_int L sys ''cur_hw'' (replica st') = 1" "get_int L sys ''next_hw'' (replica st') = 1"
    by (auto simp: started_phase(1) [OF inv'] started_inv_def split: if_splits)
  have "idl_rows L T_System (e_db env) \<noteq> []" using inv by (auto simp: started_inv_def)
  with run_flag(1) [OF run] flag env(4) fin(1) have "True \<in> set (hw_events evs)" by simp
  with set_hw_events have "Hw_Check True \<in> set evs" by blast
  moreover have "set (idl_rows L T_System (replica st')) = {sys}" using inv' by (simp add: started_inv_def)
  ultimately show ?thesis using run fin(1) cols by blast
qed

lemma still_open_columns:
  assumes "still_open L C Z sys w"
  shows "set (idl_rows L T_System (w_db w)) = {sys}" "\<not> hw_init_done_set (w_sysd w)"
    "get_int L sys ''cur_hw'' (w_db w) = 0" "get_int L sys ''next_hw'' (w_db w) = 0"
proof -
  have inv: "started_inv L C Z sys (w_db w) False" using assms by (simp add: still_open_def)
  have "get_int L sys ''cur_hw'' (w_db w) = 0 \<and> get_int L sys ''next_hw'' (w_db w) = 0"
    using assms started_phase(1) [OF inv] by (auto simp: still_open_def started_inv_def split: if_splits)
  with assms inv show "set (idl_rows L T_System (w_db w)) = {sys}" "\<not> hw_init_done_set (w_sysd w)"
    "get_int L sys ''cur_hw'' (w_db w) = 0" "get_int L sys ''next_hw'' (w_db w) = 0"
    by (simp_all add: still_open_def started_inv_def)
qed

lemma handshake_after:
  assumes "good_conf C" "zone_db_wf Z" "still_open L C Z sys w" "sys_steps L C Z w ls w2"
    and "\<forall>evs. Round evs \<in> set ls \<longrightarrow> Hw_Check True \<notin> set evs"
  shows "set (idl_rows L T_System (w_db w2)) = {sys} \<and> \<not> hw_init_done_set (w_sysd w2) \<and>
     get_int L sys ''cur_hw'' (w_db w2) = 0 \<and> get_int L sys ''next_hw'' (w_db w2) = 0 \<and>
     (\<forall>env2. e_db env2 = w_db w2 \<and> sound_env L env2 \<and> active env2 (w_sysd w2) \<and> e_hw_committed env2 \<and>
        sw_write_passes L env2 \<and> file_in_order (e_version_file env2) \<and>
        hw_names (daemons (c_mst C)) \<subseteq> reported_names L (w_db w2) \<longrightarrow>
      (\<exists>st3 evs3. sysd_run L C env2 (w_sysd w2) = Inr (st3, evs3) \<and> Hw_Check True \<in> set evs3 \<and>
         hw_init_done_set st3 \<and> set (idl_rows L T_System (replica st3)) = {sys} \<and>
         get_int L sys ''cur_hw'' (replica st3) = 1 \<and> get_int L sys ''next_hw'' (replica st3) = 1))"
proof -
  have "unfinished l" if "l \<in> set ls" for l by (cases l) (use that assms(5) in auto)
  then have op: "still_open L C Z sys w2" using steps_still_open [OF assms(4,1,2,3)] by blast
  from still_open_columns [OF op] completing_round [OF assms(1,2) op _ _ _ answeringI] show ?thesis by blast
qed

lemma report_all_cells:
  "idl_rows L t (report_all L rs db) = idl_rows L t db"
  "idl_get L r c (report_all L rs db) = (if r \<in> set rs \<and> c = ''cur_hw'' then VInt 1 else idl_get L r c db)"
proof (induction rs arbitrary: db)
  case (Cons q rs)
  case 1
  from Cons(1) show ?case by (simp add: report_all_def rows_set)
  case 2
  from Cons(2) show ?case
    by (cases "r = q \<and> c = ''cur_hw''") (auto simp: report_all_def get_set_other get_set_scalar)
qed (simp_all add: report_all_def)

lemma all_may_report:
  assumes inv: "started_inv L C Z sys db flag"
  defines "db' \<equiv> report_all L (idl_rows L T_Daemon db) db"
  shows "others_step L db db' \<and> hw_names (daemons (c_mst C)) \<subseteq> reported_names L db'"
proof -
  have sys: "sys \<notin> set (idl_rows L T_Daemon db)" "set (idl_rows L T_System db) = {sys}" using inv by (simp_all add: started_inv_def)
  have cur: "row_cur_hw L db' r = 1" if "r \<in> set (idl_rows L T_Daemon db)" for r
    using that by (simp add: row_cur_hw_def get_int_def db'_def report_all_cells)
  have others: "others_step L db db'"
    using sys cur by (auto simp: others_step_def others_progress_def db'_def report_all_cells)
  from others_started [OF inv this] have "lists_daemons L (daemons (c_mst C)) db'" by (simp add: started_inv_def)
  moreover have "row_cur_hw L db' r > 0" if "r \<in> set (idl_rows L T_Daemon db')" for r
    using cur that by (simp add: db'_def report_all_cells)
  ultimately have "all_reported L (daemons (c_mst C)) db'" by (simp add: all_reported_rows)
  with others show ?thesis by (simp add: all_reported_def)
qed

end

section \<open>The property\<close>

text \<open>
  Claim C2. A daemon that has reached its main loop, with names and files that fit, configures an empty database
  in its first active round, whatever the release file holds, when allocations succeed and the library's own
  writes stay in their place (\<open>sound_env\<close>), the start-up transaction goes through and the values of the version
  file are in order: one System row with the zone UTC, the manifest's daemons and the
  hardware columns at 0. Then come any steps of the system - rounds with or without the lock and with commits
  that fail, reports of other daemons, zone commands - in which no check of the hardware daemons has succeeded:
  the row is still the one, the columns are 0 and the flag is not set. The first active round that finds
  all hardware daemons done sets the flag and both columns of that row, provided its commit goes through, the
  library lets the software columns be written outside a transaction, and the version file is in order.
\<close>

theorem boot_to_handshake:
  assumes "sysd_boot E = Inr (Running b)" "ovs_idl L" "zone_db_wf Z" "initial_world L w"
    and "mgmt_intf_name (g_mst b) = Inr name" "wf_config (b_yaml E)"
    and "g_subsystems b = [s]" "list_all (port_ok K) (interfaces s)" "distinct (map yp_name (interfaces s))"
    and "distinct (map d_name (daemons (g_mst b)))" "prefix_free (daemons (g_mst b))"
    and "e_db env = w_db w" "sound_env L env" "active env (w_sysd w)" "e_init_committed env" "file_in_order (e_version_file env)"
  shows "\<exists>st1 evs1 sys. sysd_run L (conf_of K E b) env (w_sysd w) = Inr (st1, evs1) \<and> Configure True \<in> set evs1 \<and>
    set (idl_rows L T_System (replica st1)) = {sys} \<and> get_str L sys ''timezone'' (replica st1) = Some ''UTC'' \<and>
    lists_daemons L (daemons (g_mst b)) (replica st1) \<and> get_int L sys ''cur_hw'' (replica st1) = 0 \<and>
    (\<forall>ls w2. sys_steps L (conf_of K E b) Z \<lparr>w_db = replica st1, w_sysd = st1\<rparr> ls w2 \<and>
       (\<forall>evs. Round evs \<in> set ls \<longrightarrow> Hw_Check True \<notin> set evs) \<longrightarrow>
     set (idl_rows L T_System (w_db w2)) = {sys} \<and> \<not> hw_init_done_set (w_sysd w2) \<and>
     get_int L sys ''cur_hw'' (w_db w2) = 0 \<and> get_int L sys ''next_hw'' (w_db w2) = 0 \<and>
     (\<forall>env2. e_db env2 = w_db w2 \<and> sound_env L env2 \<and> active env2 (w_sysd w2) \<and> e_hw_committed env2 \<and>
        sw_write_passes L env2 \<and> file_in_order (e_version_file env2) \<and>
        hw_names (daemons (g_mst b)) \<subseteq> reported_names L (w_db w2) \<longrightarrow>
      (\<exists>st3 evs3. sysd_run L (conf_of K E b) env2 (w_sysd w2) = Inr (st3, evs3) \<and> Hw_Check True \<in> set evs3 \<and>
         hw_init_done_set st3 \<and> set (idl_rows L T_System (replica st3)) = {sys} \<and>
         get_int L sys ''cur_hw'' (replica st3) = 1 \<and> get_int L sys ''next_hw'' (replica st3) = 1)))"
proof -
  let ?C = "conf_of K E b"
  have good: "good_conf ?C" by (rule boot_good_conf [OF assms(1,5-11)])
  have mst: "c_mst ?C = g_mst b" by (simp add: conf_of_def)
  have fresh: "fresh_db L (w_db w)" "\<not> hw_init_done_set (w_sysd w)"
    using assms(4) by (simp_all add: initial_world_def fresh_db_def)
  obtain st1 evs1 sys where run: "sysd_run L ?C env (w_sysd w) = Inr (st1, evs1)" "Configure True \<in> set evs1"
    and inv: "started_inv L ?C Z sys (replica st1) False" "spec_of L (replica st1) = first_spec ?C" "\<not> hw_init_done_set st1"
    using ovs_idl.first_round [OF assms(2) good assms(3) fresh assms(12-16)] by blast
  let ?w1 = "\<lparr>w_db = replica st1, w_sysd = st1\<rparr>"
  have start: "still_open L ?C Z sys ?w1" using inv by (simp add: still_open_def first_spec_def)
  have sys: "set (idl_rows L T_System (replica st1)) = {sys}" using inv(1) by (simp add: started_inv_def)
  have first: "get_str L sys ''timezone'' (replica st1) = Some ''UTC''" "lists_daemons L (daemons (g_mst b)) (replica st1)"
    "get_int L sys ''cur_hw'' (replica st1) = 0"
    using inv(1,2) ovs_idl.still_open_columns(3) [OF assms(2) start]
    by (simp_all add: spec_of_started [OF sys] first_spec_def started_inv_def mst)
  show ?thesis
    by (rule exI [of _ st1], rule exI [of _ evs1], rule exI [of _ sys], intro conjI run sys first)
       (intro allI impI, elim conjE, rule ovs_idl.handshake_after [OF assms(2) good assms(3) start, unfolded mst])
qed

text \<open>The switch of the examples: it starts, is configured, all daemons report, and the handshake completes.\<close>

abbreviation boot_conf :: sysd_conf where
  "boot_conf \<equiv> conf_of ex_names ex_boot ex_booted"

lemma boot_conf_good: "good_conf boot_conf"
  using boot_good_conf [OF ex_boots ex_booted_facts(1-3) _ _ ex_booted_facts(5,6), of ex_names] ex_booted_facts(4) by simp

lemma ex_start_facts: "w_db ex_start = mem_init" "w_sysd ex_start = ex_state"
  by (simp_all add: ex_start_def)

text \<open>After a first round that made a System row all daemons may report.\<close>

lemma boot_reports:
  assumes run: "sysd_run mem_lib boot_conf (ex_round mem_init 1) ex_state = Inr (st1, evs1)"
    and sys: "mem_rows (replica st1) T_System \<noteq> []"
  shows "\<exists>db2. sys_steps mem_lib boot_conf ex_zones \<lparr>w_db = replica st1, w_sysd = st1\<rparr> [Others] \<lparr>w_db = db2, w_sysd = st1\<rparr> \<and>
    hw_names (daemons (g_mst ex_booted)) \<subseteq> reported_names mem_lib db2"
proof -
  let ?w1 = "\<lparr>w_db = replica st1, w_sysd = st1\<rparr>" and ?step = "sys_step mem_lib boot_conf ex_zones"
  have step: "?step ex_start (Round evs1) ?w1"
    by (rule step_round [of "ex_round mem_init 1"]) (simp_all add: ex_round_ok(1,4) run ex_start_facts)
  have reach: "reachable mem_lib boot_conf ex_zones ?w1"
    unfolding reachable_def
    by (rule lreach_step [of _ ?step ex_start, OF _ step]) (rule lreach_init, rule ex_start_reachable(1))
  have "idl_rows mem_lib T_System (w_db ?w1) \<noteq> []" using sys by simp
  then obtain sys' where "started_inv mem_lib boot_conf ex_zones sys' (w_db ?w1) (hw_init_done_set (w_sysd ?w1))"
    by (rule system.reachable_started [OF systemI [OF mem_db.ovs_idl_axioms boot_conf_good ex_zones_wf(1)] reach])
  note all = mem_db.all_may_report [OF this]
  define db2 where "db2 = report_all mem_lib (idl_rows mem_lib T_Daemon (replica st1)) (replica st1)"
  have "c_mst boot_conf = g_mst ex_booted" by (simp add: conf_of_def)
  with all have db2: "others_step mem_lib (replica st1) db2" "hw_names (daemons (g_mst ex_booted)) \<subseteq> reported_names mem_lib db2"
    unfolding db2_def by simp_all
  have "?step ?w1 Others (?w1\<lparr>w_db := db2\<rparr>)" by (rule step_others) (simp add: db2(1))
  then have "sys_steps mem_lib boot_conf ex_zones ?w1 [Others] \<lparr>w_db = db2, w_sysd = st1\<rparr>"
    using lsteps_snoc [OF lsteps_Nil, of ?step ?w1 Others "\<lparr>w_db = db2, w_sysd = st1\<rparr>"] by simp
  with db2(2) show ?thesis by blast
qed

theorem boot_to_handshake_witness:
  "\<exists>st1 evs1 w2 sys st3 evs3 n. sysd_run mem_lib boot_conf (ex_round mem_init 1) ex_state = Inr (st1, evs1) \<and> Configure True \<in> set evs1 \<and>
     sys_steps mem_lib boot_conf ex_zones \<lparr>w_db = replica st1, w_sysd = st1\<rparr> [Others] w2 \<and>
     sysd_run mem_lib boot_conf (ex_round (w_db w2) n) (w_sysd w2) = Inr (st3, evs3) \<and> hw_init_done_set st3 \<and>
     get_int mem_lib sys ''cur_hw'' (replica st3) = 1"
proof -
  have fits: "list_all (port_ok ex_names) (interfaces (ex_boot_subsystem\<lparr>intf_count := 1, intf_cmn_info := y_port_info ex_yaml,
      interfaces := [the (y_port ex_yaml 0)]\<rparr>))"
    "distinct (map yp_name (interfaces (ex_boot_subsystem\<lparr>intf_count := 1, intf_cmn_info := y_port_info ex_yaml,
      interfaces := [the (y_port ex_yaml 0)]\<rparr>)))" using ex_booted_facts(4) by simp_all
  have act: "active (ex_round mem_init 1) (w_sysd ex_start)" by (rule ex_round_ok(3)) (simp add: ex_start_facts ex_state_def)
  have db: "e_db (ex_round mem_init 1) = w_db ex_start" by (simp add: ex_round_ok(4) ex_start_facts)
  show ?thesis
    using boot_to_handshake [OF ex_boots mem_db.ovs_idl_axioms ex_zones_wf(1) ex_start_reachable(1) ex_booted_facts(1-3) fits
      ex_booted_facts(5,6) db ex_round_ok(1) act ex_round_ok(6,7)]
  proof (elim exE conjE, goal_cases)
    case (1 st1 evs1 sys)
    have run: "sysd_run mem_lib boot_conf (ex_round mem_init 1) ex_state = Inr (st1, evs1)" using 1(1) by (simp add: ex_start_facts)
    have "mem_rows (replica st1) T_System \<noteq> []" using 1(3) by auto
    with boot_reports [OF run] obtain db2 where
      steps: "sys_steps mem_lib boot_conf ex_zones \<lparr>w_db = replica st1, w_sysd = st1\<rparr> [Others] \<lparr>w_db = db2, w_sysd = st1\<rparr>"
      and rep: "hw_names (daemons (g_mst ex_booted)) \<subseteq> reported_names mem_lib db2" by blast
    let ?w2 = "\<lparr>w_db = db2, w_sysd = st1\<rparr>" and ?n = "idl_seqno st1 + 1"
    have "idl_seqno st1 \<noteq> ?n" by simp
    note env2 = ex_round_ok(1,4,5,7,8) [of db2 ?n] ex_round_ok(3) [OF this, of db2]
    have "\<forall>evs. Round evs \<in> set [Others] \<longrightarrow> Hw_Check True \<notin> set evs" by simp
    note last = 1(7) [rule_format, OF conjI, OF steps this, THEN conjunct2, THEN conjunct2, THEN conjunct2, THEN conjunct2,
        rule_format, of "ex_round db2 ?n"]
    have "\<exists>st3 evs3. sysd_run mem_lib boot_conf (ex_round db2 ?n) st1 = Inr (st3, evs3) \<and> hw_init_done_set st3 \<and>
        get_int mem_lib sys ''cur_hw'' (replica st3) = 1"
      using last env2 rep by auto
    then obtain st3 evs3 where "sysd_run mem_lib boot_conf (ex_round (w_db ?w2) ?n) (w_sysd ?w2) = Inr (st3, evs3)"
      "hw_init_done_set st3" "get_int mem_lib sys ''cur_hw'' (replica st3) = 1" by auto
    with run 1(2) steps show ?case by blast
  qed
qed

end
