(* ===== verification/Spec2Isabelle.thy ===== *)
theory Spec2Isabelle
  imports Prelude Ovs_Lib Fru Cfg_Yaml Manifest Manifest_Order Sw_Info Pkg_Info Hw_Daemons Qos_Profile Qos_Map Subsystem Sys_Files Interfaces
    Ovsdb_Init Sysd_Run Sysd_Main Cli_Timezone Cli_Show Setup Cli_Init
    Simulation System Handshake
begin

text \<open>
  A verification development for \<open>ops-sysd\<close>, the OpenSwitch system daemon, and its CLI plugin.

  The program. At start-up (\<open>main\<close> in \<open>src/sysd.c\<close>) the daemon reads the image manifest, finds the
  hardware description directory of the platform and links it, has its YAML files parsed by a library,
  and builds the base subsystem: the FRU data, the MAC addresses handed out of the FRU's range, and the
  ports. The main loop calls \<open>sysd_run\<close> (\<open>src/sysd_ovsdb_if.c\<close>), which works on a replica of the
  database: it writes the initial configuration when there is no System row, keeps the software
  information up to date, sets two columns of the System row once every hardware daemon has reported,
  fills the table of packages, and links the time zone. The CLI plugin (\<open>src/cli\<close>) shows what the
  daemon and others have written and sets the time zone. Daemon, other daemons and CLI interact through the
  database alone.

  Conventions. The code is C: an operation has the type \<open>fault + 'a\<close> where it can leave the defined
  behaviour (a null pointer, an access outside an object, a loop that does not end; \<open>Prelude\<close>), and the
  return code is part of the value. Fixed-width values are words where the code depends on their
  width. What is not in the repository is an argument: the database replica and string maps (\<open>L\<close>, with the
  laws the code relies on as locales \<open>smap_lib\<close> and \<open>ovs_idl\<close> in \<open>Ovs_Lib\<close>, interpreted by an in-memory replica),
  the schema's constants (\<open>idl_names\<close>), the YAML library (\<open>yaml_lib\<close>), two conversions (\<open>ops_utils\<close>),
  zlib's checksum, random numbers, the outcome of allocations, of commands and of file operations.

  Theories, with the code they model.

  \<^item> \<open>Prelude\<close>: faults, the error monad, C strings and number formats.
  \<^item> \<open>Ovs_Lib\<close>: the interface of the database library and the in-memory replica.
  \<^item> \<open>Fru\<close> (\<open>sysd_fru.c\<close>, \<open>calc_crc\<close>): the TLV reader; that it inverts the encoding of images, what
    acceptance means, when it stays within its buffer and arrays.
  \<^item> \<open>Cfg_Yaml\<close> (\<open>sysd_cfg_yaml.c\<close>, \<open>sysd_read_fru_eeprom\<close>): opening the YAML files, the FRU from YAML with
    its overlapping stores or from the device, the status LED.
  \<^item> \<open>Manifest\<close> (\<open>sysd_util.c\<close>): the walk over the JSON tree; that it is a walk over a flat list of
    objects, what the daemon table holds, that the tables are well formed on every path. \<open>Manifest_Order\<close>: that
    the order of the JSON library's hash tables does not matter for an unambiguous manifest.
  \<^item> \<open>Sys_Files\<close> (\<open>sysd_util.c\<close>): manufacturer and product names, the directory link.
  \<^item> \<open>Subsystem\<close> (\<open>sysd.c\<close>): the base subsystem; that the MAC addresses handed out and left are the FRU's.
  \<^item> \<open>Sw_Info\<close> (\<open>sysd_update_sw_info\<close>): the os-release file and the version string.
  \<^item> \<open>Pkg_Info\<close> (\<open>sysd_add_package_info\<close>): the package file as parser events; the transactions made, and on
    which files all calls are legal (\<open>file_in_order\<close>).
  \<^item> \<open>Hw_Daemons\<close> (\<open>sysd_chk_if_hw_daemons_done\<close>, \<open>sysd_set_hw_done\<close>): one hardware check, exactly and
    against the documented condition.
  \<^item> \<open>Qos_Profile\<close>, \<open>Qos_Map\<close> (\<open>qos_init.c\<close>, \<open>acl_init.c\<close>): the default profiles, code point maps, trust
    mode and ACL limits, against tables read off the YAML entries.
  \<^item> \<open>Interfaces\<close> (\<open>sysd_ovsdb_if.c\<close>): the rows of ports, daemons and subsystem; that split ports and their
    subports refer to each other.
  \<^item> \<open>Ovsdb_Init\<close>: the start-up transaction, with the relation \<open>evolves\<close> (which tables grow, which cells
    change) that carries facts across its steps; what the configured database holds.
  \<^item> \<open>Sysd_Run\<close>: one round, the wait at its end, and runs of rounds as an inductive relation; the hardware
    handshake happens at most once and exactly when it should.
  \<^item> \<open>Sysd_Main\<close>: start-up stage by stage; what holds when the loop is reached; the debug dump.
  \<^item> \<open>Cli_Timezone\<close> (\<open>system_vty.c\<close>, \<open>vtysh_ovsdb_system_context.c\<close>): the table of zones, the commands,
    and the round trip through the running configuration.
  \<^item> \<open>Cli_Show\<close> (\<open>system_vty.c\<close>): the show commands, on a freshly configured database and with fans and
    power supplies; the contract of \<open>qsort\<close> is the locale \<open>c_qsort\<close>.
  \<^item> \<open>Setup\<close> (\<open>parse_options\<close>, \<open>sysd_ovsdb_conn_init\<close>, \<open>system_ovsdb_init\<close>): the command line with its usage
    message and the columns registered; that the daemon does not wake itself.
  \<^item> \<open>Cli_Init\<close> (\<open>cli_pre_init\<close>, \<open>cli_post_init\<close>): the commands the plugin installs; the zones offered are the
    zones accepted.
  \<^item> \<open>Simulation\<close>: steps with labels, reachability, and the interface between a system and the abstract machine
    it refines.
  \<^item> \<open>System\<close>: rounds of the daemon, progress of other daemons and zone commands as steps over one database.
    \<open>spec_step\<close> is the abstract machine: unconfigured, waiting for the hardware daemons, done, with the zone and
    the daemons that have reported; \<open>spec_of\<close> is what it sees of a database. The system refines it (\<open>sublocale\<close> of
    \<open>simulation\<close>); in every reachable state the invariant \<open>world_inv\<close> holds, a round fails in two ways only (the
    software columns written without a transaction, a version file out of order), the next active round
    completes the handshake when all have reported, and a zone command is followed by the daemon. A round starts
    from the database as it is, any commit may fail and the lock may be missing; what the other daemons may do is
    \<open>others_step\<close>.
  \<^item> \<open>Handshake\<close>: from start-up over the steps of the system to the completed handshake: the first round
    configures, and the first round that finds all hardware daemons done completes it.

  Bounds and termination. Loops over lists and trees are structural; the TLV reader and the string
  scanners end by a measure proved with their definitions; the loop that strips the base path from a zone
  is a \<open>partial_function\<close>, with the theorem that it returns exactly when the base path is not empty. Sizes of
  buffers (the speeds, the paths, the zone table, the dump) are those of the code.

  Not modelled. Daemonisation, logging and the event log have no state of their own that the rest depends
  on; the text of log messages and memory leaks are left out. What the libraries do with what they are given
  is theirs: the command parser of \<open>vtysh\<close>, the parsers of JSON and YAML, the config-yaml library, the
  database protocol. The contents of the Package_Info table after a round are given by the environment of the
  round, while the transactions that write it are modelled. Build files, the Python plugin and the tests are not
  C code of the daemon.
\<close>

end
